(* ===== verification/Ledger_Prelude.thy ===== *)
theory Ledger_Prelude
  imports Complex_Main "HOL-Library.Word" "HOL-Library.Multiset"
begin

text \<open>
  Shared vocabulary of the development: Go errors as chains of the sentinel values of
  \<^verbatim>\<open>core/errors.go\<close>, results as sums, the two-valued sequencing combinators that mirror
  Go's \<open>if err != nil { return err }\<close>, 64-bit wrap-around, instants of
  \<^verbatim>\<open>time.Time\<close>, and the generic list and arithmetic lemmas the components share.
\<close>

named_theorems result_simps \<open>unfolding rules for successful results\<close>
named_theorems valid_defs \<open>definitions of the input validators\<close>

section \<open>Errors and results\<close>

text \<open>
  The sentinel errors a caller can distinguish with \<^verbatim>\<open>errors.Is\<close>. A Go error is the list
  of sentinels its \<open>%w\<close> chain carries; message texts are not modelled. An error that wraps
  no sentinel of the package is the empty list.
\<close>

datatype sentinel =
    ErrNotFound | ErrInvalidInput | ErrInsufficientBalance | ErrDuplicateJournal
  | ErrUnbalancedJournal | ErrInvalidTransition | ErrConflict | ErrPrecisionExceeded
  | ErrAccountFrozen | ErrAccountClosed | ErrPeriodClosed | ErrAttestorUnavailable
  | ErrUnauthorizedJournal | ErrUnknownAuthKey | ErrRollupPending | ErrTransient
  | ErrNoLifecycle | ErrCorruptData

type_synonym goerr = "sentinel list"
type_synonym 'a result = "goerr + 'a"

definition errors_is :: "goerr \<Rightarrow> sentinel \<Rightarrow> bool" where
  "errors_is e s = List.member e s"

abbreviation (input) invalid :: "'a result" where
  "invalid \<equiv> Inl [ErrInvalidInput]"

fun bindR :: "'a result \<Rightarrow> ('a \<Rightarrow> 'b result) \<Rightarrow> 'b result" where
  "bindR (Inl e) f = Inl e"
| "bindR (Inr x) f = f x"

fun andThen :: "unit result \<Rightarrow> 'a result \<Rightarrow> 'a result" where
  "andThen (Inl e) k = Inl e"
| "andThen (Inr u) k = k"

text \<open>A loop whose body may return an error: stops at the first one.\<close>

fun forEach :: "('a \<Rightarrow> unit result) \<Rightarrow> 'a list \<Rightarrow> unit result" where
  "forEach f [] = Inr ()"
| "forEach f (x # xs) = andThen (f x) (forEach f xs)"

fun mapR :: "('a \<Rightarrow> 'b result) \<Rightarrow> 'a list \<Rightarrow> 'b list result" where
  "mapR f [] = Inr []"
| "mapR f (x # xs) = bindR (f x) (\<lambda>y. bindR (mapR f xs) (\<lambda>ys. Inr (y # ys)))"

lemma bindR_Inr [simp, result_simps]:
  "(bindR m f = Inr y) = (\<exists>x. m = Inr x \<and> f x = Inr y)"
  by (cases m) auto

lemma bindR_Inl: "(bindR m f = Inl e) = (m = Inl e \<or> (\<exists>x. m = Inr x \<and> f x = Inl e))"
  by (cases m) auto

lemma andThen_Inr [simp, result_simps]:
  "(andThen m k = Inr y) = (m = Inr () \<and> k = Inr y)"
  by (cases m) auto

lemma andThen_Inl: "(andThen m k = Inl e) = (m = Inl e \<or> (m = Inr () \<and> k = Inl e))"
  by (cases m) auto

text \<open>A guard that returns an error succeeds exactly when it does not fire.\<close>

lemma guard_Inr [simp, result_simps]:
  "((if c then Inl e else k) = Inr y) = (\<not> c \<and> k = Inr y)"
  "((if c then k else Inl e) = Inr y) = (c \<and> k = Inr y)"
  by simp_all

lemma forEach_Inr [simp, result_simps]:
  "(forEach f xs = Inr ()) = (\<forall>x\<in>set xs. f x = Inr ())"
  by (induction xs) auto

lemma mapR_Inr: "(mapR f xs = Inr ys) = list_all2 (\<lambda>x y. f x = Inr y) xs ys"
  by (induction xs arbitrary: ys) (auto simp: list_all2_Cons1)

lemma mapR_ok: "\<forall>x\<in>set xs. \<exists>y. f x = Inr y \<Longrightarrow> \<exists>ys. mapR f xs = Inr ys"
  by (induction xs) auto

lemma mapR_Inr_length: "mapR f xs = Inr ys \<Longrightarrow> length ys = length xs"
  by (simp add: mapR_Inr list_all2_lengthD)

lemma forEach_append: "forEach f (xs @ ys) = andThen (forEach f xs) (forEach f ys)"
proof (induction xs)
  case Nil
  then show ?case by simp
next
  case (Cons x xs)
  then show ?case by (cases "f x") simp_all
qed

lemma unit_result_cases:
  fixes m :: "unit result"
  obtains "m = Inr ()" | e where "m = Inl e"
  by (cases m) auto

text \<open>A computation all of whose errors carry the invalid-input sentinel.\<close>

definition only_invalid :: "'a result \<Rightarrow> bool" where
  "only_invalid m \<longleftrightarrow> (\<forall>e. m = Inl e \<longrightarrow> ErrInvalidInput \<in> set e)"

named_theorems only_invalid_intros \<open>validators that fail with invalid input only\<close>

lemma only_invalid_Inr [simp]: "only_invalid (Inr x)"
  by (simp add: only_invalid_def)

lemma only_invalid_invalid [simp]: "only_invalid (invalid :: 'a result)"
  by (simp add: only_invalid_def)

lemma only_invalid_andThen:
  "only_invalid m \<Longrightarrow> only_invalid k \<Longrightarrow> only_invalid (andThen m k)"
  by (auto simp: only_invalid_def andThen_Inl)

lemma only_invalid_bindR:
  "only_invalid m \<Longrightarrow> (\<And>x. only_invalid (f x)) \<Longrightarrow> only_invalid (bindR m f)"
  by (auto simp: only_invalid_def bindR_Inl)

lemma only_invalid_if:
  "(c \<Longrightarrow> only_invalid m) \<Longrightarrow> (\<not> c \<Longrightarrow> only_invalid k) \<Longrightarrow> only_invalid (if c then m else k)"
  by simp

lemma only_invalid_forEach: "(\<And>x. only_invalid (f x)) \<Longrightarrow> only_invalid (forEach f xs)"
  by (induction xs) (auto intro: only_invalid_andThen)

lemma only_invalid_option:
  "only_invalid m \<Longrightarrow> (\<And>x. only_invalid (f x)) \<Longrightarrow>
     only_invalid (case v of None \<Rightarrow> m | Some x \<Rightarrow> f x)"
  by (cases v) auto

lemmas only_invalid_rules = only_invalid_andThen only_invalid_bindR only_invalid_if
  only_invalid_forEach only_invalid_option

lemma only_invalid_error:
  "only_invalid m \<Longrightarrow> m \<noteq> Inr x \<Longrightarrow> (\<And>y. m = Inr y \<Longrightarrow> y = x) \<Longrightarrow>
     \<exists>e. m = Inl e \<and> ErrInvalidInput \<in> set e"
  by (cases m) (auto simp: only_invalid_def)

section \<open>Machine integers and instants\<close>

text \<open>Go's \<open>int64\<close> arithmetic: the integer result reduced to two's complement.\<close>

definition int64_min :: int where "int64_min = - (2 ^ 63)"
definition int64_max :: int where "int64_max = 2 ^ 63 - 1"

definition is_int64 :: "int \<Rightarrow> bool" where
  "is_int64 x \<longleftrightarrow> int64_min \<le> x \<and> x \<le> int64_max"

definition wrap64 :: "int \<Rightarrow> int" where
  "wrap64 x = (x + 2 ^ 63) mod 2 ^ 64 - 2 ^ 63"

lemma wrap64_id: "is_int64 x \<Longrightarrow> wrap64 x = x"
  by (simp add: is_int64_def wrap64_def int64_min_def int64_max_def)

lemma is_int64_wrap64: "is_int64 (wrap64 x)"
proof -
  have "0 \<le> (x + 2 ^ 63) mod 2 ^ 64" "(x + 2 ^ 63) mod 2 ^ 64 < 2 ^ 64"
    by simp_all
  then show ?thesis
    by (simp add: is_int64_def wrap64_def int64_min_def int64_max_def)
qed

text \<open>
  An instant of \<^verbatim>\<open>time.Time\<close> is its distance in nanoseconds from Go's zero time, so that
  \<^verbatim>\<open>IsZero\<close> is a comparison with 0; a \<^verbatim>\<open>time.Duration\<close> is a number of nanoseconds.
\<close>

type_synonym gotime = int
type_synonym duration = int

definition IsZeroTime :: "gotime \<Rightarrow> bool" where "IsZeroTime t \<longleftrightarrow> t = 0"

definition minute :: duration where "minute = 60 * 1000000000"

text \<open>Go maps from strings are association lists with distinct keys.\<close>

type_synonym metadata = "(string \<times> string) list"

section \<open>Decimal numerals\<close>

text \<open>\<^verbatim>\<open>big.Int.String\<close> of the standard library, and its inverse on the digits.\<close>

function nat_String :: "int \<Rightarrow> string" where
  "nat_String n =
     (if n < 10 then [char_of (nat (48 + n))]
      else nat_String (n div 10) @ [char_of (nat (48 + n mod 10))])"
  by pat_completeness auto
termination
  by (relation "measure nat") auto

declare nat_String.simps [simp del]

definition int_String :: "int \<Rightarrow> string" where
  "int_String i = (if i < 0 then CHR ''-'' # nat_String (- i) else nat_String i)"

lemma length_nat_String_ge1: "1 \<le> length (nat_String n)"
  by (subst nat_String.simps) simp

lemma nat_String_hd: "0 \<le> n \<Longrightarrow> hd (nat_String n) \<noteq> CHR ''-''"
proof (induction n rule: nat_String.induct)
  case (1 n)
  show ?case
  proof (cases "n < 10")
    case True
    have "char_of (nat (48 + n)) = CHR ''-'' \<longleftrightarrow> nat (48 + n) mod 256 = 45"
      by (simp add: char_of_eq_iff take_bit_eq_mod)
    with True 1 show ?thesis by (simp add: nat_String.simps [of n] nat_mod_as_int)
  next
    case False
    have "nat_String (n div 10) \<noteq> []" using length_nat_String_ge1 [of "n div 10"] by auto
    with False 1 show ?thesis by (simp add: nat_String.simps [of n])
  qed
qed

definition digits_val :: "string \<Rightarrow> int" where
  "digits_val s = foldl (\<lambda>a c. 10 * a + (of_char c - 48)) 0 s"

lemma of_char_digit: "0 \<le> n \<Longrightarrow> n < 10 \<Longrightarrow> of_char (char_of (nat (48 + n))) = (48 + n :: int)"
proof -
  assume n: "0 \<le> n" "n < 10"
  then have "char_of (nat (48 + n)) = (char_of (48 + n :: int))"
    using char_of_nat [of "nat (48 + n)", where 'a = int] by simp
  with n show ?thesis by simp
qed

lemma digits_val_nat_String: "0 \<le> n \<Longrightarrow> digits_val (nat_String n) = n"
proof (induction n rule: nat_String.induct)
  case (1 n)
  show ?case
  proof (cases "n < 10")
    case True
    with 1 show ?thesis by (simp add: nat_String.simps [of n] digits_val_def of_char_digit)
  next
    case False
    then have "digits_val (nat_String (n div 10)) = n div 10" using 1 by simp
    with False show ?thesis
      by (simp add: nat_String.simps [of n] digits_val_def of_char_digit)
  qed
qed

lemma nat_String_digits: "0 \<le> n \<Longrightarrow> c \<in> set (nat_String n) \<Longrightarrow> of_char c \<in> {48..57 :: int}"
proof (induction n rule: nat_String.induct)
  case (1 n)
  show ?case
  proof (cases "n < 10")
    case True
    with 1 show ?thesis by (simp add: nat_String.simps [of n] of_char_digit)
  next
    case False
    with 1 show ?thesis
      by (auto simp: nat_String.simps [of n] of_char_digit)
  qed
qed

lemma int_String_inj: "int_String i = int_String j \<Longrightarrow> i = j"
proof -
  assume eq: "int_String i = int_String j"
  have ne: "nat_String n \<noteq> CHR ''-'' # s" if "0 \<le> n" for n s
    using nat_String_hd [OF that] by auto
  have inj: "m = n" if "nat_String m = nat_String n" "0 \<le> m" "0 \<le> n" for m n
    using digits_val_nat_String that by metis
  show "i = j"
    using eq inj [of "- i" "- j"] inj [of i j] ne [of i "nat_String (- j)"]
      ne [of j "nat_String (- i)"]
    by (auto simp: int_String_def not_less split: if_splits)
qed

lemma int_String_chars: "c \<in> set (int_String i) \<Longrightarrow> of_char c \<in> {48..57 :: int} \<or> c = CHR ''-''"
  using nat_String_digits [of i c] nat_String_digits [of "- i" c]
  by (auto simp: int_String_def split: if_splits)

section \<open>Sorting by a comparison\<close>

text \<open>\<^verbatim>\<open>sort.Slice\<close> with a strict comparison, as insertion. Go leaves the order of elements
  neither of which is less than the other open; the lemma relates it to a sort by key.\<close>

fun insert_by :: "('a \<Rightarrow> 'a \<Rightarrow> bool) \<Rightarrow> 'a \<Rightarrow> 'a list \<Rightarrow> 'a list" where
  "insert_by lt x [] = [x]"
| "insert_by lt x (y # ys) = (if lt y x then y # insert_by lt x ys else x # y # ys)"

definition sort_by :: "('a \<Rightarrow> 'a \<Rightarrow> bool) \<Rightarrow> 'a list \<Rightarrow> 'a list" where
  "sort_by lt xs = foldr (insert_by lt) xs []"

lemma mset_insert_by [simp]: "mset (insert_by lt x xs) = add_mset x (mset xs)"
  by (induction xs) auto

lemma mset_sort_by [simp]: "mset (sort_by lt xs) = mset xs"
  by (induction xs) (simp_all add: sort_by_def)

lemma set_sort_by [simp]: "set (sort_by lt xs) = set xs"
  by (metis mset_sort_by set_mset_mset)

lemma length_sort_by [simp]: "length (sort_by lt xs) = length xs"
  by (metis mset_sort_by size_mset)

lemma sort_by_key:
  fixes key :: "'a \<Rightarrow> 'k::linorder"
  assumes "\<And>x y. lt x y \<longleftrightarrow> key x < key y"
  shows "sort_by lt xs = sort_key key xs"
proof -
  have ins: "insert_by lt x ys = insort_key key x ys" for x ys
    by (induction ys) (auto simp: assms not_less)
  show ?thesis by (induction xs) (simp_all add: sort_by_def ins)
qed

section \<open>Generic lemmas\<close>

lemma sum_list_map_filter_split:
  fixes f :: "'a \<Rightarrow> 'b::comm_monoid_add"
  shows "sum_list (map f (filter P xs)) + sum_list (map f (filter (\<lambda>x. \<not> P x) xs))
         = sum_list (map f xs)"
  by (induction xs) (auto simp: add_ac)

lemma sum_list_map_permute:
  fixes f :: "'a \<Rightarrow> 'b::comm_monoid_add"
  shows "mset xs = mset ys \<Longrightarrow> sum_list (map f xs) = sum_list (map f ys)"
  by (metis mset_map sum_mset_sum_list)

lemma sum_list_zero:
  fixes xs :: "'a::monoid_add list"
  shows "\<forall>x\<in>set xs. x = 0 \<Longrightarrow> sum_list xs = 0"
  by (induction xs) auto

lemma sum_list_le_length:
  fixes xs :: "rat list"
  shows "\<forall>x\<in>set xs. x < 1 \<Longrightarrow> sum_list xs \<le> of_nat (length xs)"
  by (induction xs) auto

lemma sum_list_of_int_mult:
  "sum_list (map (\<lambda>x. of_int (f x) * (c :: rat)) xs) = of_int (sum_list (map f xs)) * c"
  by (induction xs) (simp_all add: distrib_right)

lemma map_of_Some_mem: "map_of xs k = Some v \<Longrightarrow> (k, v) \<in> set xs"
  by (rule map_of_SomeD)

end
