(* ===== verification/Error_Codes.thy ===== *)
theory Error_Codes
  imports Ledger_Prelude "HOL-Library.AList"
begin

text \<open>
  How an error reaches a caller: retry classification (\<^verbatim>\<open>core/errors.go\<close>), business codes with
  their HTTP status (\<^verbatim>\<open>pkg/bizcode/errors.go\<close>), the mapping of domain sentinels to codes
  (\<^verbatim>\<open>pkg/httpx/response.go\<close>) and of database errors to sentinels
  (\<^verbatim>\<open>postgres/errors.go\<close>).
\<close>

section \<open>Retry classification\<close>

definition nonRetryable :: "sentinel list" where
  "nonRetryable =
     [ErrNotFound, ErrInvalidInput, ErrInsufficientBalance, ErrDuplicateJournal, ErrUnbalancedJournal,
      ErrInvalidTransition, ErrConflict, ErrPrecisionExceeded, ErrAccountFrozen, ErrAccountClosed,
      ErrPeriodClosed, ErrUnauthorizedJournal, ErrUnknownAuthKey, ErrNoLifecycle, ErrCorruptData]"

definition IsRetryable :: "goerr option \<Rightarrow> bool" where
  "IsRetryable err =
     (case err of
        None \<Rightarrow> False
      | Some e \<Rightarrow>
          if errors_is e ErrTransient \<or> errors_is e ErrAttestorUnavailable \<or> errors_is e ErrRollupPending
          then True
          else if list_ex (errors_is e) nonRetryable then False
          else True)"

section \<open>Business codes\<close>

record AppError =
  ae_Code :: int
  ae_Message :: string
  ae_Err :: "goerr option"
  ae_Fields :: "(string \<times> string) list"

definition New :: "int \<Rightarrow> string \<Rightarrow> AppError" where
  "New code message = \<lparr>ae_Code = code, ae_Message = message, ae_Err = None, ae_Fields = []\<rparr>"

definition Wrap :: "int \<Rightarrow> string \<Rightarrow> goerr \<Rightarrow> AppError" where
  "Wrap code message err =
     \<lparr>ae_Code = code, ae_Message = message, ae_Err = Some err, ae_Fields = []\<rparr>"

definition WithFields :: "AppError \<Rightarrow> (string \<times> string) list \<Rightarrow> AppError" where
  "WithFields e flds = e\<lparr>ae_Fields :=
     fold (\<lambda>(k, v) m. AList.update k v m) flds (fold (\<lambda>(k, v) m. AList.update k v m) (ae_Fields e) [])\<rparr>"

definition HTTPStatus :: "AppError \<Rightarrow> int" where
  "HTTPStatus e =
     (let c = ae_Code e in
      if 10000 \<le> c \<and> c \<le> 10099 then 400
      else if 10100 \<le> c \<and> c \<le> 10149 then 401
      else if 10150 \<le> c \<and> c \<le> 10199 then 403
      else if 10200 \<le> c \<and> c \<le> 10299 then 404
      else if 10300 \<le> c \<and> c \<le> 10399 then 409
      else if 10400 \<le> c \<and> c \<le> 10499 then 429
      else if 10900 \<le> c \<and> c \<le> 10999 then 409
      else if 14000 \<le> c \<and> c \<le> 14999 then 422
      else if 18100 \<le> c \<and> c \<le> 18199 then 503
      else 500)"

definition Retryable :: "int \<Rightarrow> bool" where
  "Retryable code =
     (if 10400 \<le> code \<and> code \<le> 10499 then True
      else if 18100 \<le> code \<and> code \<le> 18199 then True
      else if 10000 \<le> code \<and> code \<le> 10399 then False
      else if 10900 \<le> code \<and> code \<le> 10999 then False
      else if 14000 \<le> code \<and> code \<le> 14999 then False
      else if 19000 \<le> code \<and> code \<le> 19099 then False
      else True)"

section \<open>Display messages\<close>

text \<open>The registered messages are mutable state: a map from codes to texts.\<close>

definition displayMessages :: "(int \<times> string) list" where
  "displayMessages =
     [(10001, ''Please check your input and try again''),
      (10101, ''Authentication required''),
      (10150, ''You don't have permission''),
      (10201, ''The requested resource was not found''),
      (10301, ''This resource already exists''),
      (10401, ''Rate limit exceeded, please retry later''),
      (10901, ''Operation conflicts with current state''),
      (18101, ''Service is starting or temporarily unavailable''),
      (18102, ''This feature is not enabled on this server''),
      (14001, ''Insufficient balance for this operation''),
      (14002, ''This operation has already been processed''),
      (14003, ''Journal entries are not balanced''),
      (14004, ''Invalid state transition''),
      (14005, ''Reservation has expired''),
      (14006, ''Amount has more decimal places than this currency allows''),
      (14007, ''This account is frozen''),
      (14008, ''This account is closed''),
      (14009, ''This accounting period is closed''),
      (14010, ''This transaction failed a security check and could not be completed. Please contact support''),
      (14011, ''This transaction failed a security check and could not be completed. Please contact support''),
      (18103, ''This request is temporarily unavailable, please try again shortly''),
      (18104, ''This request could not be completed right now, please try again shortly''),
      (18105, ''A temporary error occurred, please try again''),
      (19001, ''An unexpected error occurred. Please contact support''),
      (19999, ''An unexpected error occurred'')]"

definition DisplayMessage :: "(int \<times> string) list \<Rightarrow> int \<Rightarrow> string" where
  "DisplayMessage msgs code =
     (case map_of msgs code of Some msg \<Rightarrow> msg | None \<Rightarrow> ''An unexpected error occurred'')"

definition RegisterDisplayMessage :: "int \<Rightarrow> string \<Rightarrow> (int \<times> string) list \<Rightarrow> (int \<times> string) list" where
  "RegisterDisplayMessage code msg msgs = AList.update code msg msgs"

section \<open>Resolving an error for the wire\<close>

text \<open>
  An error that reaches a handler: the application error found in its chain, if any, and the domain
  sentinels of the chain.
\<close>

record http_error =
  he_App :: "AppError option"
  he_Chain :: goerr

definition resolveError :: "http_error \<Rightarrow> AppError" where
  "resolveError err =
     (case he_App err of
        Some ae \<Rightarrow> ae
      | None \<Rightarrow>
          let e = he_Chain err in
          if errors_is e ErrNotFound then Wrap 10201 ''not found'' e
          else if errors_is e ErrInsufficientBalance then Wrap 14001 ''insufficient balance'' e
          else if errors_is e ErrDuplicateJournal then Wrap 14002 ''duplicate journal'' e
          else if errors_is e ErrUnbalancedJournal then Wrap 14003 ''unbalanced journal'' e
          else if errors_is e ErrInvalidTransition then Wrap 14004 ''invalid transition'' e
          else if errors_is e ErrPrecisionExceeded then Wrap 14006 ''amount exceeds currency precision'' e
          else if errors_is e ErrAccountFrozen then Wrap 14007 ''account frozen'' e
          else if errors_is e ErrAccountClosed then Wrap 14008 ''account closed'' e
          else if errors_is e ErrPeriodClosed then Wrap 14009 ''accounting period is closed'' e
          else if errors_is e ErrUnauthorizedJournal then Wrap 14010 ''unauthorized journal'' e
          else if errors_is e ErrUnknownAuthKey then Wrap 14011 ''unknown authorization key'' e
          else if errors_is e ErrNoLifecycle then Wrap 10001 ''classification has no lifecycle'' e
          else if errors_is e ErrInvalidInput then Wrap 10001 ''invalid input'' e
          else if errors_is e ErrConflict then Wrap 10901 ''conflict'' e
          else if errors_is e ErrRollupPending
            then Wrap 18103 ''rollup queue item pending for this dimension'' e
          else if errors_is e ErrAttestorUnavailable
            then Wrap 18104 ''authorization signer temporarily unavailable'' e
          else if errors_is e ErrTransient then Wrap 18105 ''temporary failure'' e
          else if errors_is e ErrCorruptData then Wrap 19001 ''stored data integrity violation'' e
          else Wrap 19999 ''internal error'' e)"

datatype log_level = LogInfo | LogWarn | LogError

record error_response =
  er_Status :: int
  er_Code :: int
  er_Text :: string
  er_Fields :: "(string \<times> string) list"

definition httpError :: "(int \<times> string) list \<Rightarrow> http_error \<Rightarrow> log_level \<times> error_response" where
  "httpError msgs err =
     (let ae = resolveError err; status = HTTPStatus ae in
      (if 500 \<le> status \<and> status \<noteq> 503 then LogError
       else if status = 503 then LogWarn
       else LogInfo,
       \<lparr>er_Status = status, er_Code = ae_Code ae, er_Text = DisplayMessage msgs (ae_Code ae),
        er_Fields = ae_Fields ae\<rparr>))"

section \<open>Database errors\<close>

text \<open>A driver error: the fields \<open>normalizeStoreError\<close> looks at, found by \<^verbatim>\<open>errors.As\<close>, and
  the sentinels the error already carries.\<close>

record pg_error =
  pg_Code :: string
  pg_ConstraintName :: string
  pg_Unbalanced :: bool

definition normalizeStoreError :: "pg_error option \<Rightarrow> goerr \<Rightarrow> goerr" where
  "normalizeStoreError pgErr err =
     (case pgErr of
        None \<Rightarrow> err
      | Some p \<Rightarrow>
          if pg_Code p = ''23505'' then
            (if pg_ConstraintName p = ''journals_idempotency_key_key'' then [ErrDuplicateJournal]
             else [ErrConflict])
          else if pg_Code p = ''23514'' then
            (if pg_ConstraintName p = ''chk_journal_currency_balance''
                \<or> pg_ConstraintName p = ''chk_journal_balance'' \<or> pg_Unbalanced p
             then [ErrUnbalancedJournal] else [ErrInvalidInput])
          else if pg_Code p = ''23503'' \<or> pg_Code p = ''23502'' \<or> pg_Code p = ''22P02''
            then [ErrInvalidInput]
          else if pg_Code p = ''22003'' \<or> pg_Code p = ''22001'' then [ErrInvalidInput]
          else if pg_Code p = ''40001'' \<or> pg_Code p = ''40P01'' then err @ [ErrTransient]
          else err)"

definition wrapStoreError :: "(pg_error option \<times> goerr) option \<Rightarrow> goerr option" where
  "wrapStoreError err = map_option (\<lambda>(p, e). normalizeStoreError p e) err"

section \<open>Properties\<close>

definition retrySentinels :: "sentinel list" where
  "retrySentinels = [ErrTransient, ErrAttestorUnavailable, ErrRollupPending]"

lemma errors_is_Cons: "errors_is e s \<longleftrightarrow> s \<in> set e"
  by (simp add: errors_is_def)

lemma sentinel_cases_split:
  "s \<in> set retrySentinels \<or> s \<in> set nonRetryable"
  by (cases s) (simp_all add: retrySentinels_def nonRetryable_def)

lemma IsRetryable_iff:
  "IsRetryable (Some e) \<longleftrightarrow> e = [] \<or> (\<exists>s\<in>set e. s \<in> set retrySentinels)"
proof -
  have "e = [] \<or> (\<exists>s\<in>set e. s \<in> set retrySentinels) \<or> (\<exists>s\<in>set e. s \<in> set nonRetryable)"
    using sentinel_cases_split by (cases e) auto
  then show ?thesis
    by (auto simp: IsRetryable_def errors_is_Cons list_ex_iff retrySentinels_def)
qed

lemma DisplayMessage_registered:
  assumes "c \<in> fst ` set msgs"
  shows "DisplayMessage msgs c \<in> set (map snd msgs)"
proof -
  from assms obtain m where "map_of msgs c = Some m" by (metis map_of_eq_None_iff not_None_eq)
  then show ?thesis by (auto simp: DisplayMessage_def dest!: map_of_SomeD intro: rev_image_eqI)
qed

text \<open>The switch of \<open>resolveError\<close> as a table, in its order: permanent sentinels, retryable
  ones, corrupt data.\<close>

definition permanentTable :: "(sentinel \<times> int) list" where
  "permanentTable =
     [(ErrNotFound, 10201), (ErrInsufficientBalance, 14001), (ErrDuplicateJournal, 14002),
      (ErrUnbalancedJournal, 14003), (ErrInvalidTransition, 14004), (ErrPrecisionExceeded, 14006),
      (ErrAccountFrozen, 14007), (ErrAccountClosed, 14008), (ErrPeriodClosed, 14009),
      (ErrUnauthorizedJournal, 14010), (ErrUnknownAuthKey, 14011), (ErrNoLifecycle, 10001),
      (ErrInvalidInput, 10001), (ErrConflict, 10901)]"

definition transientTable :: "(sentinel \<times> int) list" where
  "transientTable = [(ErrRollupPending, 18103), (ErrAttestorUnavailable, 18104), (ErrTransient, 18105)]"

definition first_code :: "goerr \<Rightarrow> (sentinel \<times> int) list \<Rightarrow> int option" where
  "first_code e tab = map_option snd (find (\<lambda>(s, c). s \<in> set e) tab)"

lemma first_code_simps [simp]:
  "first_code e [] = None"
  "first_code e ((s, c) # tab) = (if s \<in> set e then Some c else first_code e tab)"
  by (simp_all add: first_code_def)

lemma first_code_None: "first_code e tab = None \<longleftrightarrow> (\<forall>s\<in>set e. s \<notin> fst ` set tab)"
  by (auto simp: first_code_def find_None_iff)

lemma first_code_Some: "first_code e tab = Some c \<Longrightarrow> c \<in> snd ` set tab"
  by (induction tab) (auto split: if_splits)

fun pick_code :: "goerr \<Rightarrow> (sentinel \<times> int) list \<Rightarrow> int \<Rightarrow> int" where
  "pick_code e [] d = d"
| "pick_code e ((s, c) # tab) d = (if s \<in> set e then c else pick_code e tab d)"

lemma pick_code_append: "pick_code e (xs @ ys) d = pick_code e xs (pick_code e ys d)"
  by (induction e xs d rule: pick_code.induct) simp_all

lemma pick_code_first:
  "pick_code e tab d = (case first_code e tab of Some c \<Rightarrow> c | None \<Rightarrow> d)"
  by (induction e tab d rule: pick_code.induct) simp_all

lemma resolveError_pick:
  "ae_Code (resolveError \<lparr>he_App = None, he_Chain = e\<rparr>) =
     pick_code e (permanentTable @ transientTable @ [(ErrCorruptData, 19001)]) 19999"
  unfolding resolveError_def Let_def http_error.simps option.case Wrap_def errors_is_Cons
    permanentTable_def transientTable_def if_distrib [of ae_Code] AppError.simps append.simps
    pick_code.simps
  by (rule refl)

lemma resolveError_table:
  "ae_Code (resolveError \<lparr>he_App = None, he_Chain = e\<rparr>) =
     (case first_code e permanentTable of Some c \<Rightarrow> c
      | None \<Rightarrow> case first_code e transientTable of Some c \<Rightarrow> c
      | None \<Rightarrow> if ErrCorruptData \<in> set e then 19001 else 19999)"
  unfolding resolveError_pick pick_code_append pick_code_first [of e permanentTable]
    pick_code_first [of e transientTable] pick_code.simps by (rule refl)

lemma table_keys:
  "s \<in> fst ` set permanentTable \<longleftrightarrow> s \<in> set nonRetryable \<and> s \<noteq> ErrCorruptData"
  "s \<in> fst ` set transientTable \<longleftrightarrow> s \<in> set retrySentinels"
  by (cases s; simp add: permanentTable_def nonRetryable_def transientTable_def retrySentinels_def)+

lemma resolveError_code:
  "ae_Code (resolveError \<lparr>he_App = None, he_Chain = e\<rparr>) \<in>
     (if \<exists>s\<in>set e. s \<in> set nonRetryable \<and> s \<noteq> ErrCorruptData then snd ` set permanentTable
      else if \<exists>s\<in>set e. s \<in> set retrySentinels then snd ` set transientTable
      else if ErrCorruptData \<in> set e then {19001} else {19999})"
proof (cases "first_code e permanentTable")
  case None
  then have p: "\<not> (\<exists>s\<in>set e. s \<in> set nonRetryable \<and> s \<noteq> ErrCorruptData)"
    by (simp add: first_code_None table_keys)
  show ?thesis
  proof (cases "first_code e transientTable")
    case n: None
    then have "\<not> (\<exists>s\<in>set e. s \<in> set retrySentinels)" by (simp add: first_code_None table_keys)
    with None n p show ?thesis by (auto simp: resolveError_table)
  next
    case t: (Some c)
    then have "\<exists>s\<in>set e. s \<in> set retrySentinels"
      using first_code_None [of e transientTable] by (auto simp: table_keys)
    with None t p first_code_Some [OF t] show ?thesis by (auto simp: resolveError_table)
  qed
next
  case (Some c)
  then have "\<exists>s\<in>set e. s \<in> set nonRetryable \<and> s \<noteq> ErrCorruptData"
    using first_code_None [of e permanentTable] by (auto simp: table_keys)
  with Some first_code_Some [OF Some] show ?thesis by (simp add: resolveError_table)
qed

lemma HTTPStatus_code: "HTTPStatus ae = HTTPStatus (New (ae_Code ae) [])"
  by (simp add: HTTPStatus_def New_def)

lemma permanent_table_facts:
  "\<forall>c\<in>set (map snd permanentTable). HTTPStatus (New c []) \<in> set [400, 404, 409, 422] \<and> \<not> Retryable c"
  by code_simp

lemma transient_table_facts:
  "\<forall>c\<in>set (map snd transientTable). HTTPStatus (New c []) = 503 \<and> Retryable c"
  by code_simp

lemma code_status:
  "ae_Code ae \<in> snd ` set permanentTable \<Longrightarrow> HTTPStatus ae \<in> {400, 404, 409, 422}"
  "ae_Code ae \<in> snd ` set transientTable \<Longrightarrow> HTTPStatus ae = 503"
  "ae_Code ae \<in> {19001, 19999} \<Longrightarrow> HTTPStatus ae = 500"
proof -
  show "ae_Code ae \<in> snd ` set permanentTable \<Longrightarrow> HTTPStatus ae \<in> {400, 404, 409, 422}"
    using permanent_table_facts HTTPStatus_code [of ae] by (metis list.set set_map)
  show "ae_Code ae \<in> snd ` set transientTable \<Longrightarrow> HTTPStatus ae = 503"
    using transient_table_facts HTTPStatus_code [of ae] by (metis set_map)
  show "ae_Code ae \<in> {19001, 19999} \<Longrightarrow> HTTPStatus ae = 500"
    by (elim insertE emptyE) (simp_all add: HTTPStatus_def)
qed

lemma code_retryable:
  "c \<in> snd ` set permanentTable \<Longrightarrow> \<not> Retryable c"
  "c \<in> snd ` set transientTable \<Longrightarrow> Retryable c"
  "\<not> Retryable 19001" "Retryable 19999"
proof -
  show "c \<in> snd ` set permanentTable \<Longrightarrow> \<not> Retryable c"
    using permanent_table_facts by (metis set_map)
  show "c \<in> snd ` set transientTable \<Longrightarrow> Retryable c"
    using transient_table_facts by (metis set_map)
qed (simp_all add: Retryable_def)

lemma codes_registered:
  "snd ` set permanentTable \<union> snd ` set transientTable \<union> {19001, 19999} \<subseteq> fst ` set displayMessages"
  unfolding permanentTable_def transientTable_def displayMessages_def by simp

lemma resolveError_retryable:
  "Retryable (ae_Code (resolveError \<lparr>he_App = None, he_Chain = e\<rparr>)) \<longleftrightarrow>
     \<not> (\<exists>s\<in>set e. s \<in> set nonRetryable \<and> s \<noteq> ErrCorruptData)
     \<and> ((\<exists>s\<in>set e. s \<in> set retrySentinels) \<or> ErrCorruptData \<notin> set e)"
  using resolveError_code [of e] code_retryable by (auto split: if_splits)

lemma resolveError_fields: "ae_Fields (resolveError \<lparr>he_App = None, he_Chain = e\<rparr>) = []"
  unfolding resolveError_def Let_def http_error.simps option.case Wrap_def if_distrib [of ae_Fields]
    AppError.simps if_cancel by (rule refl)

text \<open>C29. The two retry verdicts on one domain error, \<open>IsRetryable\<close> of the library and
  \<open>Retryable\<close> of the code the HTTP layer resolves it to, agree exactly when the error chain does
  not mix a retryable sentinel with a permanent one other than corrupt data.\<close>

theorem retry_verdicts_agree_iff:
  "(Retryable (ae_Code (resolveError \<lparr>he_App = None, he_Chain = e\<rparr>)) = IsRetryable (Some e)) \<longleftrightarrow>
     \<not> ((\<exists>s\<in>set e. s \<in> {ErrTransient, ErrAttestorUnavailable, ErrRollupPending})
       \<and> (\<exists>s\<in>set e. s \<notin> {ErrTransient, ErrAttestorUnavailable, ErrRollupPending, ErrCorruptData}))"
proof -
  have split: "s \<in> set nonRetryable \<longleftrightarrow> s \<notin> set retrySentinels" for s
    by (cases s) (simp_all add: nonRetryable_def retrySentinels_def)
  have retry: "set retrySentinels = {ErrTransient, ErrAttestorUnavailable, ErrRollupPending}"
    by (simp add: retrySentinels_def)
  let ?R = "\<exists>s\<in>set e. s \<in> set retrySentinels"
  let ?P = "\<exists>s\<in>set e. s \<in> set nonRetryable \<and> s \<noteq> ErrCorruptData"
  have P: "(\<exists>s\<in>set e. s \<notin> {ErrTransient, ErrAttestorUnavailable, ErrRollupPending, ErrCorruptData}) = ?P"
    unfolding split retry by (rule bex_cong) auto
  have "?R \<or> ?P \<or> ErrCorruptData \<in> set e" if "e \<noteq> []"
  proof -
    have "hd e \<in> set e" using that by simp
    then show ?thesis using split [of "hd e"] by (cases "hd e = ErrCorruptData") auto
  qed
  then have "e = [] \<longleftrightarrow> \<not> ?R \<and> \<not> ?P \<and> ErrCorruptData \<notin> set e" by auto
  then show ?thesis
    unfolding P retry [symmetric] resolveError_retryable IsRetryable_iff by argo
qed

text \<open>An attestor outage reported together with an invalid input: retryable for the library,
  permanent for the HTTP client. On its own it is retryable for both.\<close>

theorem retry_verdicts_agree_iff_witness:
  "Retryable (ae_Code (resolveError
     \<lparr>he_App = None, he_Chain = [ErrInvalidInput, ErrAttestorUnavailable]\<rparr>))
     \<noteq> IsRetryable (Some [ErrInvalidInput, ErrAttestorUnavailable])
   \<and> Retryable (ae_Code (resolveError \<lparr>he_App = None, he_Chain = [ErrAttestorUnavailable]\<rparr>))
     = IsRetryable (Some [ErrAttestorUnavailable])"
  unfolding retry_verdicts_agree_iff by simp



end
