(* ===== verification/Decimal.thy ===== *)
theory Decimal
  imports Ledger_Prelude
begin

text \<open>
  The interface of \<^verbatim>\<open>github.com/shopspring/decimal\<close>, the third-party package that holds every
  amount. Its code is not part of the repository, so it is a parameter of the model: a record
  of the operations the repository calls, over an abstract type of decimals. What the
  repository relies on is the locale \<open>decimal_lib\<close>: each law states the documented
  meaning of one operation on the number \<open>coefficient * 10 ^ exponent\<close> a decimal stands for.
  The record \<open>ref_decimal\<close> of pairs of a coefficient and an exponent satisfies the laws.
\<close>

section \<open>Rounding of rationals\<close>

text \<open>The four documented rounding rules, as functions from a rational to an integer.\<close>

definition trunc_rat :: "rat \<Rightarrow> int" where
  "trunc_rat r = (if 0 \<le> r then \<lfloor>r\<rfloor> else - \<lfloor>- r\<rfloor>)"

definition away_rat :: "rat \<Rightarrow> int" where
  "away_rat r = (if 0 \<le> r then \<lceil>r\<rceil> else - \<lceil>- r\<rceil>)"

definition half_up_rat :: "rat \<Rightarrow> int" where
  "half_up_rat r = (if 0 \<le> r then \<lfloor>r + 1 / 2\<rfloor> else - \<lfloor>- r + 1 / 2\<rfloor>)"

definition half_even_rat :: "rat \<Rightarrow> int" where
  "half_even_rat r =
     (if r - of_int \<lfloor>r\<rfloor> = 1 / 2 then (if even \<lfloor>r\<rfloor> then \<lfloor>r\<rfloor> else \<lfloor>r\<rfloor> + 1)
      else \<lfloor>r + 1 / 2\<rfloor>)"

lemma trunc_rat_of_int [simp]: "trunc_rat (of_int i) = i"
proof -
  have "\<lfloor>- (of_int i :: rat)\<rfloor> = - i" by (metis floor_of_int of_int_minus)
  then show ?thesis by (simp add: trunc_rat_def)
qed

lemma away_rat_of_int [simp]: "away_rat (of_int i) = i"
proof -
  have "\<lceil>- (of_int i :: rat)\<rceil> = - i" by (metis ceiling_of_int of_int_minus)
  then show ?thesis by (simp add: away_rat_def)
qed

lemma floor_of_int_half [simp]: "\<lfloor>(of_int i :: rat) + 1 / 2\<rfloor> = i"
  by (simp add: floor_eq_iff)

lemma half_up_rat_of_int [simp]: "half_up_rat (of_int i) = i"
proof -
  have "\<lfloor>- (of_int i :: rat) + 1 / 2\<rfloor> = - i" by (metis floor_of_int_half of_int_minus)
  then show ?thesis by (simp add: half_up_rat_def)
qed

lemma half_even_rat_of_int [simp]: "half_even_rat (of_int i) = i"
  by (simp add: half_even_rat_def)

lemma floor_facts: "of_int \<lfloor>x\<rfloor> \<le> (x :: rat)" "x < of_int \<lfloor>x\<rfloor> + 1"
  by (rule of_int_floor_le) (rule floor_correct [THEN conjunct2, simplified])

lemma ceiling_facts: "(x :: rat) \<le> of_int \<lceil>x\<rceil>" "of_int \<lceil>x\<rceil> < x + 1"
  using ceiling_correct [of x] by linarith+

lemma trunc_rat_bound: "\<bar>of_int (trunc_rat r) - r\<bar> < 1"
  using floor_facts [of r] floor_facts [of "- r"]
  by (auto simp: trunc_rat_def simp del: of_int_floor_le)

lemma trunc_rat_abs_le: "\<bar>of_int (trunc_rat r)\<bar> \<le> \<bar>r\<bar>"
proof (cases "0 \<le> r")
  case True
  then show ?thesis by (simp add: trunc_rat_def)
next
  case False
  then have "0 \<le> \<lfloor>- r\<rfloor>" by simp
  with False floor_facts [of "- r"] show ?thesis by (simp add: trunc_rat_def)
qed

lemma away_rat_bound: "\<bar>of_int (away_rat r) - r\<bar> < 1"
  using ceiling_facts [of r] ceiling_facts [of "- r"]
  by (auto simp: away_rat_def simp del: le_of_int_ceiling)

lemma away_rat_abs_ge: "\<bar>r\<bar> \<le> \<bar>of_int (away_rat r)\<bar>"
  using ceiling_facts [of r] ceiling_facts [of "- r"]
  by (auto simp: away_rat_def simp del: le_of_int_ceiling)

lemma half_up_rat_bound: "\<bar>of_int (half_up_rat r) - r\<bar> \<le> 1 / 2"
proof (cases "0 \<le> r")
  case True
  then have "half_up_rat r = \<lfloor>r + 1 / 2\<rfloor>" by (simp add: half_up_rat_def)
  with floor_facts [of "r + 1 / 2"] show ?thesis by linarith
next
  case False
  then have "half_up_rat r = - \<lfloor>- r + 1 / 2\<rfloor>" by (simp add: half_up_rat_def)
  with floor_facts [of "- r + 1 / 2"] show ?thesis by (simp only: of_int_minus)
qed

lemma half_even_rat_bound: "\<bar>of_int (half_even_rat r) - r\<bar> \<le> 1 / 2"
proof (cases "r - of_int \<lfloor>r\<rfloor> = 1 / 2")
  case True
  then have "half_even_rat r = (if even \<lfloor>r\<rfloor> then \<lfloor>r\<rfloor> else \<lfloor>r\<rfloor> + 1)"
    by (simp add: half_even_rat_def)
  then have "half_even_rat r = \<lfloor>r\<rfloor> \<or> half_even_rat r = \<lfloor>r\<rfloor> + 1" by simp
  then have "of_int (half_even_rat r) = (of_int \<lfloor>r\<rfloor> :: rat)
      \<or> of_int (half_even_rat r) = (of_int \<lfloor>r\<rfloor> + 1 :: rat)" by auto
  with True show ?thesis by linarith
next
  case False
  then have "half_even_rat r = \<lfloor>r + 1 / 2\<rfloor>" by (simp add: half_even_rat_def)
  with floor_facts [of "r + 1 / 2"] show ?thesis by linarith
qed

lemma half_even_rat_tie: "r = of_int k + 1 / 2 \<Longrightarrow> even (half_even_rat r)"
proof -
  assume r: "r = of_int k + 1 / 2"
  then have "\<lfloor>r\<rfloor> = k" by (simp add: floor_eq_iff)
  with r show ?thesis by (simp add: half_even_rat_def)
qed

lemma rat_nonneg_mono:
  assumes "0 \<le> r"
  shows "0 \<le> trunc_rat r" "0 \<le> away_rat r" "0 \<le> half_up_rat r" "0 \<le> half_even_rat r"
proof -
  show "0 \<le> trunc_rat r" using assms by (simp add: trunc_rat_def)
  show "0 \<le> away_rat r" using assms by (simp add: away_rat_def)
  show "0 \<le> half_up_rat r" using assms by (simp add: half_up_rat_def)
  have "0 \<le> \<lfloor>r + 1 / 2\<rfloor>" "0 \<le> \<lfloor>r\<rfloor>" using assms by simp_all
  then show "0 \<le> half_even_rat r" by (simp add: half_even_rat_def)
qed

section \<open>The operations the repository calls\<close>

record 'd decimal_ops =
  dZero :: 'd
  dNewFromBigInt :: "int \<Rightarrow> int \<Rightarrow> 'd"
  dCoefficient :: "'d \<Rightarrow> int"
  dExponent :: "'d \<Rightarrow> int"
  dAdd :: "'d \<Rightarrow> 'd \<Rightarrow> 'd"
  dSub :: "'d \<Rightarrow> 'd \<Rightarrow> 'd"
  dMul :: "'d \<Rightarrow> 'd \<Rightarrow> 'd"
  dNeg :: "'d \<Rightarrow> 'd"
  dAbs :: "'d \<Rightarrow> 'd"
  dCmp :: "'d \<Rightarrow> 'd \<Rightarrow> int"
  dEqual :: "'d \<Rightarrow> 'd \<Rightarrow> bool"
  dIsPositive :: "'d \<Rightarrow> bool"
  dIsNegative :: "'d \<Rightarrow> bool"
  dIsZero :: "'d \<Rightarrow> bool"
  dLessThan :: "'d \<Rightarrow> 'd \<Rightarrow> bool"
  dGreaterThan :: "'d \<Rightarrow> 'd \<Rightarrow> bool"
  dTruncate :: "'d \<Rightarrow> int \<Rightarrow> 'd"
  dRound :: "'d \<Rightarrow> int \<Rightarrow> 'd"
  dRoundBank :: "'d \<Rightarrow> int \<Rightarrow> 'd"
  dRoundDown :: "'d \<Rightarrow> int \<Rightarrow> 'd"
  dRoundUp :: "'d \<Rightarrow> int \<Rightarrow> 'd"
  dShift :: "'d \<Rightarrow> int \<Rightarrow> 'd"
  dBigInt :: "'d \<Rightarrow> int"
  dRat :: "'d \<Rightarrow> rat"
  dDivRound :: "'d \<Rightarrow> 'd \<Rightarrow> int \<Rightarrow> 'd"
  dMin :: "'d \<Rightarrow> 'd \<Rightarrow> 'd"
  dString :: "'d \<Rightarrow> string"

text \<open>The number a decimal stands for: its coefficient scaled by ten to its exponent.\<close>

definition dval :: "'d decimal_ops \<Rightarrow> 'd \<Rightarrow> rat" where
  "dval D d = of_int (dCoefficient D d) * 10 powi dExponent D d"

definition rescaled :: "(rat \<Rightarrow> int) \<Rightarrow> rat \<Rightarrow> int \<Rightarrow> rat" where
  "rescaled f v p = of_int (f (v * 10 powi p)) * 10 powi (- p)"

section \<open>The documented laws\<close>

locale decimal_lib =
  fixes D :: "'d decimal_ops"
  assumes Zero: "dval D (dZero D) = 0"
    and Coefficient_New: "dCoefficient D (dNewFromBigInt D c e) = c"
    and Exponent_New: "dExponent D (dNewFromBigInt D c e) = e"
    and Add: "dval D (dAdd D a b) = dval D a + dval D b"
    and Sub: "dval D (dSub D a b) = dval D a - dval D b"
    and Mul: "dval D (dMul D a b) = dval D a * dval D b"
    and Neg: "dval D (dNeg D a) = - dval D a"
    and Abs: "dval D (dAbs D a) = \<bar>dval D a\<bar>"
    and Cmp: "dCmp D a b = (if dval D a < dval D b then -1 else if dval D a = dval D b then 0 else 1)"
    and Equal: "dEqual D a b \<longleftrightarrow> dval D a = dval D b"
    and IsPositive: "dIsPositive D a \<longleftrightarrow> 0 < dval D a"
    and IsNegative: "dIsNegative D a \<longleftrightarrow> dval D a < 0"
    and IsZero: "dIsZero D a \<longleftrightarrow> dval D a = 0"
    and LessThan: "dLessThan D a b \<longleftrightarrow> dval D a < dval D b"
    and GreaterThan: "dGreaterThan D a b \<longleftrightarrow> dval D b < dval D a"
    and Truncate: "0 \<le> p \<Longrightarrow> dval D (dTruncate D a p) = rescaled trunc_rat (dval D a) p"
    and Round: "dval D (dRound D a p) = rescaled half_up_rat (dval D a) p"
    and RoundBank: "dval D (dRoundBank D a p) = rescaled half_even_rat (dval D a) p"
    and RoundDown: "dval D (dRoundDown D a p) = rescaled trunc_rat (dval D a) p"
    and RoundUp: "dval D (dRoundUp D a p) = rescaled away_rat (dval D a) p"
    and Shift: "dval D (dShift D a p) = dval D a * 10 powi p"
    and BigInt: "dBigInt D a = trunc_rat (dval D a)"
    and Rat: "dRat D a = dval D a"
    and DivRound: "dval D b \<noteq> 0 \<Longrightarrow>
      dval D (dDivRound D a b p) = rescaled half_up_rat (dval D a / dval D b) p"
    and Min: "dval D (dMin D a b) = min (dval D a) (dval D b)"
    and String: "dString D a = dString D b \<longleftrightarrow> dval D a = dval D b"
    and Exponent_Zero: "dExponent D (dZero D) \<in> {0, 1}"
    and Exponent_Add: "dExponent D (dAdd D a b) = min (dExponent D a) (dExponent D b)"
begin

lemmas order_laws = Cmp Equal IsPositive IsNegative IsZero LessThan GreaterThan
lemmas ring_laws = Zero Add Sub Mul Neg Abs
lemmas laws = order_laws ring_laws

lemma New: "dval D (dNewFromBigInt D c e) = of_int c * 10 powi e"
  by (simp add: dval_def Coefficient_New Exponent_New)

end

section \<open>A decimal as a coefficient and an exponent\<close>

type_synonym cexp = "int \<times> int"

definition ce_align :: "(int \<Rightarrow> int \<Rightarrow> int) \<Rightarrow> cexp \<Rightarrow> cexp \<Rightarrow> cexp" where
  "ce_align f a b =
     (let e = min (snd a) (snd b)
      in (f (fst a * 10 ^ nat (snd a - e)) (fst b * 10 ^ nat (snd b - e)), e))"

definition ce_val :: "cexp \<Rightarrow> rat" where
  "ce_val a = of_int (fst a) * 10 powi snd a"

definition ce_diff :: "cexp \<Rightarrow> cexp \<Rightarrow> int" where
  "ce_diff a b = fst (ce_align (-) a b)"

definition ce_round :: "(rat \<Rightarrow> int) \<Rightarrow> cexp \<Rightarrow> int \<Rightarrow> cexp" where
  "ce_round f a p =
     (if - p \<le> snd a then a else (f (of_int (fst a) / 10 ^ nat (- p - snd a)), - p))"

text \<open>A quotient rounded at \<open>p\<close> places, the smaller of two numbers, and a name of the value.\<close>

definition ce_divround :: "cexp \<Rightarrow> cexp \<Rightarrow> int \<Rightarrow> cexp" where
  "ce_divround a b p = (half_up_rat (ce_val a / ce_val b * 10 powi p), - p)"

definition ce_string :: "cexp \<Rightarrow> string" where
  "ce_string a = (let q = quotient_of (ce_val a) in int_String (fst q) @ ''/'' @ int_String (snd q))"

definition ref_decimal :: "cexp decimal_ops" where
  "ref_decimal = \<lparr>
     dZero = (0, 1), dNewFromBigInt = Pair, dCoefficient = fst, dExponent = snd,
     dAdd = ce_align (+), dSub = ce_align (-),
     dMul = (\<lambda>a b. (fst a * fst b, snd a + snd b)),
     dNeg = (\<lambda>a. (- fst a, snd a)), dAbs = (\<lambda>a. (\<bar>fst a\<bar>, snd a)),
     dCmp = (\<lambda>a b. sgn (ce_diff a b)), dEqual = (\<lambda>a b. ce_diff a b = 0),
     dIsPositive = (\<lambda>a. 0 < fst a), dIsNegative = (\<lambda>a. fst a < 0), dIsZero = (\<lambda>a. fst a = 0),
     dLessThan = (\<lambda>a b. ce_diff a b < 0), dGreaterThan = (\<lambda>a b. 0 < ce_diff a b),
     dTruncate = ce_round trunc_rat, dRound = ce_round half_up_rat,
     dRoundBank = ce_round half_even_rat, dRoundDown = ce_round trunc_rat,
     dRoundUp = ce_round away_rat, dShift = (\<lambda>a p. (fst a, snd a + p)),
     dBigInt = (\<lambda>a. trunc_rat (ce_val a)), dRat = ce_val, dDivRound = ce_divround,
     dMin = (\<lambda>a b. if ce_diff b a < 0 then b else a), dString = ce_string \<rparr>"

lemma dval_ref: "dval ref_decimal = ce_val"
  by (rule ext) (simp add: dval_def ref_decimal_def ce_val_def)

lemma ten_powi_pos [simp]: "0 < (10 :: rat) powi e"
  by (simp add: zero_less_power_int)

lemma ten_powi_nonzero [simp]: "(10 :: rat) powi e \<noteq> 0"
  by simp

lemma ten_pow_split: "m \<le> e \<Longrightarrow> (10 :: rat) ^ nat (e - m) * 10 powi m = 10 powi e"
  by (simp add: power_int_nonneg_exp [symmetric] power_int_add [symmetric])

lemma ce_val_align:
  assumes "\<And>x y. (of_int (f x y) :: rat) = g (of_int x) (of_int y)"
    and "\<And>x y k. g (x :: rat) y * k = g (x * k) (y * k)"
  shows "ce_val (ce_align f a b) = g (ce_val a) (ce_val b)"
proof -
  let ?m = "min (snd a) (snd b)"
  have "ce_val (ce_align f a b) =
      g (of_int (fst a) * 10 ^ nat (snd a - ?m)) (of_int (fst b) * 10 ^ nat (snd b - ?m)) * 10 powi ?m"
    by (simp add: ce_val_def ce_align_def Let_def assms(1))
  also have "\<dots> = g (of_int (fst a) * (10 ^ nat (snd a - ?m) * 10 powi ?m))
                    (of_int (fst b) * (10 ^ nat (snd b - ?m) * 10 powi ?m))"
    by (simp add: assms(2) mult.assoc)
  finally show ?thesis by (simp add: ten_pow_split ce_val_def)
qed

lemma ce_val_add [simp]: "ce_val (ce_align (+) a b) = ce_val a + ce_val b"
  by (rule ce_val_align) (simp_all add: distrib_right)

lemma ce_val_sub [simp]: "ce_val (ce_align (-) a b) = ce_val a - ce_val b"
  by (rule ce_val_align) (simp_all add: left_diff_distrib)

lemma ce_val_sign:
  "0 < ce_val a \<longleftrightarrow> 0 < fst a" "ce_val a < 0 \<longleftrightarrow> fst a < 0" "ce_val a = 0 \<longleftrightarrow> fst a = 0"
  using ten_powi_pos [of "snd a"]
  by (simp_all add: ce_val_def zero_less_mult_iff mult_less_0_iff less_not_sym)

lemma ce_diff_sign:
  "0 < ce_diff a b \<longleftrightarrow> ce_val b < ce_val a" "ce_diff a b < 0 \<longleftrightarrow> ce_val a < ce_val b"
  "ce_diff a b = 0 \<longleftrightarrow> ce_val a = ce_val b"
  using ce_val_sign [of "ce_align (-) a b"] by (simp_all add: ce_diff_def)

lemma ce_val_round:
  assumes "\<And>i. f (of_int i) = i"
  shows "ce_val (ce_round f a p) = rescaled f (ce_val a) p"
proof (cases "- p \<le> snd a")
  case True
  then have "(10 :: rat) powi snd a * 10 powi p = of_int (10 ^ nat (snd a + p))"
    by (simp add: power_int_add [symmetric] power_int_nonneg_exp)
  then have "ce_val a * 10 powi p = of_int (fst a * 10 ^ nat (snd a + p))"
    by (simp add: ce_val_def)
  then have "rescaled f (ce_val a) p = of_int (fst a * 10 ^ nat (snd a + p)) * 10 powi (- p)"
    by (simp only: rescaled_def assms)
  also have "\<dots> = ce_val a * 10 powi p * 10 powi (- p)"
    using \<open>ce_val a * 10 powi p = _\<close> by simp
  also have "\<dots> = ce_val a"
    by (simp add: mult.assoc power_int_add [symmetric])
  finally show ?thesis using True by (simp add: ce_round_def)
next
  case False
  then have "(10 :: rat) powi (snd a + p) = 1 / 10 ^ nat (- p - snd a)"
    by (simp add: power_int_def inverse_eq_divide power_one_over algebra_simps)
  then have "(10 :: rat) powi snd a * 10 powi p = 1 / 10 ^ nat (- p - snd a)"
    by (simp add: power_int_add)
  then have "ce_val a * 10 powi p = of_int (fst a) / 10 ^ nat (- p - snd a)"
    by (simp add: ce_val_def mult.assoc)
  then show ?thesis using False by (simp add: ce_round_def rescaled_def ce_val_def)
qed

lemma append_sep_eq:
  assumes "x \<notin> set xs" "x \<notin> set us"
  shows "xs @ x # ys = us @ x # vs \<longleftrightarrow> xs = us \<and> ys = vs"
  using assms
proof (induction xs arbitrary: us)
  case Nil
  then show ?case by (cases us) auto
next
  case (Cons a xs)
  then show ?case by (cases us) auto
qed

lemma ce_string_eq: "ce_string a = ce_string b \<longleftrightarrow> ce_val a = ce_val b"
proof -
  have sep: "CHR ''/'' \<notin> set (int_String i)" for i
    using int_String_chars [of "CHR ''/''" i] by auto
  have "quotient_of (ce_val a) = quotient_of (ce_val b) \<longleftrightarrow> ce_val a = ce_val b"
    by (metis quotient_of_div prod.exhaust_sel)
  then show ?thesis
    by (auto simp: ce_string_def Let_def append_sep_eq [OF sep sep] prod_eq_iff
        dest!: int_String_inj)
qed

lemma ce_val_divround: "ce_val (ce_divround a b p) = rescaled half_up_rat (ce_val a / ce_val b) p"
  by (simp add: ce_divround_def ce_val_def rescaled_def)

interpretation ref: decimal_lib ref_decimal
proof unfold_locales
  show "dval ref_decimal (dZero ref_decimal) = 0"
    by (simp add: dval_def ref_decimal_def)
  show "dExponent ref_decimal (dAdd ref_decimal a b) = min (dExponent ref_decimal a) (dExponent ref_decimal b)"
    for a b
    by (simp add: ref_decimal_def ce_align_def Let_def)
qed (simp_all add: dval_ref, simp_all add: ref_decimal_def ce_val_round ce_val_sign
       ce_diff_sign sgn_if ce_val_divround ce_string_eq min_def, simp_all add: ce_val_def power_int_add abs_mult)

end
