(* ===== verification/Amount_Limits.thy ===== *)
theory Amount_Limits
  imports Decimal
begin

text \<open>
  The bounds every write passes through: \<^verbatim>\<open>core/limits.go\<close> (free-form fields and amount
  magnitude) and \<^verbatim>\<open>core/currency_code.go\<close> (currency codes and quote versions).
\<close>

section \<open>Free-form fields\<close>

definition MaxSourceLen :: int where "MaxSourceLen = 256"
definition MaxMetadataKeys :: int where "MaxMetadataKeys = 64"
definition MaxMetadataKeyLen :: int where "MaxMetadataKeyLen = 128"
definition MaxMetadataValueLen :: int where "MaxMetadataValueLen = 2048"
definition MaxMetadataTotalLen :: int where "MaxMetadataTotalLen = 16384"

fun metadataTotal :: "int \<Rightarrow> metadata \<Rightarrow> int result" where
  "metadataTotal acc [] = Inr acc"
| "metadataTotal acc ((k, v) # kvs) =
     (if int (length k) > MaxMetadataKeyLen then invalid
      else if int (length v) > MaxMetadataValueLen then invalid
      else metadataTotal (acc + int (length k) + int (length v)) kvs)"

definition validateFreeformFields :: "string \<Rightarrow> metadata \<Rightarrow> unit result" where
  "validateFreeformFields source metadata =
     (if int (length source) > MaxSourceLen then invalid
      else if int (length metadata) > MaxMetadataKeys then invalid
      else bindR (metadataTotal 0 metadata) (\<lambda>ttl.
        if ttl > MaxMetadataTotalLen then invalid else Inr ()))"

lemmas freeform_limits = MaxSourceLen_def MaxMetadataKeys_def MaxMetadataKeyLen_def
  MaxMetadataValueLen_def MaxMetadataTotalLen_def

definition kv_size :: "string \<times> string \<Rightarrow> int" where
  "kv_size kv = int (length (fst kv)) + int (length (snd kv))"

lemma metadataTotal_Inr:
  "(metadataTotal n md = Inr t) \<longleftrightarrow>
     (\<forall>(k, v)\<in>set md. int (length k) \<le> MaxMetadataKeyLen \<and> int (length v) \<le> MaxMetadataValueLen)
     \<and> t = n + sum_list (map kv_size md)"
  by (induction n md rule: metadataTotal.induct) (auto simp: kv_size_def)

lemma validateFreeformFields_iff:
  "validateFreeformFields source md = Inr () \<longleftrightarrow>
     int (length source) \<le> MaxSourceLen \<and> int (length md) \<le> MaxMetadataKeys
     \<and> (\<forall>(k, v)\<in>set md. int (length k) \<le> MaxMetadataKeyLen \<and> int (length v) \<le> MaxMetadataValueLen)
     \<and> sum_list (map kv_size md) \<le> MaxMetadataTotalLen"
  by (auto simp: validateFreeformFields_def metadataTotal_Inr)

section \<open>Amount magnitude\<close>

definition MaxAmountIntegerDigits :: int where "MaxAmountIntegerDigits = 30 - 18"
definition MaxAmountFractionalDigits :: int where "MaxAmountFractionalDigits = 18"
definition MaxAmountWorkingFractionalDigits :: int where
  "MaxAmountWorkingFractionalDigits = 2 * MaxAmountFractionalDigits"

lemmas amount_limits = MaxAmountIntegerDigits_def MaxAmountFractionalDigits_def
  MaxAmountWorkingFractionalDigits_def

text \<open>\<^verbatim>\<open>strings.TrimPrefix\<close> of the standard library.\<close>

definition TrimPrefix :: "string \<Rightarrow> string \<Rightarrow> string" where
  "TrimPrefix s p = (if take (length p) s = p then drop (length p) s else s)"

definition coefficientDigits :: "int \<Rightarrow> int" where
  "coefficientDigits c = int (length (TrimPrefix (int_String c) ''-''))"

definition validateAmountIsRescalable :: "'d decimal_ops \<Rightarrow> 'd \<Rightarrow> unit result" where
  "validateAmountIsRescalable D amount =
     (let exponent = dExponent D amount
      in if 0 < exponent \<and> MaxAmountIntegerDigits < exponent then invalid
         else if exponent < - MaxAmountWorkingFractionalDigits then invalid
         else if MaxAmountIntegerDigits < coefficientDigits (dCoefficient D amount) + exponent
           then invalid
         else Inr ())"

definition ValidateAmountMagnitude :: "'d decimal_ops \<Rightarrow> 'd \<Rightarrow> unit result" where
  "ValidateAmountMagnitude D amount =
     (let exponent = dExponent D amount
      in if 0 < exponent \<and> MaxAmountIntegerDigits < exponent then invalid
         else if exponent < - MaxAmountFractionalDigits then invalid
         else if MaxAmountIntegerDigits < coefficientDigits (dCoefficient D amount) + exponent
           then invalid
         else Inr ())"

lemma TrimPrefix_int_String: "TrimPrefix (int_String c) ''-'' = nat_String \<bar>c\<bar>"
proof (cases "c < 0")
  case True
  then show ?thesis by (simp add: TrimPrefix_def int_String_def)
next
  case False
  then have "take 1 (nat_String c) \<noteq> ''-''"
    using nat_String_hd [of c] by (cases "nat_String c") auto
  with False show ?thesis by (simp add: TrimPrefix_def int_String_def)
qed

lemma length_nat_String: "0 \<le> n \<Longrightarrow> length (nat_String n) \<le> k \<longleftrightarrow> 0 < k \<and> n < 10 ^ k"
proof (induction n arbitrary: k rule: nat_String.induct)
  case (1 n)
  show ?case
  proof (cases "n < 10")
    case True
    have "n < 10 ^ k" if "0 < k"
      using True that self_le_power [of "10 :: int" k] by simp
    with True show ?thesis by (auto simp: nat_String.simps [of n])
  next
    case False
    show ?thesis
    proof (cases k)
      case 0
      with False show ?thesis by (simp add: nat_String.simps [of n])
    next
      case (Suc j)
      have "n div 10 < 10 ^ j \<longleftrightarrow> n < 10 ^ Suc j"
        by simp linarith
      moreover have "0 < j" if "n < 10 ^ Suc j" using that False by (cases j) auto
      ultimately show ?thesis
        using False Suc 1 by (auto simp: nat_String.simps [of n])
    qed
  qed
qed

lemma coefficientDigits_pos: "1 \<le> coefficientDigits c"
  using length_nat_String_ge1 [of "\<bar>c\<bar>"]
  by (simp add: coefficientDigits_def TrimPrefix_int_String)

lemma coefficientDigits_le:
  "coefficientDigits c \<le> int k \<longleftrightarrow> 0 < k \<and> \<bar>c\<bar> < 10 ^ k"
  by (simp add: coefficientDigits_def TrimPrefix_int_String length_nat_String)

text \<open>
  The digit count plus the exponent is at most \<open>m\<close> exactly when the number is below
  ten to the \<open>m\<close>, unless the number is zero.
\<close>

lemma digits_bound:
  assumes "coefficientDigits c + e \<le> m"
  shows "\<bar>(of_int c :: rat) * 10 powi e\<bar> < 10 powi m"
proof -
  have "1 \<le> m - e" using assms coefficientDigits_pos [of c] by linarith
  then have "coefficientDigits c \<le> int (nat (m - e))" using assms by simp
  then have "\<bar>c\<bar> < 10 ^ nat (m - e)" by (simp only: coefficientDigits_le)
  then have "\<bar>of_int c :: rat\<bar> < 10 ^ nat (m - e)"
    by (metis of_int_abs of_int_less_iff of_int_numeral of_int_power)
  then have "\<bar>of_int c :: rat\<bar> * 10 powi e < 10 ^ nat (m - e) * 10 powi e" by simp
  also have "\<dots> = 10 powi m" using \<open>1 \<le> m - e\<close> by (simp add: ten_pow_split)
  finally show ?thesis by (simp add: abs_mult)
qed

lemma digits_bound_conv:
  assumes "c \<noteq> 0" and "\<bar>(of_int c :: rat) * 10 powi e\<bar> < 10 powi m"
  shows "coefficientDigits c + e \<le> m"
proof -
  have "1 \<le> \<bar>of_int c :: rat\<bar>" using assms(1) by (simp flip: of_int_abs)
  then have "(10 :: rat) powi e \<le> \<bar>of_int c\<bar> * 10 powi e" by simp
  also have "\<dots> < 10 powi m" using assms(2) by (simp add: abs_mult)
  finally have lt: "e < m" by (metis linorder_not_less power_int_increasing one_le_numeral)
  then have "(10 :: rat) powi m = 10 ^ nat (m - e) * 10 powi e" by (simp add: ten_pow_split)
  then have "\<bar>of_int c :: rat\<bar> * 10 powi e < 10 ^ nat (m - e) * 10 powi e"
    using assms(2) by (simp add: abs_mult)
  then have "\<bar>of_int c :: rat\<bar> < 10 ^ nat (m - e)" by simp
  then have "\<bar>c\<bar> < 10 ^ nat (m - e)"
    by (metis of_int_abs of_int_less_iff of_int_numeral of_int_power)
  then have "coefficientDigits c \<le> int (nat (m - e))"
    using lt by (simp only: coefficientDigits_le) simp
  then show ?thesis using lt by simp
qed

lemma scaled_int:
  assumes "- k \<le> e"
  shows "\<exists>i. (of_int c :: rat) * 10 powi e * 10 powi k = of_int i"
proof -
  have "(10 :: rat) powi e * 10 powi k = 10 ^ nat (e + k)"
    using assms by (simp add: power_int_add [symmetric] power_int_nonneg_exp)
  then have "(of_int c :: rat) * 10 powi e * 10 powi k = of_int (c * 10 ^ nat (e + k))"
    by (simp add: mult.assoc)
  then show ?thesis ..
qed

text \<open>What \<^verbatim>\<open>NUMERIC(30,18)\<close> can hold: at most 12 integer and 18 fractional digits.\<close>

definition storable :: "rat \<Rightarrow> bool" where
  "storable v \<longleftrightarrow> \<bar>v\<bar> < 10 ^ 12 \<and> (\<exists>i. v * 10 ^ 18 = of_int i)"

lemma ValidateAmountMagnitude_exponent:
  "ValidateAmountMagnitude D d = Inr () \<Longrightarrow>
     - 18 \<le> dExponent D d \<and> coefficientDigits (dCoefficient D d) + dExponent D d \<le> 12"
  by (auto simp: ValidateAmountMagnitude_def amount_limits Let_def split: if_splits)

lemma validateAmountIsRescalable_exponent:
  "validateAmountIsRescalable D d = Inr () \<longleftrightarrow>
     - 36 \<le> dExponent D d \<and> coefficientDigits (dCoefficient D d) + dExponent D d \<le> 12"
  using coefficientDigits_pos [of "dCoefficient D d"]
  by (auto simp: validateAmountIsRescalable_def amount_limits Let_def)

lemma ValidateAmountMagnitude_storable:
  assumes "ValidateAmountMagnitude D d = Inr ()"
  shows "storable (dval D d)"
proof -
  have e: "- 18 \<le> dExponent D d" "coefficientDigits (dCoefficient D d) + dExponent D d \<le> 12"
    using ValidateAmountMagnitude_exponent [OF assms] by simp_all
  show ?thesis
    using digits_bound [OF e(2)] scaled_int [OF e(1), of "dCoefficient D d"]
    by (simp add: storable_def dval_def)
qed

lemma ValidateAmountMagnitude_iff:
  assumes "dval D d \<noteq> 0"
  shows "ValidateAmountMagnitude D d = Inr () \<longleftrightarrow>
    - 18 \<le> dExponent D d \<and> \<bar>dval D d\<bar> < 10 ^ 12"
proof -
  have c: "dCoefficient D d \<noteq> 0" using assms by (auto simp: dval_def)
  have "coefficientDigits (dCoefficient D d) + dExponent D d \<le> 12 \<longleftrightarrow> \<bar>dval D d\<bar> < 10 ^ 12"
    using digits_bound [of "dCoefficient D d" "dExponent D d" 12]
      digits_bound_conv [OF c, of "dExponent D d" 12]
    by (auto simp: dval_def)
  moreover have "dExponent D d < 12" if "coefficientDigits (dCoefficient D d) + dExponent D d \<le> 12"
    using that coefficientDigits_pos [of "dCoefficient D d"] by linarith
  ultimately show ?thesis
    by (auto simp: ValidateAmountMagnitude_def amount_limits Let_def)
qed

lemma ValidateAmountMagnitude_rescalable:
  "ValidateAmountMagnitude D d = Inr () \<Longrightarrow> validateAmountIsRescalable D d = Inr ()"
  by (drule ValidateAmountMagnitude_exponent) (simp add: validateAmountIsRescalable_exponent)

lemma validateAmountIsRescalable_bound:
  assumes "validateAmountIsRescalable D d = Inr ()"
  shows "\<bar>dval D d\<bar> < 10 ^ 12"
proof -
  have "coefficientDigits (dCoefficient D d) + dExponent D d \<le> 12"
    using assms by (simp add: validateAmountIsRescalable_exponent)
  from digits_bound [OF this] show ?thesis by (simp add: dval_def)
qed

section \<open>Currency codes and quote versions\<close>

definition maxCurrencyCodeLen :: int where "maxCurrencyCodeLen = 64"

definition currencyCodeChar :: "char \<Rightarrow> bool" where
  "currencyCodeChar c =
     (let b = (of_char c :: int)
      in (65 \<le> b \<and> b \<le> 90) \<or> (97 \<le> b \<and> b \<le> 122) \<or> (48 \<le> b \<and> b \<le> 57)
         \<or> c = CHR ''_'' \<or> c = CHR ''-'' \<or> c = CHR ''.'')"

definition validateCurrencyCode :: "string \<Rightarrow> unit result" where
  "validateCurrencyCode code =
     (if code = [] then invalid
      else if int (length code) > maxCurrencyCodeLen then invalid
      else forEach (\<lambda>c. if currencyCodeChar c then Inr () else invalid) code)"

text \<open>
  \<^verbatim>\<open>unicode/utf8\<close> decoding: a rune with its width, or nothing for a byte that starts no
  well-formed sequence (width one, the replacement rune).
\<close>

definition cont :: "int \<Rightarrow> bool" where "cont b \<longleftrightarrow> 128 \<le> b \<and> b \<le> 191"

fun decodeRune :: "int list \<Rightarrow> (int \<times> nat) option" where
  "decodeRune [] = None"
| "decodeRune (b0 # bs) =
     (if b0 < 128 then Some (b0, 1)
      else if 194 \<le> b0 \<and> b0 \<le> 223 then
        (case bs of b1 # _ \<Rightarrow>
           if cont b1 then Some ((b0 - 192) * 64 + (b1 - 128), 2) else None
         | [] \<Rightarrow> None)
      else if 224 \<le> b0 \<and> b0 \<le> 239 then
        (case bs of b1 # b2 # _ \<Rightarrow>
           if cont b1 \<and> cont b2 \<and> (b0 = 224 \<longrightarrow> 160 \<le> b1) \<and> (b0 = 237 \<longrightarrow> b1 \<le> 159)
           then Some ((b0 - 224) * 4096 + (b1 - 128) * 64 + (b2 - 128), 3) else None
         | _ \<Rightarrow> None)
      else if 240 \<le> b0 \<and> b0 \<le> 244 then
        (case bs of b1 # b2 # b3 # _ \<Rightarrow>
           if cont b1 \<and> cont b2 \<and> cont b3 \<and> (b0 = 240 \<longrightarrow> 144 \<le> b1) \<and> (b0 = 244 \<longrightarrow> b1 \<le> 143)
           then Some ((b0 - 240) * 262144 + (b1 - 128) * 4096 + (b2 - 128) * 64 + (b3 - 128), 4)
           else None
         | _ \<Rightarrow> None)
      else None)"

function runes :: "int list \<Rightarrow> int option list" where
  "runes [] = []"
| "runes (b # bs) =
     (case decodeRune (b # bs) of
        None \<Rightarrow> None # runes bs
      | Some (r, w) \<Rightarrow> Some r # runes (drop (w - 1) bs))"
  by pat_completeness auto
termination
  by (relation "measure length") auto

definition string_runes :: "string \<Rightarrow> int option list" where
  "string_runes s = runes (map of_char s)"

definition ValidString :: "string \<Rightarrow> bool" where
  "ValidString s = list_all (\<lambda>r. r \<noteq> None) (string_runes s)"

definition IsSpaceRune :: "int \<Rightarrow> bool" where
  "IsSpaceRune r \<longleftrightarrow> (9 \<le> r \<and> r \<le> 13) \<or> r = 32 \<or> r = 133 \<or> r = 160 \<or> r = 5760
     \<or> (8192 \<le> r \<and> r \<le> 8202) \<or> r = 8232 \<or> r = 8233 \<or> r = 8239 \<or> r = 8287 \<or> r = 12288"

definition IsControlRune :: "int \<Rightarrow> bool" where
  "IsControlRune r \<longleftrightarrow> (0 \<le> r \<and> r \<le> 31) \<or> (127 \<le> r \<and> r \<le> 159)"

text \<open>\<^verbatim>\<open>strings.TrimSpace(s) == ""\<close>: every rune is white space.\<close>

definition isBlank :: "string \<Rightarrow> bool" where
  "isBlank s = list_all (\<lambda>r. case r of None \<Rightarrow> False | Some c \<Rightarrow> IsSpaceRune c) (string_runes s)"

definition validateQuoteVersion :: "string \<Rightarrow> unit result" where
  "validateQuoteVersion version =
     (if isBlank version then invalid
      else if \<not> ValidString version then invalid
      else if list_ex (\<lambda>r. case r of None \<Rightarrow> False | Some c \<Rightarrow> IsControlRune c)
                (string_runes version) then invalid
      else Inr ())"

lemma validateCurrencyCode_iff:
  "validateCurrencyCode code = Inr () \<longleftrightarrow>
     code \<noteq> [] \<and> length code \<le> 64 \<and> list_all currencyCodeChar code"
  by (auto simp: validateCurrencyCode_def maxCurrencyCodeLen_def list_all_iff split: if_splits)

lemma currencyCodeChar_ascii: "currencyCodeChar c \<Longrightarrow> (of_char c :: int) < 128"
  by (auto simp: currencyCodeChar_def Let_def)

lemma runes_ascii: "\<forall>b\<in>set bs. b < 128 \<Longrightarrow> runes bs = map Some bs"
  by (induction bs) auto

text \<open>A validated currency code is plain ASCII: its runes are its bytes, none a control character.\<close>

lemma validateCurrencyCode_runes:
  assumes "validateCurrencyCode code = Inr ()"
  shows "string_runes code = map (Some \<circ> of_char) code"
    and "\<forall>c\<in>set code. \<not> IsControlRune (of_char c) \<and> \<not> IsSpaceRune (of_char c)"
proof -
  have chars: "\<forall>c\<in>set code. currencyCodeChar c"
    using assms by (simp add: validateCurrencyCode_iff list_all_iff)
  then have "\<forall>b\<in>set (map of_char code). (b :: int) < 128"
    by (auto dest: currencyCodeChar_ascii)
  then show "string_runes code = map (Some \<circ> of_char) code"
    by (simp add: string_runes_def runes_ascii)
  show "\<forall>c\<in>set code. \<not> IsControlRune (of_char c) \<and> \<not> IsSpaceRune (of_char c)"
    using chars by (auto simp: currencyCodeChar_def IsControlRune_def IsSpaceRune_def Let_def)
qed

end
