(* ===== verification/Lifecycle.thy ===== *)
theory Lifecycle
  imports Ledger_Prelude
begin

text \<open>
  The per-classification state machine of \<^verbatim>\<open>core/types.go\<close>: its data, its validation with the
  breadth-first reachability walk, and its two queries. The walk is proved to terminate and to visit
  exactly the statuses reachable from the initial one, and validation to accept exactly the
  well-formed machines.
\<close>

section \<open>The state machine\<close>

type_synonym Status = string

record Lifecycle =
  lc_Version :: int
  lc_Initial :: Status
  lc_Terminal :: "Status list"
  lc_Transitions :: "(Status \<times> Status list) list"

text \<open>Reading a Go map at a missing key gives the empty slice.\<close>

definition outgoing :: "Lifecycle \<Rightarrow> Status \<Rightarrow> Status list" where
  "outgoing l s = (case map_of (lc_Transitions l) s of None \<Rightarrow> [] | Some ts \<Rightarrow> ts)"

definition CanTransition :: "Lifecycle \<Rightarrow> Status \<Rightarrow> Status \<Rightarrow> bool" where
  "CanTransition l src to = list_ex (\<lambda>allowed. allowed = to) (outgoing l src)"

definition IsTerminal :: "Lifecycle \<Rightarrow> Status \<Rightarrow> bool" where
  "IsTerminal l s = list_ex (\<lambda>t. t = s) (lc_Terminal l)"

section \<open>The reachability walk\<close>

text \<open>The inner loop: append every target not visited yet to the queue.\<close>

fun bfsVisit :: "Status list \<Rightarrow> Status list \<Rightarrow> Status list \<Rightarrow> Status list \<times> Status list" where
  "bfsVisit visited queue [] = (visited, queue)"
| "bfsVisit visited queue (to # ts) =
     (if List.member visited to then bfsVisit visited queue ts
      else bfsVisit (to # visited) (queue @ [to]) ts)"

definition allTargets :: "Lifecycle \<Rightarrow> Status list" where
  "allTargets l = concat (map snd (lc_Transitions l))"

definition unvisited :: "Lifecycle \<Rightarrow> Status list \<Rightarrow> nat" where
  "unvisited l visited = card (set (allTargets l) - set visited)"

lemma set_outgoing_targets: "set (outgoing l s) \<subseteq> set (allTargets l)"
proof (cases "map_of (lc_Transitions l) s")
  case None
  then show ?thesis by (simp add: outgoing_def)
next
  case (Some ts)
  then have "(s, ts) \<in> set (lc_Transitions l)" by (rule map_of_SomeD)
  with Some show ?thesis by (auto simp: outgoing_def allTargets_def intro!: bexI [of _ "(s, ts)"])
qed

lemma unvisited_Cons:
  assumes "to \<in> set (allTargets l)" "to \<notin> set visited"
  shows "Suc (unvisited l (to # visited)) = unvisited l visited"
proof -
  have eq: "set (allTargets l) - set (to # visited) = set (allTargets l) - set visited - {to}"
    by auto
  show ?thesis
    unfolding unvisited_def eq by (rule card_Suc_Diff1) (use assms in simp_all)
qed

lemma bfsVisit_measure:
  "set ts \<subseteq> set (allTargets l) \<Longrightarrow> bfsVisit visited queue ts = (v', q') \<Longrightarrow>
     2 * unvisited l v' + length q' \<le> 2 * unvisited l visited + length queue"
proof (induction visited queue ts rule: bfsVisit.induct)
  case (1 visited queue)
  then show ?case by simp
next
  case (2 visited queue to ts)
  show ?case
  proof (cases "List.member visited to")
    case True
    with 2 show ?thesis by simp
  next
    case False
    then have "Suc (unvisited l (to # visited)) = unvisited l visited"
      using "2.prems"(1) by (intro unvisited_Cons) auto
    moreover have "2 * unvisited l v' + length q' \<le> 2 * unvisited l (to # visited) + length (queue @ [to])"
      using 2 False by simp
    ultimately show ?thesis by simp
  qed
qed

function bfs :: "Lifecycle \<Rightarrow> Status list \<Rightarrow> Status list \<Rightarrow> Status list" where
  "bfs l visited [] = visited"
| "bfs l visited (src # queue) =
     bfs l (fst (bfsVisit visited queue (outgoing l src)))
           (snd (bfsVisit visited queue (outgoing l src)))"
  by pat_completeness auto
termination
proof (relation "measure (\<lambda>(l, visited, queue). 2 * unvisited l visited + length queue)", goal_cases)
  case 1
  show ?case by simp
next
  case (2 l visited src queue)
  have "2 * unvisited l (fst (bfsVisit visited queue (outgoing l src)))
      + length (snd (bfsVisit visited queue (outgoing l src)))
      \<le> 2 * unvisited l visited + length queue"
    by (rule bfsVisit_measure [OF set_outgoing_targets]) simp
  then show ?case by (simp add: case_prod_beta)
qed

declare bfs.simps(2) [simp del]

definition definedStatuses :: "Lifecycle \<Rightarrow> Status list" where
  "definedStatuses l = map fst (lc_Transitions l) @ lc_Terminal l"

definition Lifecycle_Validate :: "Lifecycle \<Rightarrow> unit result" where
  "Lifecycle_Validate l =
     (if lc_Version l < 0 \<or> lc_Version l > 1 then invalid
      else if lc_Initial l = [] then invalid
      else if outgoing l (lc_Initial l) = [] then invalid
      else andThen (forEach (\<lambda>s. if outgoing l s \<noteq> [] then invalid else Inr ()) (lc_Terminal l))
      (andThen (forEach (\<lambda>(src, targets).
          forEach (\<lambda>to. if List.member (definedStatuses l) to then Inr () else invalid) targets)
          (lc_Transitions l))
      (let visited = bfs l [lc_Initial l] [lc_Initial l];
           unreachable = filter (\<lambda>s. \<not> List.member visited s) (definedStatuses l)
       in if unreachable \<noteq> [] then invalid else Inr ())))"

section \<open>Correctness of the walk\<close>

text \<open>One allowed transition as a step relation; reachability is its closure.\<close>

inductive lc_step :: "Lifecycle \<Rightarrow> Status \<Rightarrow> Status \<Rightarrow> bool" for l where
  allowed: "to \<in> set (outgoing l src) \<Longrightarrow> lc_step l src to"

inductive_simps lc_step_iff: "lc_step l src to"

inductive lc_reach :: "Lifecycle \<Rightarrow> Status \<Rightarrow> bool" for l where
  initial: "lc_reach l (lc_Initial l)"
| step: "lc_reach l s \<Longrightarrow> lc_step l s t \<Longrightarrow> lc_reach l t"

lemma CanTransition_iff: "CanTransition l src to \<longleftrightarrow> lc_step l src to"
  by (auto simp: CanTransition_def lc_step_iff list_ex_iff)

lemma IsTerminal_iff: "IsTerminal l s \<longleftrightarrow> s \<in> set (lc_Terminal l)"
  by (auto simp: IsTerminal_def list_ex_iff)

lemma bfsVisit_sets:
  "bfsVisit visited queue ts = (v', q') \<Longrightarrow>
     set v' = set visited \<union> set ts \<and> set queue \<subseteq> set q' \<and> set q' \<subseteq> set queue \<union> set ts
     \<and> set v' - set visited \<subseteq> set q'"
  by (induction visited queue ts rule: bfsVisit.induct) (auto split: if_splits)

text \<open>What the outer loop keeps: the queue is visited, all visited statuses are reachable, and
  everything visited and no longer queued has all its successors visited.\<close>

definition bfs_inv :: "Lifecycle \<Rightarrow> Status list \<Rightarrow> Status list \<Rightarrow> bool" where
  "bfs_inv l visited queue \<longleftrightarrow>
     lc_Initial l \<in> set visited \<and> set queue \<subseteq> set visited
     \<and> (\<forall>s\<in>set visited. lc_reach l s)
     \<and> (\<forall>s\<in>set visited - set queue. set (outgoing l s) \<subseteq> set visited)"

lemma bfs_inv_step:
  assumes "bfs_inv l visited (src # queue)"
    and "bfsVisit visited queue (outgoing l src) = (v', q')"
  shows "bfs_inv l v' q'"
proof -
  note s = bfsVisit_sets [OF assms(2)]
  have reach: "lc_reach l t" if "t \<in> set (outgoing l src)" for t
    using that assms(1) by (auto simp: bfs_inv_def intro: lc_reach.step lc_step.intros)
  have "set (outgoing l r) \<subseteq> set v'" if "r \<in> set v' - set q'" for r
  proof -
    have "r \<in> set visited" "r \<notin> set queue" using that s by auto
    then show ?thesis using assms(1) s by (cases "r = src") (auto simp: bfs_inv_def)
  qed
  then show ?thesis
    using assms(1) s reach by (auto simp: bfs_inv_def)
qed

lemma bfs_inv_final: "bfs_inv l visited queue \<Longrightarrow> bfs_inv l (bfs l visited queue) []"
proof (induction l visited queue rule: bfs.induct)
  case (1 l visited)
  then show ?case by simp
next
  case (2 l visited src queue)
  have "bfs_inv l (fst (bfsVisit visited queue (outgoing l src)))
      (snd (bfsVisit visited queue (outgoing l src)))"
    by (rule bfs_inv_step [OF "2.prems"]) simp
  then show ?case using "2.IH" by (simp add: bfs.simps(2))
qed

lemma bfs_reach: "set (bfs l [lc_Initial l] [lc_Initial l]) = {s. lc_reach l s}"
proof -
  have "bfs_inv l [lc_Initial l] [lc_Initial l]"
    by (simp add: bfs_inv_def lc_reach.initial)
  then have inv: "bfs_inv l (bfs l [lc_Initial l] [lc_Initial l]) []" by (rule bfs_inv_final)
  have "s \<in> set (bfs l [lc_Initial l] [lc_Initial l])" if "lc_reach l s" for s
    using that
  proof (induction rule: lc_reach.induct)
    case initial
    then show ?case using inv by (simp add: bfs_inv_def)
  next
    case (step s t)
    then show ?case using inv by (auto simp: bfs_inv_def lc_step_iff)
  qed
  then show ?thesis using inv by (auto simp: bfs_inv_def)
qed

lemma Lifecycle_Validate_unfold:
  "Lifecycle_Validate l = Inr () \<longleftrightarrow>
     (lc_Version l = 0 \<or> lc_Version l = 1) \<and> lc_Initial l \<noteq> []
     \<and> outgoing l (lc_Initial l) \<noteq> []
     \<and> (\<forall>s\<in>set (lc_Terminal l). outgoing l s = [])
     \<and> (\<forall>(src, targets)\<in>set (lc_Transitions l). set targets \<subseteq> set (definedStatuses l))
     \<and> (\<forall>s\<in>set (definedStatuses l). lc_reach l s)"
proof -
  have unreachable: "filter (\<lambda>s. \<not> List.member (bfs l [lc_Initial l] [lc_Initial l]) s) (definedStatuses l) = []
      \<longleftrightarrow> (\<forall>s\<in>set (definedStatuses l). lc_reach l s)"
    by (simp add: filter_empty_conv bfs_reach)
  have targets: "(\<forall>x\<in>set (lc_Transitions l). (case x of (src, targets) \<Rightarrow>
        forEach (\<lambda>to. if List.member (definedStatuses l) to then Inr () else invalid) targets) = Inr ())
      \<longleftrightarrow> (\<forall>(src, targets)\<in>set (lc_Transitions l). set targets \<subseteq> set (definedStatuses l))"
    by (intro ball_cong refl) (simp add: case_prod_beta subset_iff Ball_def)
  have version: "\<not> (lc_Version l < 0 \<or> lc_Version l > 1) \<longleftrightarrow> lc_Version l = 0 \<or> lc_Version l = 1"
    by linarith
  show ?thesis
    unfolding Lifecycle_Validate_def Let_def guard_Inr andThen_Inr forEach_Inr targets
      not_not unreachable version
    by simp
qed

section \<open>Properties\<close>

text \<open>C22. Validation accepts exactly the well-formed machines: a known version, a named initial
  status with a way out, no way out of a terminal status, every transition target declared, and every
  declared status reachable from the initial one by allowed transitions.\<close>

theorem Lifecycle_Validate_iff:
  "Lifecycle_Validate l = Inr () \<longleftrightarrow>
     (lc_Version l = 0 \<or> lc_Version l = 1) \<and> lc_Initial l \<noteq> []
     \<and> outgoing l (lc_Initial l) \<noteq> []
     \<and> (\<forall>s\<in>set (lc_Terminal l). outgoing l s = [])
     \<and> (\<forall>(src, targets)\<in>set (lc_Transitions l). set targets \<subseteq> set (definedStatuses l))
     \<and> (\<forall>s\<in>set (definedStatuses l). lc_reach l s)"
  by (rule Lifecycle_Validate_unfold)

text \<open>A three-state deposit machine is accepted; the island status of the second is not.\<close>

theorem Lifecycle_Validate_iff_witness:
  "lc_reach \<lparr>lc_Version = 1, lc_Initial = ''pending'', lc_Terminal = [''done''],
        lc_Transitions = [(''pending'', [''done''])]\<rparr> ''done''
   \<and> Lifecycle_Validate \<lparr>lc_Version = 1, lc_Initial = ''pending'', lc_Terminal = [''done'', ''lost''],
        lc_Transitions = [(''pending'', [''done''])]\<rparr> \<noteq> Inr ()"
proof -
  let ?l = "\<lparr>lc_Version = 1, lc_Initial = ''pending'', lc_Terminal = [''done''],
        lc_Transitions = [(''pending'', [''done''])]\<rparr>"
  have ok: "Lifecycle_Validate ?l = Inr ()"
    by code_simp
  have mem: "''done'' \<in> set (definedStatuses ?l)"
    by code_simp
  have bad: "Lifecycle_Validate \<lparr>lc_Version = 1, lc_Initial = ''pending'',
        lc_Terminal = [''done'', ''lost''], lc_Transitions = [(''pending'', [''done''])]\<rparr> \<noteq> Inr ()"
    by code_simp
  show ?thesis using ok [unfolded Lifecycle_Validate_iff] mem bad by blast
qed

text \<open>C23. In a validated machine a run never leaves the declared statuses, never leaves a terminal
  status once there, and every transition \<open>CanTransition\<close> allows leads to a declared, reachable status.\<close>

theorem Lifecycle_runs:
  assumes "Lifecycle_Validate l = Inr ()" and "lc_reach l s"
  shows "s \<in> set (definedStatuses l)
    \<and> (IsTerminal l s \<longrightarrow> (\<forall>t. \<not> CanTransition l s t))
    \<and> (\<forall>t. CanTransition l s t \<longrightarrow> lc_reach l t \<and> t \<in> set (definedStatuses l))"
proof -
  note v = assms(1) [unfolded Lifecycle_Validate_unfold]
  have closed: "t \<in> set (definedStatuses l)" if "lc_step l r t" for r t
  proof -
    from that obtain ts where ts: "map_of (lc_Transitions l) r = Some ts" "t \<in> set ts"
      by (cases "map_of (lc_Transitions l) r") (simp_all add: lc_step_iff outgoing_def)
    from map_of_SomeD [OF ts(1)] v have "set ts \<subseteq> set (definedStatuses l)" by fast
    with ts(2) show ?thesis by auto
  qed
  have "s \<in> set (definedStatuses l)"
    using assms(2)
  proof (cases rule: lc_reach.cases)
    case initial
    then have "outgoing l s \<noteq> []" using v by simp
    then have "map_of (lc_Transitions l) s \<noteq> None" unfolding outgoing_def by (metis option.simps(4))
    then show ?thesis by (simp add: definedStatuses_def map_of_eq_None_iff)
  next
    case (step r)
    then show ?thesis using closed by blast
  qed
  moreover have "\<not> CanTransition l s t" if "IsTerminal l s" for t
    using that v by (auto simp: CanTransition_def IsTerminal_iff)
  ultimately show ?thesis
    using closed lc_reach.step [OF assms(2)] by (auto simp: CanTransition_iff)
qed

theorem Lifecycle_runs_witness:
  "''done'' \<in> set (definedStatuses \<lparr>lc_Version = 0, lc_Initial = ''pending'', lc_Terminal = [''done''],
      lc_Transitions = [(''pending'', [''done''])]\<rparr>)"
proof -
  let ?l = "\<lparr>lc_Version = 0, lc_Initial = ''pending'', lc_Terminal = [''done''],
      lc_Transitions = [(''pending'', [''done''])]\<rparr>"
  have ok: "Lifecycle_Validate ?l = Inr ()" by code_simp
  have "lc_reach ?l (lc_Initial ?l)" by (rule lc_reach.initial)
  moreover have "lc_step ?l (lc_Initial ?l) ''done''" by (simp add: lc_step_iff outgoing_def)
  ultimately have "lc_reach ?l ''done''" by (rule lc_reach.step)
  then show ?thesis using Lifecycle_runs [OF ok] by blast
qed

end
