(* ===== verification/Core_Types.thy ===== *)
theory Core_Types
  imports Amount_Limits Lifecycle
begin

text \<open>
  The value types of \<^verbatim>\<open>core/types.go\<close> and \<^verbatim>\<open>core/system_account.go\<close>, and the sign rule of
  \<^verbatim>\<open>core/account_policy.go\<close> that every balance computation goes through. Go string enums are
  strings, because any string can arrive in one; their \<open>IsValid\<close> methods are predicates.
  Account holders are Go \<open>int64\<close> values, negation included.
\<close>

section \<open>Enumerations\<close>

type_synonym EntryType = string
type_synonym NormalSide = string
type_synonym BalanceRole = string
type_synonym HolderTxKind = string

definition EntryTypeDebit :: EntryType where "EntryTypeDebit = ''debit''"
definition EntryTypeCredit :: EntryType where "EntryTypeCredit = ''credit''"
definition NormalSideDebit :: NormalSide where "NormalSideDebit = ''debit''"
definition NormalSideCredit :: NormalSide where "NormalSideCredit = ''credit''"

lemmas side_names = EntryTypeDebit_def EntryTypeCredit_def NormalSideDebit_def NormalSideCredit_def

definition EntryType_IsValid :: "EntryType \<Rightarrow> bool" where
  "EntryType_IsValid e \<longleftrightarrow> e = EntryTypeDebit \<or> e = EntryTypeCredit"

definition NormalSide_IsValid :: "NormalSide \<Rightarrow> bool" where
  "NormalSide_IsValid n \<longleftrightarrow> n = NormalSideDebit \<or> n = NormalSideCredit"

definition BalanceRoleNone :: BalanceRole where "BalanceRoleNone = ''''"
definition BalanceRoleAvailable :: BalanceRole where "BalanceRoleAvailable = ''available''"
definition BalanceRolePending :: BalanceRole where "BalanceRolePending = ''pending''"
definition BalanceRoleLocked :: BalanceRole where "BalanceRoleLocked = ''locked''"
definition BalanceRoleMemo :: BalanceRole where "BalanceRoleMemo = ''memo''"

lemmas balance_roles = BalanceRoleNone_def BalanceRoleAvailable_def BalanceRolePending_def
  BalanceRoleLocked_def BalanceRoleMemo_def

definition BalanceRole_IsValid :: "BalanceRole \<Rightarrow> bool" where
  "BalanceRole_IsValid r \<longleftrightarrow>
     r \<in> set [BalanceRoleNone, BalanceRoleAvailable, BalanceRolePending, BalanceRoleLocked,
              BalanceRoleMemo]"

definition HolderTxKindNone :: HolderTxKind where "HolderTxKindNone = ''''"
definition HolderTxKindDeposit :: HolderTxKind where "HolderTxKindDeposit = ''deposit''"
definition HolderTxKindWithdrawal :: HolderTxKind where "HolderTxKindWithdrawal = ''withdrawal''"
definition HolderTxKindTransfer :: HolderTxKind where "HolderTxKindTransfer = ''transfer''"
definition HolderTxKindFee :: HolderTxKind where "HolderTxKindFee = ''fee''"
definition HolderTxKindAdjustment :: HolderTxKind where "HolderTxKindAdjustment = ''adjustment''"
definition HolderTxKindOther :: HolderTxKind where "HolderTxKindOther = ''other''"

lemmas holder_tx_kinds = HolderTxKindNone_def HolderTxKindDeposit_def HolderTxKindWithdrawal_def
  HolderTxKindTransfer_def HolderTxKindFee_def HolderTxKindAdjustment_def HolderTxKindOther_def

definition HolderTxKind_IsValid :: "HolderTxKind \<Rightarrow> bool" where
  "HolderTxKind_IsValid k \<longleftrightarrow>
     k \<in> set [HolderTxKindNone, HolderTxKindDeposit, HolderTxKindWithdrawal, HolderTxKindTransfer,
              HolderTxKindFee, HolderTxKindAdjustment, HolderTxKindOther]"

section \<open>Records\<close>

record Currency =
  cur_UID :: string
  cur_Code :: string
  cur_Name :: string
  cur_IsActive :: bool
  cur_Exponent :: int

record Classification =
  cls_UID :: string
  cls_Code :: string
  cls_Name :: string
  cls_NormalSide :: NormalSide
  cls_IsSystem :: bool
  cls_IsActive :: bool
  cls_DisplayLabel :: string
  cls_BalanceRole :: BalanceRole
  cls_Lifecycle :: "Lifecycle option"
  cls_CreatedAt :: gotime

record JournalType =
  jt_UID :: string
  jt_Code :: string
  jt_Name :: string
  jt_IsActive :: bool
  jt_DisplayLabel :: string
  jt_HolderKind :: HolderTxKind
  jt_CreatedAt :: gotime

record 'd BalanceBreakdown =
  bb_AccountHolder :: int
  bb_CurrencyUID :: string
  bb_Available :: 'd
  bb_Pending :: 'd
  bb_Locked :: 'd
  bb_Total :: 'd

section \<open>User and system holders\<close>

definition SystemAccountHolder :: "int \<Rightarrow> int" where
  "SystemAccountHolder userID = wrap64 (- userID)"

definition IsSystemAccount :: "int \<Rightarrow> bool" where
  "IsSystemAccount holder \<longleftrightarrow> holder < 0"

definition IsUserAccount :: "int \<Rightarrow> bool" where
  "IsUserAccount holder \<longleftrightarrow> holder > 0"

definition UserHolderFromSystem :: "int \<Rightarrow> int" where
  "UserHolderFromSystem holder = wrap64 (- holder)"

lemma wrap64_neg:
  assumes "is_int64 x"
  shows "wrap64 (- x) = (if x = int64_min then int64_min else - x)"
proof (cases "x = int64_min")
  case True
  then show ?thesis by (simp add: wrap64_def int64_min_def)
next
  case False
  then have "is_int64 (- x)"
    using assms by (simp add: is_int64_def int64_min_def int64_max_def)
  with False show ?thesis by (simp add: wrap64_id)
qed

section \<open>The sign rule\<close>

type_synonym BalanceDirection = int

definition BalanceDirectionIncrease :: BalanceDirection where "BalanceDirectionIncrease = 0"
definition BalanceDirectionDecrease :: BalanceDirection where "BalanceDirectionDecrease = 1"

definition Sign :: "NormalSide \<Rightarrow> EntryType \<Rightarrow> int result" where
  "Sign normalSide entryType =
     (if \<not> NormalSide_IsValid normalSide then invalid
      else if \<not> EntryType_IsValid entryType then invalid
      else if entryType = normalSide then Inr 1
      else Inr (- 1))"

definition SignedAmount ::
  "'d decimal_ops \<Rightarrow> NormalSide \<Rightarrow> EntryType \<Rightarrow> 'd \<Rightarrow> 'd result" where
  "SignedAmount D normalSide entryType amount =
     bindR (Sign normalSide entryType) (\<lambda>sign.
       if sign < 0 then Inr (dNeg D amount) else Inr amount)"

definition Delta :: "'d decimal_ops \<Rightarrow> NormalSide \<Rightarrow> 'd \<Rightarrow> 'd \<Rightarrow> 'd result" where
  "Delta D normalSide debitSum creditSum =
     andThen (validateAmountIsRescalable D debitSum)
     (andThen (validateAmountIsRescalable D creditSum)
     (bindR (SignedAmount D normalSide EntryTypeDebit debitSum) (\<lambda>debitPart.
      bindR (SignedAmount D normalSide EntryTypeCredit creditSum) (\<lambda>creditPart.
        Inr (dAdd D debitPart creditPart)))))"

definition EntryDirection :: "EntryType \<Rightarrow> NormalSide \<Rightarrow> BalanceDirection result" where
  "EntryDirection entryType normalSide =
     bindR (Sign normalSide entryType) (\<lambda>sign.
       if sign > 0 then Inr BalanceDirectionIncrease else Inr BalanceDirectionDecrease)"

text \<open>The balance a classification with the given normal side has after debits and credits.\<close>

definition side_net :: "NormalSide \<Rightarrow> rat \<Rightarrow> rat \<Rightarrow> rat" where
  "side_net n debit credit = (if n = NormalSideDebit then debit - credit else credit - debit)"

definition side_signed :: "NormalSide \<Rightarrow> EntryType \<Rightarrow> rat \<Rightarrow> rat" where
  "side_signed n e a = (if e = n then a else - a)"

lemma side_signed_net:
  assumes "NormalSide_IsValid n"
  shows "side_signed n EntryTypeDebit a + side_signed n EntryTypeCredit b = side_net n a b"
  using assms by (auto simp: side_signed_def side_net_def NormalSide_IsValid_def side_names)

lemma Sign_Inr:
  "Sign n e = Inr s \<longleftrightarrow> NormalSide_IsValid n \<and> EntryType_IsValid e \<and> s = (if e = n then 1 else - 1)"
  by (auto simp: Sign_def)

lemma Sign_refuses:
  "Sign n e = invalid \<longleftrightarrow> \<not> (NormalSide_IsValid n \<and> EntryType_IsValid e)"
  by (auto simp: Sign_def)

lemma EntryType_IsValid_names [simp]:
  "EntryType_IsValid EntryTypeDebit" "EntryType_IsValid EntryTypeCredit"
  by (simp_all add: EntryType_IsValid_def)

context decimal_lib
begin

lemma SignedAmount_val:
  assumes "SignedAmount D n e a = Inr x"
  shows "NormalSide_IsValid n \<and> EntryType_IsValid e \<and> dval D x = side_signed n e (dval D a)"
  using assms by (auto simp: SignedAmount_def Sign_Inr side_signed_def Neg split: if_splits)

lemma SignedAmount_ok:
  assumes "NormalSide_IsValid n" "EntryType_IsValid e"
  shows "\<exists>x. SignedAmount D n e a = Inr x"
  using assms by (simp add: SignedAmount_def Sign_def)

lemma Delta_val:
  assumes "Delta D n debit credit = Inr x"
  shows "NormalSide_IsValid n \<and> dval D x = side_net n (dval D debit) (dval D credit)"
proof -
  obtain p q where p: "SignedAmount D n EntryTypeDebit debit = Inr p"
    and q: "SignedAmount D n EntryTypeCredit credit = Inr q" and x: "x = dAdd D p q"
    using assms by (auto simp: Delta_def)
  from SignedAmount_val [OF p] SignedAmount_val [OF q] show ?thesis
    by (simp add: x Add side_signed_net [symmetric])
qed

end

end
