(* ===== verification/Money.thy ===== *)
theory Money
  imports Amount_Limits "HOL-Library.Product_Lexorder"
begin

text \<open>
  \<^verbatim>\<open>core/money.go\<close>: rounding and conversion at a currency exponent, and the largest-remainder
  allocation of a total over weights. Rounding is related to the four rules on rationals of
  theory \<open>Decimal\<close>; allocation is proved to lose no unit, to stay within one unit of every
  exact share and to give the spare units to the largest remainders.
\<close>

section \<open>Rounding and conversion\<close>

type_synonym RoundingMode = int

definition RoundHalfUp :: RoundingMode where "RoundHalfUp = 0"
definition RoundHalfEven :: RoundingMode where "RoundHalfEven = 1"
definition RoundDown :: RoundingMode where "RoundDown = 2"
definition RoundUp :: RoundingMode where "RoundUp = 3"

lemmas rounding_modes = RoundHalfUp_def RoundHalfEven_def RoundDown_def RoundUp_def

definition roundChecked :: "'d decimal_ops \<Rightarrow> 'd \<Rightarrow> int \<Rightarrow> RoundingMode \<Rightarrow> 'd" where
  "roundChecked D d exponent mode =
     (if mode = RoundHalfEven then dRoundBank D d exponent
      else if mode = RoundDown then dRoundDown D d exponent
      else if mode = RoundUp then dRoundUp D d exponent
      else if mode = RoundHalfUp then dRound D d exponent
      else dRound D d exponent)"

definition validateMoneyExponent :: "int \<Rightarrow> int \<Rightarrow> unit result" where
  "validateMoneyExponent exponent minExponent =
     (if exponent < minExponent \<or> exponent > MaxAmountWorkingFractionalDigits
      then invalid else Inr ())"

definition Round :: "'d decimal_ops \<Rightarrow> 'd \<Rightarrow> int \<Rightarrow> RoundingMode \<Rightarrow> 'd result" where
  "Round D d exponent mode =
     andThen (validateMoneyExponent exponent (- MaxAmountWorkingFractionalDigits))
     (andThen (validateAmountIsRescalable D d)
     (Inr (roundChecked D d exponent mode)))"

definition ConvertAt ::
  "'d decimal_ops \<Rightarrow> 'd \<Rightarrow> 'd \<Rightarrow> int \<Rightarrow> RoundingMode \<Rightarrow> 'd result" where
  "ConvertAt D amount rate targetExponent mode =
     andThen (validateMoneyExponent targetExponent (- MaxAmountWorkingFractionalDigits))
     (andThen (validateAmountIsRescalable D amount)
     (andThen (validateAmountIsRescalable D rate)
     (Round D (dMul D amount rate) targetExponent mode)))"

text \<open>The rule on rationals a rounding mode selects.\<close>

definition mode_rule :: "RoundingMode \<Rightarrow> rat \<Rightarrow> int" where
  "mode_rule mode =
     (if mode = RoundHalfEven then half_even_rat
      else if mode = RoundDown then trunc_rat
      else if mode = RoundUp then away_rat else half_up_rat)"

lemma mode_rule_bound: "\<bar>of_int (mode_rule mode r) - r\<bar> < 1"
  using trunc_rat_bound [of r] away_rat_bound [of r] half_up_rat_bound [of r]
    half_even_rat_bound [of r]
  by (auto simp: mode_rule_def)

lemma mode_rule_of_int [simp]: "mode_rule mode (of_int i) = i"
  by (simp add: mode_rule_def)

lemma mode_rule_nonneg: "0 \<le> r \<Longrightarrow> 0 \<le> mode_rule mode r"
  by (simp add: mode_rule_def rat_nonneg_mono)

lemma unscale: "(v :: rat) * 10 powi p * 10 powi (- p) = v"
  by (simp add: mult.assoc power_int_add [symmetric])

lemma rescaled_dev:
  "rescaled f v p - v = (of_int (f (v * 10 powi p)) - v * 10 powi p) * 10 powi (- p)"
  by (simp only: rescaled_def left_diff_distrib unscale)

lemma rescaled_bound: "\<bar>rescaled (mode_rule mode) v p - v\<bar> < 10 powi (- p)"
proof -
  have "\<bar>rescaled (mode_rule mode) v p - v\<bar>
      = \<bar>of_int (mode_rule mode (v * 10 powi p)) - v * 10 powi p\<bar> * 10 powi (- p)"
    unfolding rescaled_dev by (simp add: abs_mult less_imp_le)
  also have "\<dots> < 1 * 10 powi (- p)"
    by (rule mult_strict_right_mono) (rule mode_rule_bound, simp)
  finally show ?thesis by simp
qed

lemma rescaled_half_bound:
  assumes "mode \<noteq> RoundDown" "mode \<noteq> RoundUp"
  shows "\<bar>rescaled (mode_rule mode) v p - v\<bar> \<le> 10 powi (- p) / 2"
proof -
  have "\<bar>of_int (mode_rule mode (v * 10 powi p)) - v * 10 powi p\<bar> \<le> 1 / 2"
    using assms half_up_rat_bound half_even_rat_bound by (simp add: mode_rule_def)
  then have "\<bar>of_int (mode_rule mode (v * 10 powi p)) - v * 10 powi p\<bar> * 10 powi (- p)
      \<le> 1 / 2 * 10 powi (- p)"
    by (rule mult_right_mono) (simp add: less_imp_le)
  then show ?thesis unfolding rescaled_dev by (simp add: abs_mult less_imp_le)
qed

lemma rescaled_abs: "\<bar>rescaled f v p\<bar> = \<bar>of_int (f (v * 10 powi p))\<bar> * 10 powi (- p)"
  by (simp add: rescaled_def abs_mult less_imp_le)

lemma unscale_abs: "\<bar>v * 10 powi p\<bar> * 10 powi (- p) = \<bar>v :: rat\<bar>"
  using unscale [of "\<bar>v\<bar>" p] by (simp add: abs_mult less_imp_le)

lemma rescaled_toward:
  "\<bar>rescaled (mode_rule RoundDown) v p\<bar> \<le> \<bar>v\<bar>" "\<bar>v\<bar> \<le> \<bar>rescaled (mode_rule RoundUp) v p\<bar>"
proof -
  have "\<bar>of_int (trunc_rat (v * 10 powi p))\<bar> * 10 powi (- p) \<le> \<bar>v * 10 powi p\<bar> * 10 powi (- p)"
    by (rule mult_right_mono) (rule trunc_rat_abs_le, simp add: less_imp_le)
  then show "\<bar>rescaled (mode_rule RoundDown) v p\<bar> \<le> \<bar>v\<bar>"
    by (simp add: rescaled_abs unscale_abs mode_rule_def rounding_modes)
  have "\<bar>v * 10 powi p\<bar> * 10 powi (- p) \<le> \<bar>of_int (away_rat (v * 10 powi p))\<bar> * 10 powi (- p)"
    by (rule mult_right_mono) (rule away_rat_abs_ge, simp add: less_imp_le)
  then show "\<bar>v\<bar> \<le> \<bar>rescaled (mode_rule RoundUp) v p\<bar>"
    by (simp add: rescaled_abs unscale_abs mode_rule_def rounding_modes)
qed

lemma rescaled_exact:
  assumes "v * 10 powi p = of_int i"
  shows "rescaled (mode_rule mode) v p = v"
proof -
  have "rescaled (mode_rule mode) v p = v * 10 powi p * 10 powi (- p)"
    by (simp only: rescaled_def assms mode_rule_of_int)
  also have "\<dots> = v" by (simp add: mult.assoc power_int_add [symmetric])
  finally show ?thesis .
qed

context decimal_lib
begin

lemma roundChecked_val: "dval D (roundChecked D d p mode) = rescaled (mode_rule mode) (dval D d) p"
  by (simp add: roundChecked_def mode_rule_def Round RoundBank RoundDown RoundUp rounding_modes)

lemma Round_Inr:
  "Money.Round D d p mode = Inr r \<longleftrightarrow>
     \<bar>p\<bar> \<le> 36 \<and> validateAmountIsRescalable D d = Inr () \<and> r = roundChecked D d p mode"
  by (auto simp: Money.Round_def validateMoneyExponent_def amount_limits)

lemma ConvertAt_val:
  assumes "ConvertAt D a r p mode = Inr x"
  shows "dval D x = rescaled (mode_rule mode) (dval D a * dval D r) p"
  using assms by (auto simp: ConvertAt_def Round_Inr roundChecked_val Mul)

end

section \<open>Allocation\<close>

record allocation =
  al_idx :: nat
  al_floor :: int
  al_remainder :: rat

text \<open>Integer division of \<^verbatim>\<open>big.Int.Quo\<close>: truncated towards zero.\<close>

definition Quo :: "int \<Rightarrow> int \<Rightarrow> int" where
  "Quo a b = sgn a * sgn b * (\<bar>a\<bar> div \<bar>b\<bar>)"

fun sumWeights :: "'d decimal_ops \<Rightarrow> 'd \<Rightarrow> 'd list \<Rightarrow> 'd result" where
  "sumWeights D acc [] = Inr acc"
| "sumWeights D acc (w # ws) =
     andThen (validateAmountIsRescalable D w)
       (if dIsNegative D w then invalid else sumWeights D (dAdd D acc w) ws)"

definition mkAllocation :: "int \<Rightarrow> rat \<Rightarrow> nat \<Rightarrow> rat \<Rightarrow> allocation" where
  "mkAllocation absUnits totalWeightRat i w =
     (let idealUnits = of_int absUnits * w / totalWeightRat;
          flr = Quo (fst (quotient_of idealUnits)) (snd (quotient_of idealUnits))
      in \<lparr>al_idx = i, al_floor = flr, al_remainder = idealUnits - of_int flr\<rparr>)"

fun mkAllocations :: "int \<Rightarrow> rat \<Rightarrow> nat \<Rightarrow> rat list \<Rightarrow> allocation list" where
  "mkAllocations u W i [] = []"
| "mkAllocations u W i (w # ws) = mkAllocation u W i w # mkAllocations u W (Suc i) ws"

text \<open>The stable sort: larger remainder first, ties in input order.\<close>

definition sortAllocations :: "allocation list \<Rightarrow> allocation list" where
  "sortAllocations = sort_key (\<lambda>a. (- al_remainder a, al_idx a))"

text \<open>One unit to each of the first \<open>n\<close> allocations.\<close>

fun distribute :: "int \<Rightarrow> allocation list \<Rightarrow> allocation list" where
  "distribute n [] = []"
| "distribute n (a # as) =
     (if 0 < n then a\<lparr>al_floor := al_floor a + 1\<rparr> # distribute (n - 1) as else a # as)"

definition shareOf :: "'d decimal_ops \<Rightarrow> bool \<Rightarrow> int \<Rightarrow> allocation \<Rightarrow> 'd" where
  "shareOf D negative exponent a =
     (let share = dNewFromBigInt D (al_floor a) (- exponent)
      in if negative then dNeg D share else share)"

definition placeShares :: "(allocation \<Rightarrow> 'd) \<Rightarrow> 'd list \<Rightarrow> allocation list \<Rightarrow> 'd list" where
  "placeShares share = foldl (\<lambda>r a. r[al_idx a := share a])"

definition Allocate :: "'d decimal_ops \<Rightarrow> 'd \<Rightarrow> 'd list \<Rightarrow> int \<Rightarrow> 'd list result" where
  "Allocate D tot weights exponent =
     (if weights = [] then invalid
      else andThen (validateMoneyExponent exponent 0)
      (andThen (validateAmountIsRescalable D tot)
      (if \<not> dEqual D tot (dTruncate D tot exponent) then invalid
       else bindR (sumWeights D (dZero D) weights) (\<lambda>totalWeight.
         if \<not> dIsPositive D totalWeight then invalid
         else
           let negative = dIsNegative D tot;
               absUnits = dBigInt D (dShift D (dAbs D tot) exponent);
               allocations = mkAllocations absUnits (dRat D totalWeight) 0 (map (dRat D) weights);
               leftover = absUnits - sum_list (map al_floor allocations);
               leftoverN = wrap64 leftover;
               final = distribute leftoverN (sortAllocations allocations)
           in Inr (placeShares (shareOf D negative exponent)
                     (replicate (length weights) (dZero D)) final)))))"

subsection \<open>Floors, remainders and the spare units\<close>

lemma quo_floor: "0 \<le> r \<Longrightarrow> Quo (fst (quotient_of r)) (snd (quotient_of r)) = \<lfloor>r\<rfloor>"
proof -
  assume r: "0 \<le> r"
  obtain n d where q: "quotient_of r = (n, d)" by fastforce
  then have d: "0 < d" and rq: "r = of_int n / of_int d"
    by (auto dest: quotient_of_denom_pos quotient_of_div)
  have n: "0 \<le> n" using r d rq by (simp add: zero_le_divide_iff)
  have "\<lfloor>r\<rfloor> = n div d" by (simp add: rq floor_divide_of_int_eq)
  with q d n show ?thesis by (cases "n = 0") (simp_all add: Quo_def)
qed

lemma mkAllocation_simps:
  assumes "0 \<le> u" "0 < W" "0 \<le> w"
  shows "al_floor (mkAllocation u W i w) = \<lfloor>of_int u * w / W\<rfloor>"
    and "al_remainder (mkAllocation u W i w) = of_int u * w / W - of_int \<lfloor>of_int u * w / W\<rfloor>"
    and "al_idx (mkAllocation u W i w) = i"
  using assms by (simp_all add: mkAllocation_def Let_def quo_floor)

lemma length_mkAllocations [simp]: "length (mkAllocations u W i ws) = length ws"
  by (induction ws arbitrary: i) auto

lemma mkAllocations_nth:
  "j < length ws \<Longrightarrow> mkAllocations u W i ws ! j = mkAllocation u W (i + j) (ws ! j)"
  by (induction ws arbitrary: i j) (auto simp: nth_Cons split: nat.split)

lemma idx_mkAllocations: "map al_idx (mkAllocations u W i ws) = [i..<i + length ws]"
  by (rule nth_equalityI) (auto simp: mkAllocations_nth mkAllocation_def Let_def)

lemma sum_ideal:
  fixes W :: rat
  assumes "0 < W"
  shows "sum_list (map (\<lambda>w. of_int u * w / W) ws) = of_int u * sum_list ws / W"
  by (induction ws) (simp_all add: algebra_simps add_divide_distrib)

lemma floor_sum_bounds:
  fixes W :: rat and i :: nat
  assumes "0 \<le> u" "0 < W" "\<forall>w\<in>set ws. 0 \<le> w"
  defines "fs \<equiv> sum_list (map al_floor (mkAllocations u W i ws))"
  shows "of_int fs \<le> of_int u * sum_list ws / W"
    and "ws \<noteq> [] \<Longrightarrow> of_int u * sum_list ws / W < of_int fs + of_nat (length ws)"
proof -
  have f: "fs = sum_list (map (\<lambda>w. \<lfloor>of_int u * w / W\<rfloor>) ws)"
    unfolding fs_def using assms(1-3)
    by (induction ws arbitrary: i) (simp_all add: mkAllocation_simps)
  have "of_int (sum_list (map (\<lambda>w. \<lfloor>of_int u * w / W\<rfloor>) ws))
      \<le> sum_list (map (\<lambda>w. of_int u * w / W) ws)"
    by (induction ws) (simp_all add: add_mono)
  then show "of_int fs \<le> of_int u * sum_list ws / W"
    using assms(2) by (simp add: f sum_ideal)
  have "sum_list (map (\<lambda>w. of_int u * w / W) ws)
      < of_int (sum_list (map (\<lambda>w. \<lfloor>of_int u * w / W\<rfloor>) ws)) + of_nat (length ws)"
    if "ws \<noteq> []"
    using that
  proof (induction ws rule: list_nonempty_induct)
    case (single x)
    then show ?case using floor_facts(2) [of "of_int u * x / W"] by simp
  next
    case (cons x xs)
    then show ?case using floor_facts(2) [of "of_int u * x / W"] by simp
  qed
  then show "ws \<noteq> [] \<Longrightarrow> of_int u * sum_list ws / W < of_int fs + of_nat (length ws)"
    using assms(2) by (simp add: f sum_ideal)
qed

lemma leftover_bounds:
  fixes i :: nat
  assumes "0 \<le> u" "\<forall>w\<in>set ws. 0 \<le> w" "0 < sum_list ws"
  defines "l \<equiv> u - sum_list (map al_floor (mkAllocations u (sum_list ws) i ws))"
  shows "0 \<le> l" "l < int (length ws)"
proof -
  have ne: "ws \<noteq> []" using assms(3) by auto
  note b = floor_sum_bounds [OF assms(1) assms(3) assms(2), of i]
  have u: "of_int u * sum_list ws / sum_list ws = (of_int u :: rat)" using assms(3) by simp
  show "0 \<le> l" using b(1) unfolding u l_def by linarith
  show "l < int (length ws)" using b(2) [OF ne] unfolding u l_def
    by linarith
qed

subsection \<open>Distribution and placement\<close>

lemma distribute_idx [simp]: "map al_idx (distribute n as) = map al_idx as"
  by (induction n as rule: distribute.induct) auto

lemma distribute_nth:
  "j < length as \<Longrightarrow> distribute n as ! j =
     (if int j < n then (as ! j)\<lparr>al_floor := al_floor (as ! j) + 1\<rparr> else as ! j)"
  by (induction n as arbitrary: j rule: distribute.induct) (auto simp: nth_Cons split: nat.split)

lemma length_distribute [simp]: "length (distribute n as) = length as"
  by (induction n as rule: distribute.induct) auto

lemma distribute_sum:
  "0 \<le> n \<Longrightarrow> n \<le> int (length as) \<Longrightarrow>
     sum_list (map al_floor (distribute n as)) = sum_list (map al_floor as) + n"
  by (induction n as rule: distribute.induct) auto

lemma length_placeShares [simp]: "length (placeShares share r as) = length r"
  by (induction as arbitrary: r) (simp_all add: placeShares_def)

lemma placeShares_other: "i \<notin> set (map al_idx as) \<Longrightarrow> placeShares share r as ! i = r ! i"
  by (induction as arbitrary: r) (simp_all add: placeShares_def)

lemma placeShares_nth:
  "distinct (map al_idx as) \<Longrightarrow> a \<in> set as \<Longrightarrow> al_idx a < length r \<Longrightarrow>
     placeShares share r as ! al_idx a = share a"
proof (induction as arbitrary: r)
  case Nil
  then show ?case by simp
next
  case (Cons b as)
  have step: "placeShares share r (b # as) = placeShares share (r[al_idx b := share b]) as"
    by (simp add: placeShares_def)
  show ?case
  proof (cases "a = b")
    case True
    with Cons.prems show ?thesis by (simp add: step placeShares_other)
  next
    case False
    with Cons show ?thesis by (simp add: step)
  qed
qed

lemma sum_placeShares:
  fixes v :: "'d \<Rightarrow> rat"
  assumes "mset (map al_idx as) = mset [0..<n]"
  shows "sum_list (map v (placeShares share (replicate n z) as)) = sum_list (map (v \<circ> share) as)"
proof -
  let ?r = "placeShares share (replicate n z) as"
  have dist: "distinct (map al_idx as)"
    using assms by (metis distinct_upt mset_eq_imp_distinct_iff)
  have idx: "al_idx a < n" if "a \<in> set as" for a
    using that assms by (metis atLeastLessThan_iff image_eqI list.set_map mset_eq_setD set_upt)
  have "sum_list (map v ?r) = sum_list (map (\<lambda>i. v (?r ! i)) [0..<n])"
    by (rule arg_cong [where f = sum_list], rule nth_equalityI) simp_all
  also have "\<dots> = sum_list (map (\<lambda>i. v (?r ! i)) (map al_idx as))"
    by (rule sum_list_map_permute, rule assms [symmetric])
  also have "\<dots> = sum_list (map (v \<circ> share) as)"
    unfolding list.map_comp
    by (intro arg_cong [where f = sum_list] map_cong refl) (simp add: placeShares_nth dist idx)
  finally show ?thesis .
qed

subsection \<open>The allocation in whole units\<close>

definition alloc_final :: "int \<Rightarrow> rat list \<Rightarrow> allocation list" where
  "alloc_final u rs =
     (let as = mkAllocations u (sum_list rs) 0 rs
      in distribute (u - sum_list (map al_floor as)) (sortAllocations as))"

definition ideal :: "int \<Rightarrow> rat list \<Rightarrow> nat \<Rightarrow> rat" where
  "ideal u rs i = of_int u * rs ! i / sum_list rs"

lemma sortAllocations_mset: "mset (sortAllocations as) = mset as"
  by (simp add: sortAllocations_def)

lemma length_sortAllocations [simp]: "length (sortAllocations as) = length as"
  by (simp add: sortAllocations_def)

lemma sortAllocations_order:
  assumes "j < k" "k < length as"
  shows "(- al_remainder (sortAllocations as ! j), al_idx (sortAllocations as ! j))
       \<le> (- al_remainder (sortAllocations as ! k), al_idx (sortAllocations as ! k))"
proof -
  have "sorted (map (\<lambda>a. (- al_remainder a, al_idx a)) (sortAllocations as))"
    by (simp add: sortAllocations_def)
  moreover have "length (sortAllocations as) = length as" by (simp add: sortAllocations_def)
  ultimately show ?thesis using assms sorted_nth_mono [of _ j k] by fastforce
qed

lemma alloc_mem:
  assumes "0 \<le> u" "\<forall>w\<in>set rs. 0 \<le> w" "0 < sum_list rs"
    and "a \<in> set (sortAllocations (mkAllocations u (sum_list rs) 0 rs))"
  shows "al_idx a < length rs" "al_floor a = \<lfloor>ideal u rs (al_idx a)\<rfloor>"
    "al_remainder a = ideal u rs (al_idx a) - of_int \<lfloor>ideal u rs (al_idx a)\<rfloor>"
proof -
  have "a \<in> set (mkAllocations u (sum_list rs) 0 rs)"
    using assms(4) sortAllocations_mset by (metis set_mset_mset)
  then obtain j where j: "j < length rs" "a = mkAllocation u (sum_list rs) j (rs ! j)"
    by (metis in_set_conv_nth length_mkAllocations mkAllocations_nth add_0)
  note m = mkAllocation_simps [OF assms(1,3), of "rs ! j" j]
  show "al_idx a < length rs" "al_floor a = \<lfloor>ideal u rs (al_idx a)\<rfloor>"
    "al_remainder a = ideal u rs (al_idx a) - of_int \<lfloor>ideal u rs (al_idx a)\<rfloor>"
    using j m assms(2) by (simp_all add: ideal_def)
qed

text \<open>
  A decreasing list of fractions that adds up to the number \<open>l\<close> starts with \<open>l\<close> positive ones.
\<close>

lemma top_fractions_positive:
  fixes rs :: "rat list"
  assumes "\<forall>r\<in>set rs. 0 \<le> r \<and> r < 1"
    and "\<And>j k. j < k \<Longrightarrow> k < length rs \<Longrightarrow> rs ! k \<le> rs ! j"
    and "sum_list rs = of_int l" and "int j < l" and "j < length rs"
  shows "0 < rs ! j"
proof (rule ccontr)
  assume "\<not> 0 < rs ! j"
  then have z: "rs ! k = 0" if "j \<le> k" "k < length rs" for k
  proof -
    have "rs ! k \<le> rs ! j" using assms(2) [of j k] that by (cases "j = k") auto
    moreover have "0 \<le> rs ! k" using assms(1) that by simp
    ultimately show ?thesis using \<open>\<not> 0 < rs ! j\<close> by simp
  qed
  have "sum_list (drop j rs) = 0"
    by (rule sum_list_zero) (auto simp: in_set_conv_nth z)
  then have "sum_list rs = sum_list (take j rs)"
    by (metis append_take_drop_id sum_list_append add_0_right)
  also have "\<dots> \<le> of_nat (length (take j rs))"
    using assms(1) by (intro sum_list_le_length) (auto dest: in_set_takeD)
  also have "\<dots> \<le> of_nat j" by simp
  finally have "(of_int l :: rat) \<le> of_int (int j)" using assms(3) by simp
  then have "l \<le> int j" by (simp only: of_int_le_iff)
  with assms(4) show False by simp
qed

lemma alloc_final_idx: "mset (map al_idx (alloc_final u rs)) = mset [0..<length rs]"
proof -
  let ?as = "mkAllocations u (sum_list rs) 0 rs"
  have "mset (map al_idx (alloc_final u rs)) = mset (map al_idx (sortAllocations ?as))"
    by (simp add: alloc_final_def Let_def)
  also have "\<dots> = mset (map al_idx ?as)" by (simp only: mset_map sortAllocations_mset)
  finally show ?thesis by (simp only: idx_mkAllocations) simp
qed

lemma alloc_final_sum:
  assumes "0 \<le> u" "\<forall>w\<in>set rs. 0 \<le> w" "0 < sum_list rs"
  shows "sum_list (map al_floor (alloc_final u rs)) = u"
proof -
  let ?as = "mkAllocations u (sum_list rs) 0 rs"
  have "length (sortAllocations ?as) = length rs" by (simp add: sortAllocations_def)
  moreover have "sum_list (map al_floor (sortAllocations ?as)) = sum_list (map al_floor ?as)"
    by (rule sum_list_map_permute) (simp add: sortAllocations_mset)
  ultimately show ?thesis
    using leftover_bounds [OF assms, of 0]
    by (simp add: alloc_final_def Let_def distribute_sum)
qed

lemma sum_remainders:
  assumes "0 \<le> u" "\<forall>w\<in>set rs. 0 \<le> w" "0 < sum_list rs"
  defines "as \<equiv> mkAllocations u (sum_list rs) 0 rs"
  shows "sum_list (map al_remainder (sortAllocations as)) = of_int (u - sum_list (map al_floor as))"
proof -
  have gen: "sum_list (map al_remainder (mkAllocations u W i ws))
      = of_int u * sum_list ws / W - of_int (sum_list (map al_floor (mkAllocations u W i ws)))"
    if "0 < W" for W :: rat and i ws
    by (induction ws arbitrary: i)
       (simp_all add: mkAllocation_def Let_def algebra_simps add_divide_distrib)
  have "sum_list (map al_remainder (sortAllocations as)) = sum_list (map al_remainder as)"
    by (rule sum_list_map_permute) (simp add: sortAllocations_mset)
  then show ?thesis using gen [OF assms(3), of 0 rs] assms(3) by (simp add: as_def)
qed

lemma spare_unit_remainder:
  assumes "0 \<le> u" "\<forall>w\<in>set rs. 0 \<le> w" "0 < sum_list rs"
  defines "as \<equiv> mkAllocations u (sum_list rs) 0 rs"
  assumes "j < length rs" "int j < u - sum_list (map al_floor as)"
  shows "0 < al_remainder (sortAllocations as ! j)"
proof -
  let ?s = "sortAllocations as" and ?rem = "map al_remainder (sortAllocations as)"
  have len: "length ?s = length rs" by (simp add: sortAllocations_def as_def)
  have frac: "0 \<le> al_remainder a \<and> al_remainder a < 1" if "a \<in> set ?s" for a
    using alloc_mem(3) [OF assms(1-3)] that floor_facts [of "ideal u rs (al_idx a)"]
    by (simp add: as_def)
  have "0 < ?rem ! j"
  proof (rule top_fractions_positive)
    show "\<forall>r\<in>set ?rem. 0 \<le> r \<and> r < 1" using frac by auto
    show "sum_list ?rem = of_int (u - sum_list (map al_floor as))"
      unfolding as_def by (rule sum_remainders [OF assms(1-3)])
    show "?rem ! k \<le> ?rem ! i" if "i < k" "k < length ?rem" for i k
      using sortAllocations_order [of i k as] that by (auto simp: len as_def)
  qed (use assms(5,6) len in simp_all)
  then show ?thesis using assms(5) len by simp
qed

lemma alloc_final_nth:
  fixes u :: int
  assumes "j < length rs"
  defines "as \<equiv> mkAllocations u (sum_list rs) 0 rs"
  shows "alloc_final u rs ! j =
    (if int j < u - sum_list (map al_floor as)
     then (sortAllocations as ! j)\<lparr>al_floor := al_floor (sortAllocations as ! j) + 1\<rparr>
     else sortAllocations as ! j)"
  using assms by (simp add: alloc_final_def Let_def distribute_nth sortAllocations_def)

lemma alloc_final_close:
  assumes "0 \<le> u" "\<forall>w\<in>set rs. 0 \<le> w" "0 < sum_list rs" and "a \<in> set (alloc_final u rs)"
  shows "\<bar>of_int (al_floor a) - ideal u rs (al_idx a)\<bar> < 1"
proof -
  let ?as = "mkAllocations u (sum_list rs) 0 rs"
  have len: "length (sortAllocations ?as) = length rs" "length (alloc_final u rs) = length rs"
    by (simp_all add: sortAllocations_def alloc_final_def Let_def)
  obtain j where j: "j < length rs" "a = alloc_final u rs ! j"
    using assms(4) len by (metis in_set_conv_nth)
  let ?b = "sortAllocations ?as ! j"
  have b: "?b \<in> set (sortAllocations ?as)" using j len by simp
  note m = alloc_mem [OF assms(1-3) b]
  note f = floor_facts [of "ideal u rs (al_idx ?b)"]
  show ?thesis
  proof (cases "int j < u - sum_list (map al_floor ?as)")
    case True
    have "0 < al_remainder ?b" by (rule spare_unit_remainder [OF assms(1-3) j(1) True])
    with True m f show ?thesis by (simp add: j alloc_final_nth)
  next
    case False
    with m f show ?thesis by (simp add: j alloc_final_nth)
  qed
qed

lemma alloc_final_largest:
  assumes "0 \<le> u" "\<forall>w\<in>set rs. 0 \<le> w" "0 < sum_list rs"
    and "a \<in> set (alloc_final u rs)" "b \<in> set (alloc_final u rs)"
    and "ideal u rs (al_idx a) < of_int (al_floor a)" "of_int (al_floor b) \<le> ideal u rs (al_idx b)"
  shows "(- frac (ideal u rs (al_idx a)), al_idx a) \<le> (- frac (ideal u rs (al_idx b)), al_idx b)"
proof -
  let ?as = "mkAllocations u (sum_list rs) 0 rs"
  let ?s = "sortAllocations ?as" and ?l = "u - sum_list (map al_floor ?as)"
  have len: "length ?s = length rs" "length (alloc_final u rs) = length rs"
    by (simp_all add: sortAllocations_def alloc_final_def Let_def)
  obtain j where j: "j < length rs" "a = alloc_final u rs ! j"
    using assms(4) len by (metis in_set_conv_nth)
  obtain k where k: "k < length rs" "b = alloc_final u rs ! k"
    using assms(5) len by (metis in_set_conv_nth)
  have mem: "?s ! j \<in> set ?s" "?s ! k \<in> set ?s" using j k len by simp_all
  note ma = alloc_mem [OF assms(1-3) mem(1)] and mb = alloc_mem [OF assms(1-3) mem(2)]
  have "int j < ?l"
  proof (rule ccontr)
    assume "\<not> int j < ?l"
    then have "al_floor a = \<lfloor>ideal u rs (al_idx a)\<rfloor>" using j ma by (simp add: alloc_final_nth)
    with assms(6) floor_facts(1) [of "ideal u rs (al_idx a)"] show False by linarith
  qed
  moreover have "\<not> int k < ?l"
    using assms(7) k mb(2) floor_facts(2) [of "ideal u rs (al_idx (?s ! k))"]
    by (auto simp: alloc_final_nth split: if_splits)
  ultimately have jk: "j < k" by simp
  have "(- al_remainder (?s ! j), al_idx (?s ! j)) \<le> (- al_remainder (?s ! k), al_idx (?s ! k))"
    by (rule sortAllocations_order) (use jk k in simp_all)
  moreover have "al_idx a = al_idx (?s ! j)" "al_idx b = al_idx (?s ! k)"
    using j k by (simp_all add: alloc_final_nth)
  ultimately show ?thesis using ma(3) mb(3) by (simp add: frac_def)
qed

subsection \<open>The allocation of a decimal total\<close>

context decimal_lib
begin

lemma sumWeights_Inr:
  "sumWeights D acc ws = Inr t \<Longrightarrow>
     dval D t = dval D acc + sum_list (map (dval D) ws)
     \<and> (\<forall>w\<in>set ws. validateAmountIsRescalable D w = Inr () \<and> 0 \<le> dval D w)"
  by (induction ws arbitrary: acc) (auto simp: laws split: if_splits)

lemma sumWeights_ok:
  "\<forall>w\<in>set ws. validateAmountIsRescalable D w = Inr () \<and> 0 \<le> dval D w \<Longrightarrow>
     \<exists>t. sumWeights D acc ws = Inr t"
  by (induction ws arbitrary: acc) (simp_all add: IsNegative)

lemma truncate_exact:
  assumes "0 \<le> e"
  shows "dEqual D d (dTruncate D d e) \<longleftrightarrow> (\<exists>k. dval D d * 10 powi e = of_int k)"
proof
  assume "dEqual D d (dTruncate D d e)"
  then have "dval D d = of_int (trunc_rat (dval D d * 10 powi e)) * 10 powi (- e)"
    using assms by (simp add: Equal Truncate rescaled_def)
  then have "dval D d * 10 powi e
      = of_int (trunc_rat (dval D d * 10 powi e)) * (10 powi (- e) * 10 powi e)"
    by (metis mult.assoc)
  also have "(10 :: rat) powi (- e) * 10 powi e = 1" by (simp add: power_int_add [symmetric])
  finally show "\<exists>k. dval D d * 10 powi e = of_int k" by (intro exI) (simp only: mult_1_right)
next
  assume "\<exists>k. dval D d * 10 powi e = of_int k"
  then obtain k where k: "dval D d * 10 powi e = of_int k" ..
  have "rescaled trunc_rat (dval D d) e = dval D d * (10 powi e * 10 powi (- e))"
    unfolding rescaled_def k by (simp add: k mult.assoc [symmetric])
  then show "dEqual D d (dTruncate D d e)"
    using assms by (simp add: Equal Truncate power_int_add [symmetric])
qed

lemma abs_units:
  assumes "dval D d * 10 powi e = of_int k"
  shows "dBigInt D (dShift D (dAbs D d) e) = \<bar>k\<bar>"
proof -
  have "\<bar>dval D d\<bar> * 10 powi e = of_int \<bar>k\<bar>"
    by (simp add: assms [symmetric] abs_mult less_imp_le)
  then have "dBigInt D (dShift D (dAbs D d) e) = trunc_rat (of_int \<bar>k\<bar>)"
    by (simp only: BigInt Shift Abs)
  then show ?thesis by (simp only: trunc_rat_of_int)
qed

lemma shareOf_val:
  "dval D (shareOf D neg e a) = (if neg then - 1 else 1) * of_int (al_floor a) * 10 powi (- e)"
  by (simp add: shareOf_def Let_def Neg New)

lemma Allocate_Inr:
  assumes "Allocate D tot ws e = Inr shares" and "int (length ws) \<le> int64_max"
  obtains k where "dval D tot * 10 powi e = of_int k" and "0 \<le> e"
    and "\<forall>w\<in>set (map (dval D) ws). 0 \<le> w" and "0 < sum_list (map (dval D) ws)"
    and "shares = placeShares (shareOf D (dval D tot < 0) e) (replicate (length ws) (dZero D))
           (alloc_final \<bar>k\<bar> (map (dval D) ws))"
proof -
  obtain t where e: "0 \<le> e" and eq: "dEqual D tot (dTruncate D tot e)"
    and t: "sumWeights D (dZero D) ws = Inr t" and pos: "dIsPositive D t"
    using assms(1) by (auto simp: Allocate_def Let_def validateMoneyExponent_def split: if_splits)
  obtain k where k: "dval D tot * 10 powi e = of_int k" using eq e by (auto simp: truncate_exact)
  have tv: "dval D t = sum_list (map (dval D) ws)"
    and nn: "\<forall>w\<in>set (map (dval D) ws). 0 \<le> w"
    using sumWeights_Inr [OF t] by (auto simp: Zero)
  have W: "0 < sum_list (map (dval D) ws)" using pos tv by (simp add: IsPositive)
  have rat: "map (dRat D) ws = map (dval D) ws" by (simp add: Rat)
  let ?as = "mkAllocations \<bar>k\<bar> (sum_list (map (dval D) ws)) 0 (map (dval D) ws)"
  have "is_int64 (\<bar>k\<bar> - sum_list (map al_floor ?as))"
    using leftover_bounds [OF _ nn W, of "\<bar>k\<bar>" 0] assms(2)
    by (simp add: is_int64_def int64_min_def)
  then have "shares = placeShares (shareOf D (dval D tot < 0) e) (replicate (length ws) (dZero D))
           (alloc_final \<bar>k\<bar> (map (dval D) ws))"
    using assms(1) e eq t pos
    by (auto simp: Allocate_def Let_def alloc_final_def abs_units [OF k] Rat tv rat IsNegative
          wrap64_id split: if_splits)
  from that [OF k e nn W this] show thesis .
qed

lemma Allocate_sum:
  assumes "Allocate D tot ws e = Inr shares" and "int (length ws) \<le> int64_max"
  shows "length shares = length ws \<and> sum_list (map (dval D) shares) = dval D tot"
proof -
  obtain k where k: "dval D tot * 10 powi e = of_int k"
    and nn: "\<forall>w\<in>set (map (dval D) ws). 0 \<le> w" and W: "0 < sum_list (map (dval D) ws)"
    and sh: "shares = placeShares (shareOf D (dval D tot < 0) e) (replicate (length ws) (dZero D))
           (alloc_final \<bar>k\<bar> (map (dval D) ws))"
    using Allocate_Inr [OF assms] .
  let ?f = "alloc_final \<bar>k\<bar> (map (dval D) ws)" and ?s = "if dval D tot < 0 then - 1 else 1 :: rat"
  have sgn: "?s * of_int \<bar>k\<bar> = of_int k"
  proof -
    have "(of_int k :: rat) < 0 \<longleftrightarrow> dval D tot < 0"
      unfolding k [symmetric] using ten_powi_pos [of e] by (simp add: mult_less_0_iff less_not_sym)
    then show ?thesis by auto
  qed
  have "sum_list (map (dval D) shares) = sum_list (map (\<lambda>a. of_int (al_floor a) * (?s * 10 powi (- e))) ?f)"
    unfolding sh sum_placeShares [OF alloc_final_idx [of _ "map (dval D) ws", unfolded length_map]]
    by (simp add: comp_def shareOf_val mult_ac)
  also have "\<dots> = of_int (sum_list (map al_floor ?f)) * (?s * 10 powi (- e))"
    by (rule sum_list_of_int_mult)
  also have "\<dots> = (?s * of_int \<bar>k\<bar>) * 10 powi (- e)"
    by (simp add: alloc_final_sum [OF _ nn W])
  also have "\<dots> = dval D tot * (10 powi e * 10 powi (- e))"
    unfolding sgn k [symmetric] by (simp only: mult.assoc)
  finally show ?thesis by (simp add: sh power_int_add [symmetric])
qed

lemma Allocate_share:
  assumes "Allocate D tot ws e = Inr shares" and "int (length ws) \<le> int64_max"
    and "i < length ws"
  obtains k a where "dval D tot * 10 powi e = of_int k" and "0 < sum_list (map (dval D) ws)"
    and "\<forall>w\<in>set (map (dval D) ws). 0 \<le> w"
    and "a \<in> set (alloc_final \<bar>k\<bar> (map (dval D) ws))" and "al_idx a = i"
    and "dval D (shares ! i) = (if dval D tot < 0 then - 1 else 1) * of_int (al_floor a) * 10 powi (- e)"
proof -
  obtain k where k: "dval D tot * 10 powi e = of_int k"
    and nn: "\<forall>w\<in>set (map (dval D) ws). 0 \<le> w" and W: "0 < sum_list (map (dval D) ws)"
    and sh: "shares = placeShares (shareOf D (dval D tot < 0) e) (replicate (length ws) (dZero D))
           (alloc_final \<bar>k\<bar> (map (dval D) ws))"
    using Allocate_Inr [OF assms(1,2)] .
  let ?f = "alloc_final \<bar>k\<bar> (map (dval D) ws)"
  note idx = alloc_final_idx [of "\<bar>k\<bar>" "map (dval D) ws", unfolded length_map]
  have "i \<in> set (map al_idx ?f)" unfolding mset_eq_setD [OF idx] using assms(3) by simp
  then obtain a where a: "a \<in> set ?f" "al_idx a = i" by auto
  have "distinct (map al_idx ?f)" using idx by (metis distinct_upt mset_eq_imp_distinct_iff)
  then have "shares ! i = shareOf D (dval D tot < 0) e a"
    unfolding sh a(2) [symmetric] by (rule placeShares_nth) (use a assms(3) in simp_all)
  then show thesis using that [OF k W nn a] by (simp add: shareOf_val)
qed

lemma ideal_units:
  assumes "dval D tot * 10 powi e = of_int k" and "i < length ws"
  shows "(if dval D tot < 0 then - 1 else 1) * ideal \<bar>k\<bar> (map (dval D) ws) i * 10 powi (- e)
       = dval D tot * dval D (ws ! i) / sum_list (map (dval D) ws)"
proof -
  have "(if dval D tot < 0 then - 1 else 1) * of_int \<bar>k\<bar> = (of_int k :: rat)"
  proof -
    have "(of_int k :: rat) < 0 \<longleftrightarrow> dval D tot < 0"
      unfolding assms(1) [symmetric] using ten_powi_pos [of e]
      by (simp add: mult_less_0_iff less_not_sym)
    then show ?thesis by auto
  qed
  then have "(if dval D tot < 0 then - 1 else 1) * of_int \<bar>k\<bar> * 10 powi (- e) = dval D tot"
    using assms(1) [symmetric] by (simp add: mult.assoc power_int_add [symmetric])
  then show ?thesis using assms(2) by (simp add: ideal_def mult_ac)
qed

lemma Allocate_close:
  assumes "Allocate D tot ws e = Inr shares" and "int (length ws) \<le> int64_max"
    and "i < length ws"
  shows "\<bar>dval D (shares ! i) - dval D tot * dval D (ws ! i) / sum_list (map (dval D) ws)\<bar>
       < 10 powi (- e)"
proof -
  obtain k a where k: "dval D tot * 10 powi e = of_int k" and W: "0 < sum_list (map (dval D) ws)"
    and nn: "\<forall>w\<in>set (map (dval D) ws). 0 \<le> w"
    and a: "a \<in> set (alloc_final \<bar>k\<bar> (map (dval D) ws))" "al_idx a = i"
    and v: "dval D (shares ! i) = (if dval D tot < 0 then - 1 else 1) * of_int (al_floor a) * 10 powi (- e)"
    using Allocate_share [OF assms] .
  let ?d = "of_int (al_floor a) - ideal \<bar>k\<bar> (map (dval D) ws) i"
  have "\<bar>?d\<bar> < 1" using alloc_final_close [OF _ nn W a(1)] a(2) by simp
  then have "\<bar>?d * 10 powi (- e)\<bar> < 10 powi (- e)" by (simp add: abs_mult)
  then show ?thesis
    unfolding v ideal_units [OF k assms(3), symmetric]
    by (simp add: left_diff_distrib abs_minus_commute)
qed

lemma Allocate_accepts:
  "(\<exists>shares. Allocate D tot ws e = Inr shares) \<longleftrightarrow>
     0 \<le> e \<and> e \<le> 36 \<and> validateAmountIsRescalable D tot = Inr ()
     \<and> (\<exists>k. dval D tot * 10 powi e = of_int k)
     \<and> (\<forall>w\<in>set ws. validateAmountIsRescalable D w = Inr () \<and> 0 \<le> dval D w)
     \<and> 0 < sum_list (map (dval D) ws)" (is "?L \<longleftrightarrow> ?R")
proof
  assume ?L
  then obtain t where e: "0 \<le> e" and "e \<le> 36" "validateAmountIsRescalable D tot = Inr ()"
    "dEqual D tot (dTruncate D tot e)" and t: "sumWeights D (dZero D) ws = Inr t" "dIsPositive D t"
    by (auto simp: Allocate_def Let_def validateMoneyExponent_def amount_limits split: if_splits)
  with sumWeights_Inr [OF t(1)] show ?R
    by (simp add: truncate_exact [OF e, symmetric] IsPositive Zero)
next
  assume R: ?R
  then obtain t where t: "sumWeights D (dZero D) ws = Inr t" using sumWeights_ok by blast
  have "ws \<noteq> []" using R by auto
  with R t sumWeights_Inr [OF t] show ?L
    by (simp add: Allocate_def Let_def validateMoneyExponent_def amount_limits truncate_exact
          IsPositive Zero)
qed

end

section \<open>Properties\<close>

text \<open>C19. No unit is lost or made: when \<open>Allocate\<close> succeeds, it returns one share per weight
  and the shares add up to the total exactly. Every share is within one unit of the target exponent of
  its exact proportional part of the total; so a part that is already a whole number of units, a zero
  weight's above all, is met exactly. The weights are at most as many as a Go slice can hold.\<close>

theorem Allocate_exact:
  assumes "decimal_lib D" and "Allocate D tot weights exponent = Inr shares"
    and "int (length weights) \<le> int64_max"
  shows "length shares = length weights \<and> sum_list (map (dval D) shares) = dval D tot
    \<and> (\<forall>i<length weights. \<bar>dval D (shares ! i)
         - dval D tot * dval D (weights ! i) / sum_list (map (dval D) weights)\<bar> < 10 powi (- exponent))"
  using decimal_lib.Allocate_sum [OF assms] decimal_lib.Allocate_close [OF assms] by blast

text \<open>Ten dollars over three equal weights: the spare cent goes to the first.\<close>

theorem Allocate_exact_witness:
  "decimal_lib ref_decimal \<and>
   Allocate ref_decimal (-10, 0) [(1, 0), (1, 0), (1, 0)] 2 = Inr [(-334, -2), (-333, -2), (-333, -2)] \<and>
   sum_list (map (dval ref_decimal) [(-334, -2), (-333, -2), (-333, -2)]) = dval ref_decimal (-10, 0)"
proof -
  have run: "Allocate ref_decimal (-10, 0) [(1, 0), (1, 0), (1, 0)] 2
      = Inr [(-334, -2), (-333, -2), (-333, -2)]"
    by code_simp
  then have "sum_list (map (dval ref_decimal) [(-334, -2), (-333, -2), (-333, -2)]) = dval ref_decimal (-10, 0)"
    using Allocate_exact [OF ref.decimal_lib_axioms run] by (simp add: int64_max_def)
  with run ref.decimal_lib_axioms show ?thesis by blast
qed

text \<open>C20. When \<open>Allocate\<close> succeeds: exactly for an exponent of the working range, a total that is
  exact at that exponent, and weights that are not negative and not all zero, every amount within the
  magnitude the helpers compute on. Everything else is refused.\<close>

theorem Allocate_success_iff:
  assumes "decimal_lib D"
  shows "(\<exists>shares. Allocate D tot weights exponent = Inr shares) \<longleftrightarrow>
     0 \<le> exponent \<and> exponent \<le> 36 \<and> validateAmountIsRescalable D tot = Inr ()
     \<and> (\<exists>k. dval D tot * 10 powi exponent = of_int k)
     \<and> (\<forall>w\<in>set weights. validateAmountIsRescalable D w = Inr () \<and> 0 \<le> dval D w)
     \<and> 0 < sum_list (map (dval D) weights)"
  by (rule decimal_lib.Allocate_accepts [OF assms])

theorem Allocate_success_iff_witness:
  "\<not> (\<exists>shares. Allocate ref_decimal (1, 0) [(0, 0), (0, 0)] 2 = Inr shares)"
  unfolding Allocate_success_iff [OF ref.decimal_lib_axioms]
  by (simp add: dval_ref ce_val_def)



end
