(* ===== verification/Conversion.thy ===== *)
theory Conversion
  imports Core_Types Money
begin

text \<open>
  Directed conversions: \<^verbatim>\<open>core/fixed_rate.go\<close> and \<^verbatim>\<open>core/conversion.go\<close>. A quote is the
  record of an applied conversion; its \<open>Validate\<close> re-runs the arithmetic. Reading quotes out of
  JSON goes through the decimal package's own codec, so the decoder of a quote list is a parameter.
\<close>

section \<open>Fixed rates\<close>

record 'd FixedRate =
  fr_SourceCode :: string
  fr_TargetCode :: string
  fr_Rate :: 'd
  fr_Version :: string
  fr_Rounding :: RoundingMode

definition FixedRate_Validate ::
  "'d decimal_ops \<Rightarrow> 'd FixedRate \<Rightarrow> Currency \<Rightarrow> Currency \<Rightarrow> unit result" where
  "FixedRate_Validate D r source target =
     andThen (validateCurrencyCode (fr_SourceCode r))
     (andThen (validateCurrencyCode (fr_TargetCode r))
     (if fr_SourceCode r = fr_TargetCode r then invalid
      else if cur_Code source \<noteq> fr_SourceCode r \<or> cur_Code target \<noteq> fr_TargetCode r then invalid
      else andThen (validateQuoteVersion (fr_Version r))
        (if cur_Exponent source < 0 \<or> cur_Exponent source > MaxAmountFractionalDigits
            \<or> cur_Exponent target < 0 \<or> cur_Exponent target > MaxAmountFractionalDigits then invalid
         else if \<not> (fr_Rounding r = RoundHalfUp \<or> fr_Rounding r = RoundHalfEven
                    \<or> fr_Rounding r = RoundDown \<or> fr_Rounding r = RoundUp) then invalid
         else if \<not> dIsPositive D (fr_Rate r) then invalid
         else validateAmountIsRescalable D (fr_Rate r))))"

definition Convert ::
  "'d decimal_ops \<Rightarrow> 'd FixedRate \<Rightarrow> 'd \<Rightarrow> Currency \<Rightarrow> Currency \<Rightarrow> 'd result" where
  "Convert D r quantity source target =
     andThen (FixedRate_Validate D r source target)
     (if dIsNegative D quantity then invalid
      else andThen (ValidateAmountMagnitude D quantity)
        (if \<not> dEqual D quantity (dTruncate D quantity (cur_Exponent source))
         then Inl [ErrPrecisionExceeded]
         else let quantity = (if dIsZero D quantity then dZero D else quantity)
           in bindR (ConvertAt D quantity (fr_Rate r) (cur_Exponent target) (fr_Rounding r)) (\<lambda>amount.
              andThen (ValidateAmountMagnitude D amount) (Inr amount))))"

section \<open>Rounding mode names\<close>

definition roundingModeNames :: "(RoundingMode \<times> string) list" where
  "roundingModeNames =
     [(RoundHalfUp, ''half_up''), (RoundHalfEven, ''half_even''), (RoundDown, ''down''),
      (RoundUp, ''up'')]"

definition RoundingMode_String :: "RoundingMode \<Rightarrow> string" where
  "RoundingMode_String m =
     (case map_of roundingModeNames m of
        Some name \<Rightarrow> name
      | None \<Rightarrow> ''rounding_mode('' @ int_String m @ '')'')"

definition ParseRoundingMode :: "string \<Rightarrow> RoundingMode result" where
  "ParseRoundingMode name =
     (case find (\<lambda>(mode, n). n = name) roundingModeNames of
        Some (mode, n) \<Rightarrow> Inr mode
      | None \<Rightarrow> invalid)"

definition RoundingMode_MarshalText :: "RoundingMode \<Rightarrow> string result" where
  "RoundingMode_MarshalText m =
     (case map_of roundingModeNames m of None \<Rightarrow> invalid | Some name \<Rightarrow> Inr name)"

definition RoundingMode_UnmarshalText :: "string \<Rightarrow> RoundingMode result" where
  "RoundingMode_UnmarshalText txt = bindR (ParseRoundingMode txt) Inr"

section \<open>Conversion quotes\<close>

record 'd ConversionQuote =
  cq_SourceCode :: string
  cq_TargetCode :: string
  cq_SourceExponent :: int
  cq_TargetExponent :: int
  cq_SourceQuantity :: 'd
  cq_TargetAmount :: 'd
  cq_Rate :: 'd
  cq_Version :: string
  cq_Rounding :: RoundingMode

definition bareCurrency :: "string \<Rightarrow> int \<Rightarrow> Currency" where
  "bareCurrency code exponent =
     \<lparr>cur_UID = [], cur_Code = code, cur_Name = [], cur_IsActive = False, cur_Exponent = exponent\<rparr>"

definition quoteRate :: "'d ConversionQuote \<Rightarrow> 'd FixedRate" where
  "quoteRate q =
     \<lparr>fr_SourceCode = cq_SourceCode q, fr_TargetCode = cq_TargetCode q, fr_Rate = cq_Rate q,
      fr_Version = cq_Version q, fr_Rounding = cq_Rounding q\<rparr>"

definition validateArithmetic :: "'d decimal_ops \<Rightarrow> 'd ConversionQuote \<Rightarrow> unit result" where
  "validateArithmetic D q =
     (case Convert D (quoteRate q) (cq_SourceQuantity q)
             (bareCurrency (cq_SourceCode q) (cq_SourceExponent q))
             (bareCurrency (cq_TargetCode q) (cq_TargetExponent q)) of
        Inl err \<Rightarrow> (if errors_is err ErrInvalidInput then Inl err else Inl (ErrInvalidInput # err))
      | Inr want \<Rightarrow> if \<not> dEqual D (cq_TargetAmount q) want then invalid else Inr ())"

text \<open>The loop over the three decimals is over a Go map; every order gives the same sentinel.\<close>

definition ConversionQuote_Validate :: "'d decimal_ops \<Rightarrow> 'd ConversionQuote \<Rightarrow> unit result" where
  "ConversionQuote_Validate D q =
     andThen (validateCurrencyCode (cq_SourceCode q))
     (andThen (validateCurrencyCode (cq_TargetCode q))
     (if cq_SourceCode q = cq_TargetCode q then invalid
      else andThen (validateQuoteVersion (cq_Version q))
        (if cq_SourceExponent q < 0 \<or> cq_SourceExponent q > MaxAmountFractionalDigits
            \<or> cq_TargetExponent q < 0 \<or> cq_TargetExponent q > MaxAmountFractionalDigits then invalid
         else bindR (ParseRoundingMode (RoundingMode_String (cq_Rounding q))) (\<lambda>_.
           if \<not> dIsPositive D (cq_Rate q) then invalid
           else if dIsNegative D (cq_SourceQuantity q) \<or> dIsNegative D (cq_TargetAmount q) then invalid
           else andThen (forEach (validateAmountIsRescalable D)
                  [cq_Rate q, cq_SourceQuantity q, cq_TargetAmount q])
                (validateArithmetic D q)))))"

definition Quote ::
  "'d decimal_ops \<Rightarrow> 'd FixedRate \<Rightarrow> 'd \<Rightarrow> Currency \<Rightarrow> Currency \<Rightarrow> 'd ConversionQuote result" where
  "Quote D r quantity source target =
     bindR (Convert D r quantity source target) (\<lambda>amount.
       Inr \<lparr>cq_SourceCode = cur_Code source, cq_TargetCode = cur_Code target,
            cq_SourceExponent = cur_Exponent source, cq_TargetExponent = cur_Exponent target,
            cq_SourceQuantity = quantity, cq_TargetAmount = amount, cq_Rate = fr_Rate r,
            cq_Version = fr_Version r, cq_Rounding = fr_Rounding r\<rparr>)"

section \<open>Quotes in journal metadata\<close>

text \<open>
  The JSON codec of a quote list: \<open>qjDecode\<close> is the strict \<^verbatim>\<open>Decoder.Decode(&quotes)\<close>,
  returning the list and the unread rest of the input; \<open>qjRaw\<close> reads the same text as a list of
  maps from field names to raw values; \<open>qjEncode\<close> is \<^verbatim>\<open>json.Marshal\<close>.
\<close>

record 'd quote_json =
  qjDecode :: "string \<Rightarrow> ('d ConversionQuote list \<times> string) option"
  qjRaw :: "string \<Rightarrow> (string \<times> string) list list option"
  qjEncode :: "'d ConversionQuote list \<Rightarrow> string option"

definition ConversionQuotesMetadataKey :: string where
  "ConversionQuotesMetadataKey = ''conversion_quotes''"

definition FundingUIDMetadataKey :: string where "FundingUIDMetadataKey = ''funding_uid''"

definition conversionQuoteDecimalFields :: "string list" where
  "conversionQuoteDecimalFields = [''source_quantity'', ''rate'', ''target_amount'']"

text \<open>A second \<^verbatim>\<open>Decode\<close> reports \<^verbatim>\<open>io.EOF\<close> when only JSON white space is left.\<close>

definition jsonEOF :: "string \<Rightarrow> bool" where
  "jsonEOF rest = list_all (\<lambda>c. of_char c \<in> set [32 :: int, 9, 10, 13]) rest"

text \<open>The left end of \<^verbatim>\<open>bytes.TrimSpace\<close>, which decides the first byte and emptiness.\<close>

function trimLeftSpace :: "string \<Rightarrow> string" where
  "trimLeftSpace [] = []"
| "trimLeftSpace (c # cs) =
     (case decodeRune (map of_char (c # cs)) of
        None \<Rightarrow> c # cs
      | Some (r, w) \<Rightarrow> if IsSpaceRune r then trimLeftSpace (drop (w - 1) cs) else c # cs)"
  by pat_completeness auto
termination
  by (relation "measure length") auto

definition requireStringDecimals :: "'d quote_json \<Rightarrow> string \<Rightarrow> unit result" where
  "requireStringDecimals J encoded =
     (case qjRaw J encoded of
        None \<Rightarrow> invalid
      | Some raw \<Rightarrow> forEach (\<lambda>q. forEach (\<lambda>field.
          case trimLeftSpace (case map_of q field of None \<Rightarrow> [] | Some v \<Rightarrow> v) of
            [] \<Rightarrow> invalid
          | b # _ \<Rightarrow> if of_char b \<noteq> (34 :: int) then invalid else Inr ())
          conversionQuoteDecimalFields) raw)"

definition EncodeConversionQuotes ::
  "'d decimal_ops \<Rightarrow> 'd quote_json \<Rightarrow> 'd ConversionQuote list \<Rightarrow> string result" where
  "EncodeConversionQuotes D J quotes =
     (if quotes = [] then invalid
      else andThen (forEach (ConversionQuote_Validate D) quotes)
        (case qjEncode J quotes of None \<Rightarrow> Inl [] | Some encoded \<Rightarrow> Inr encoded))"

definition DecodeConversionQuotes ::
  "'d decimal_ops \<Rightarrow> 'd quote_json \<Rightarrow> string \<Rightarrow> 'd ConversionQuote list result" where
  "DecodeConversionQuotes D J encoded =
     (if isBlank encoded then invalid
      else case qjDecode J encoded of
        None \<Rightarrow> invalid
      | Some (quotes, rest) \<Rightarrow>
          if \<not> jsonEOF rest then invalid
          else if quotes = [] then invalid
          else andThen (requireStringDecimals J encoded)
            (andThen (forEach (ConversionQuote_Validate D) quotes) (Inr quotes)))"

definition validateConversionQuotesMetadata ::
  "'d decimal_ops \<Rightarrow> 'd quote_json \<Rightarrow> metadata \<Rightarrow> unit result" where
  "validateConversionQuotesMetadata D J md =
     (case map_of md ConversionQuotesMetadataKey of
        None \<Rightarrow> Inr ()
      | Some encoded \<Rightarrow> bindR (DecodeConversionQuotes D J encoded) (\<lambda>_. Inr ()))"

section \<open>Lemmas\<close>

lemma roundingModeNames_map:
  "map_of roundingModeNames m =
     (if m = 0 then Some ''half_up'' else if m = 1 then Some ''half_even''
      else if m = 2 then Some ''down'' else if m = 3 then Some ''up'' else None)"
  by (simp add: roundingModeNames_def rounding_modes)

lemma ParseRoundingMode_names:
  "ParseRoundingMode name =
     (if name = ''half_up'' then Inr 0 else if name = ''half_even'' then Inr 1
      else if name = ''down'' then Inr 2 else if name = ''up'' then Inr 3 else invalid)"
  by (simp add: ParseRoundingMode_def roundingModeNames_def rounding_modes)

lemma ParseRoundingMode_String:
  "ParseRoundingMode (RoundingMode_String m) = (if 0 \<le> m \<and> m \<le> 3 then Inr m else invalid)"
proof -
  consider "m = 0" | "m = 1" | "m = 2" | "m = 3" | "m < 0 \<or> 3 < m" by linarith
  then show ?thesis
    by cases (auto simp: RoundingMode_String_def roundingModeNames_map ParseRoundingMode_names)
qed

lemma Convert_cong:
  assumes "cur_Code s = cur_Code s'" "cur_Exponent s = cur_Exponent s'"
    and "cur_Code t = cur_Code t'" "cur_Exponent t = cur_Exponent t'"
  shows "Convert D r q s t = Convert D r q s' t'"
  using assms by (simp add: Convert_def FixedRate_Validate_def)

context decimal_lib
begin

lemma FixedRate_Validate_Inr:
  "FixedRate_Validate D r s t = Inr () \<longleftrightarrow>
     validateCurrencyCode (fr_SourceCode r) = Inr () \<and> validateCurrencyCode (fr_TargetCode r) = Inr ()
     \<and> fr_SourceCode r \<noteq> fr_TargetCode r \<and> cur_Code s = fr_SourceCode r
     \<and> cur_Code t = fr_TargetCode r \<and> validateQuoteVersion (fr_Version r) = Inr ()
     \<and> 0 \<le> cur_Exponent s \<and> cur_Exponent s \<le> 18 \<and> 0 \<le> cur_Exponent t \<and> cur_Exponent t \<le> 18
     \<and> 0 \<le> fr_Rounding r \<and> fr_Rounding r \<le> 3
     \<and> 0 < dval D (fr_Rate r) \<and> validateAmountIsRescalable D (fr_Rate r) = Inr ()"
  unfolding FixedRate_Validate_def
  by (auto simp: rounding_modes amount_limits IsPositive)

lemma rescaled_nonneg: "0 \<le> v \<Longrightarrow> 0 \<le> rescaled (mode_rule mode) v p"
  by (simp add: rescaled_def mode_rule_nonneg less_imp_le)

lemma Convert_Inr:
  assumes "Convert D r q s t = Inr x"
  shows "FixedRate_Validate D r s t = Inr ()"
    and "0 \<le> dval D q" and "ValidateAmountMagnitude D q = Inr ()"
    and "\<exists>k. dval D q * 10 powi cur_Exponent s = of_int k"
    and "ValidateAmountMagnitude D x = Inr ()"
    and "dval D x = rescaled (mode_rule (fr_Rounding r)) (dval D q * dval D (fr_Rate r)) (cur_Exponent t)"
    and "0 \<le> dval D x"
proof -
  let ?q = "if dIsZero D q then dZero D else q"
  from assms have v: "FixedRate_Validate D r s t = Inr ()" and q0: "0 \<le> dval D q"
    and qm: "ValidateAmountMagnitude D q = Inr ()"
    and tr: "dEqual D q (dTruncate D q (cur_Exponent s))"
    and c: "ConvertAt D ?q (fr_Rate r) (cur_Exponent t) (fr_Rounding r) = Inr x"
    and xm: "ValidateAmountMagnitude D x = Inr ()"
    unfolding Convert_def Let_def by (auto simp: IsNegative)
  from v have e: "0 \<le> cur_Exponent s" and rate: "0 < dval D (fr_Rate r)"
    by (simp_all add: FixedRate_Validate_Inr)
  have "dval D ?q = dval D q" by (simp add: IsZero Zero)
  then have val: "dval D x
      = rescaled (mode_rule (fr_Rounding r)) (dval D q * dval D (fr_Rate r)) (cur_Exponent t)"
    using ConvertAt_val [OF c] by simp
  show "FixedRate_Validate D r s t = Inr ()" "0 \<le> dval D q" "ValidateAmountMagnitude D q = Inr ()"
    "ValidateAmountMagnitude D x = Inr ()" by fact+
  show "\<exists>k. dval D q * 10 powi cur_Exponent s = of_int k" using tr truncate_exact [OF e] by simp
  show "dval D x
      = rescaled (mode_rule (fr_Rounding r)) (dval D q * dval D (fr_Rate r)) (cur_Exponent t)" by fact
  show "0 \<le> dval D x" unfolding val using q0 rate by (intro rescaled_nonneg) simp
qed

lemma validateArithmetic_Inr:
  "validateArithmetic D q = Inr () \<longleftrightarrow>
     (\<exists>want. Convert D (quoteRate q) (cq_SourceQuantity q)
        (bareCurrency (cq_SourceCode q) (cq_SourceExponent q))
        (bareCurrency (cq_TargetCode q) (cq_TargetExponent q)) = Inr want
      \<and> dval D (cq_TargetAmount q) = dval D want)"
  unfolding validateArithmetic_def by (auto simp: Equal split: sum.splits)

lemma Quote_validates:
  assumes "Quote D r q s t = Inr cq"
  shows "ConversionQuote_Validate D cq = Inr ()"
proof -
  from assms obtain x where x: "Convert D r q s t = Inr x"
    and cq: "cq = \<lparr>cq_SourceCode = cur_Code s, cq_TargetCode = cur_Code t,
            cq_SourceExponent = cur_Exponent s, cq_TargetExponent = cur_Exponent t,
            cq_SourceQuantity = q, cq_TargetAmount = x, cq_Rate = fr_Rate r,
            cq_Version = fr_Version r, cq_Rounding = fr_Rounding r\<rparr>"
    by (auto simp: Quote_def)
  note c = Convert_Inr [OF x]
  have v: "validateCurrencyCode (cur_Code s) = Inr ()" "validateCurrencyCode (cur_Code t) = Inr ()"
    "cur_Code s \<noteq> cur_Code t" "fr_SourceCode r = cur_Code s" "fr_TargetCode r = cur_Code t"
    "validateQuoteVersion (fr_Version r) = Inr ()" "0 \<le> cur_Exponent s" "cur_Exponent s \<le> 18"
    "0 \<le> cur_Exponent t" "cur_Exponent t \<le> 18" "0 \<le> fr_Rounding r" "fr_Rounding r \<le> 3"
    "0 < dval D (fr_Rate r)" "validateAmountIsRescalable D (fr_Rate r) = Inr ()"
    using c(1) by (simp_all add: FixedRate_Validate_Inr)
  have rate: "quoteRate cq = r"
    by (simp add: quoteRate_def cq v(4) [symmetric] v(5) [symmetric])
  have again: "Convert D r q (bareCurrency (cur_Code s) (cur_Exponent s))
      (bareCurrency (cur_Code t) (cur_Exponent t)) = Inr x"
    unfolding x [symmetric] by (rule Convert_cong) (simp_all add: bareCurrency_def)
  have ar: "validateArithmetic D cq = Inr ()"
    unfolding validateArithmetic_Inr rate by (simp add: cq again)
  show ?thesis
    unfolding ConversionQuote_Validate_def
    using v c(2,7) ValidateAmountMagnitude_rescalable [OF c(3)]
      ValidateAmountMagnitude_rescalable [OF c(5)]
    by (simp add: ar) (simp add: cq amount_limits ParseRoundingMode_String IsPositive IsNegative)
qed

lemma ConversionQuote_Validate_sound:
  assumes "ConversionQuote_Validate D q = Inr ()"
  shows "dval D (cq_TargetAmount q)
       = rescaled (mode_rule (cq_Rounding q)) (dval D (cq_SourceQuantity q) * dval D (cq_Rate q))
           (cq_TargetExponent q)"
    and "storable (dval D (cq_TargetAmount q))"
    and "\<exists>k. dval D (cq_SourceQuantity q) * 10 powi cq_SourceExponent q = of_int k"
proof -
  from assms have "validateArithmetic D q = Inr ()"
    unfolding ConversionQuote_Validate_def by auto
  then obtain w where w: "Convert D (quoteRate q) (cq_SourceQuantity q)
        (bareCurrency (cq_SourceCode q) (cq_SourceExponent q))
        (bareCurrency (cq_TargetCode q) (cq_TargetExponent q)) = Inr w"
    and eq: "dval D (cq_TargetAmount q) = dval D w"
    by (auto simp: validateArithmetic_Inr)
  note c = Convert_Inr [OF w]
  from c(6) eq show "dval D (cq_TargetAmount q)
       = rescaled (mode_rule (cq_Rounding q)) (dval D (cq_SourceQuantity q) * dval D (cq_Rate q))
           (cq_TargetExponent q)"
    by (simp add: quoteRate_def bareCurrency_def)
  from c(5) eq show "storable (dval D (cq_TargetAmount q))"
    by (simp add: ValidateAmountMagnitude_storable)
  from c(4) show "\<exists>k. dval D (cq_SourceQuantity q) * 10 powi cq_SourceExponent q = of_int k"
    by (simp add: bareCurrency_def)
qed

end

section \<open>Properties\<close>

text \<open>C24. A quote produced by \<open>FixedRate.Quote\<close> always passes \<open>ConversionQuote.Validate\<close>,
  the check journal metadata goes through when it is written and read, and it records the amount
  \<open>Convert\<close> computed for the given units, exponents and rate.\<close>

theorem Quote_passes_Validate:
  assumes "decimal_lib D" and "Quote D r quantity source target = Inr q"
  shows "ConversionQuote_Validate D q = Inr ()
    \<and> Convert D r quantity source target = Inr (cq_TargetAmount q)
    \<and> cq_SourceExponent q = cur_Exponent source \<and> cq_TargetExponent q = cur_Exponent target"
  using decimal_lib.Quote_validates [OF assms] assms(2) by (auto simp: Quote_def)

theorem Quote_passes_Validate_witness:
  "ConversionQuote_Validate ref_decimal
     \<lparr>cq_SourceCode = ''USD'', cq_TargetCode = ''JPY'', cq_SourceExponent = 2, cq_TargetExponent = 0,
      cq_SourceQuantity = (1050, -2), cq_TargetAmount = (1581, 0), cq_Rate = (1505, -1),
      cq_Version = ''v1'', cq_Rounding = RoundUp\<rparr> = Inr ()"
proof -
  have run: "Quote ref_decimal
      \<lparr>fr_SourceCode = ''USD'', fr_TargetCode = ''JPY'', fr_Rate = (1505, -1), fr_Version = ''v1'',
       fr_Rounding = RoundUp\<rparr> (1050, -2) (bareCurrency ''USD'' 2) (bareCurrency ''JPY'' 0)
    = Inr \<lparr>cq_SourceCode = ''USD'', cq_TargetCode = ''JPY'', cq_SourceExponent = 2,
      cq_TargetExponent = 0, cq_SourceQuantity = (1050, -2), cq_TargetAmount = (1581, 0),
      cq_Rate = (1505, -1), cq_Version = ''v1'', cq_Rounding = RoundUp\<rparr>"
    by code_simp
  show ?thesis
    using Quote_passes_Validate [OF ref.decimal_lib_axioms run] by simp
qed

text \<open>C25. An accepted quote's numbers follow from its own rate: the target amount is the source
  quantity times the rate rounded by the quote's mode at the target exponent, it fits the storage
  column, and the source quantity is a whole number of source units.\<close>

theorem ConversionQuote_Validate_correct:
  assumes "decimal_lib D" and "ConversionQuote_Validate D q = Inr ()"
  shows "dval D (cq_TargetAmount q)
       = rescaled (mode_rule (cq_Rounding q)) (dval D (cq_SourceQuantity q) * dval D (cq_Rate q))
           (cq_TargetExponent q)
    \<and> storable (dval D (cq_TargetAmount q))
    \<and> (\<exists>k. dval D (cq_SourceQuantity q) * 10 powi cq_SourceExponent q = of_int k)"
  using decimal_lib.ConversionQuote_Validate_sound [OF assms] by simp

theorem ConversionQuote_Validate_correct_witness:
  "storable (dval ref_decimal (1000, 0)) \<and>
   ConversionQuote_Validate ref_decimal
     \<lparr>cq_SourceCode = ''A'', cq_TargetCode = ''B'', cq_SourceExponent = 0, cq_TargetExponent = 0,
      cq_SourceQuantity = (1, 0), cq_TargetAmount = (999999, 0), cq_Rate = (1000, 0),
      cq_Version = ''1'', cq_Rounding = RoundHalfUp\<rparr> = invalid"
proof -
  have ok: "ConversionQuote_Validate ref_decimal
     \<lparr>cq_SourceCode = ''A'', cq_TargetCode = ''B'', cq_SourceExponent = 0, cq_TargetExponent = 0,
      cq_SourceQuantity = (1, 0), cq_TargetAmount = (1000, 0), cq_Rate = (1000, 0),
      cq_Version = ''1'', cq_Rounding = RoundHalfUp\<rparr> = Inr ()"
    by code_simp
  have bad: "ConversionQuote_Validate ref_decimal
     \<lparr>cq_SourceCode = ''A'', cq_TargetCode = ''B'', cq_SourceExponent = 0, cq_TargetExponent = 0,
      cq_SourceQuantity = (1, 0), cq_TargetAmount = (999999, 0), cq_Rate = (1000, 0),
      cq_Version = ''1'', cq_Rounding = RoundHalfUp\<rparr> = invalid"
    by code_simp
  show ?thesis
    using ConversionQuote_Validate_correct [OF ref.decimal_lib_axioms ok] bad by simp
qed

end
