(* ===== verification/Journal.thy ===== *)
theory Journal
  imports Conversion "HOL-Library.AList" "HOL-Library.List_Lexorder" "HOL-Library.Char_ord"
begin

text \<open>
  Journals and templates: \<^verbatim>\<open>core/journal.go\<close> and \<^verbatim>\<open>core/template.go\<close>. A journal input is
  accepted exactly when its debits and credits balance in every currency; a rendered template is such
  an input with every line on the holder's or on the mirrored system account.
\<close>

section \<open>Journal inputs\<close>

record 'd EntryInput =
  ei_AccountHolder :: int
  ei_CurrencyUID :: string
  ei_ClassificationUID :: string
  ei_EntryType :: EntryType
  ei_Amount :: 'd

record 'd JournalInput =
  ji_JournalTypeUID :: string
  ji_IdempotencyKey :: string
  ji_Entries :: "'d EntryInput list"
  ji_Metadata :: metadata
  ji_ActorID :: int
  ji_Source :: string
  ji_ReversalOfUID :: string
  ji_EventUID :: string
  ji_EffectiveAt :: gotime

definition effectiveAtFutureTolerance :: duration where
  "effectiveAtFutureTolerance = 5 * minute"

record 'd currencyTotals =
  ct_debit :: 'd
  ct_credit :: 'd

text \<open>One turn of the summing loops: a switch on the entry type with no default.\<close>

definition addSide ::
  "'d decimal_ops \<Rightarrow> 'd currencyTotals \<Rightarrow> 'd EntryInput \<Rightarrow> 'd currencyTotals" where
  "addSide D cur e =
     (if ei_EntryType e = EntryTypeDebit
      then cur\<lparr>ct_debit := dAdd D (ct_debit cur) (ei_Amount e)\<rparr>
      else if ei_EntryType e = EntryTypeCredit
      then cur\<lparr>ct_credit := dAdd D (ct_credit cur) (ei_Amount e)\<rparr>
      else cur)"

definition zeroTotals :: "'d decimal_ops \<Rightarrow> 'd currencyTotals" where
  "zeroTotals D = \<lparr>ct_debit = dZero D, ct_credit = dZero D\<rparr>"

definition Totals :: "'d decimal_ops \<Rightarrow> 'd JournalInput \<Rightarrow> 'd \<times> 'd" where
  "Totals D j =
     (let t = fold (\<lambda>e cur. addSide D cur e) (ji_Entries j) (zeroTotals D)
      in (ct_debit t, ct_credit t))"

definition totalsStep ::
  "'d decimal_ops \<Rightarrow> 'd EntryInput \<Rightarrow> (string \<times> 'd currencyTotals) list
    \<Rightarrow> (string \<times> 'd currencyTotals) list" where
  "totalsStep D e totals =
     (let current = (case map_of totals (ei_CurrencyUID e) of None \<Rightarrow> zeroTotals D | Some c \<Rightarrow> c)
      in AList.update (ei_CurrencyUID e) (addSide D current e) totals)"

definition totalsByCurrency ::
  "'d decimal_ops \<Rightarrow> 'd JournalInput \<Rightarrow> (string \<times> 'd currencyTotals) list" where
  "totalsByCurrency D j = fold (totalsStep D) (ji_Entries j) []"

definition validateEntry :: "'d decimal_ops \<Rightarrow> 'd EntryInput \<Rightarrow> unit result" where
  "validateEntry D e =
     andThen (ValidateAmountMagnitude D (ei_Amount e))
     (if ei_AccountHolder e = 0 then invalid
      else if \<not> EntryType_IsValid (ei_EntryType e) then invalid
      else if ei_CurrencyUID e = [] then invalid
      else if ei_ClassificationUID e = [] then invalid
      else if \<not> dIsPositive D (ei_Amount e) then invalid
      else Inr ())"

definition JournalInput_Validate ::
  "'d decimal_ops \<Rightarrow> 'd quote_json \<Rightarrow> gotime \<Rightarrow> 'd JournalInput \<Rightarrow> unit result" where
  "JournalInput_Validate D J now j =
     (if ji_IdempotencyKey j = [] then invalid
      else andThen (validateFreeformFields (ji_Source j) (ji_Metadata j))
      (andThen (validateConversionQuotesMetadata D J (ji_Metadata j))
      (if ji_Entries j = [] then invalid
       else if \<not> IsZeroTime (ji_EffectiveAt j)
               \<and> ji_EffectiveAt j > now + effectiveAtFutureTolerance then invalid
       else andThen (forEach (validateEntry D) (ji_Entries j))
         (let totals = totalsByCurrency D j
          in forEach (\<lambda>currencyUID.
               case map_of totals currencyUID of
                 None \<Rightarrow> Inr ()
               | Some t \<Rightarrow>
                   if \<not> dEqual D (ct_debit t) (ct_credit t) then Inl [ErrUnbalancedJournal]
                   else Inr ())
             (sort (map fst totals))))))"

section \<open>Templates\<close>

type_synonym HolderRole = string

definition HolderRoleUser :: HolderRole where "HolderRoleUser = ''user''"
definition HolderRoleSystem :: HolderRole where "HolderRoleSystem = ''system''"

lemmas holder_roles = HolderRoleUser_def HolderRoleSystem_def

definition HolderRole_IsValid :: "HolderRole \<Rightarrow> bool" where
  "HolderRole_IsValid r \<longleftrightarrow> r = HolderRoleUser \<or> r = HolderRoleSystem"

record EntryTemplateLine =
  tl_ClassificationUID :: string
  tl_EntryType :: EntryType
  tl_HolderRole :: HolderRole
  tl_AmountKey :: string
  tl_SortOrder :: int

record EntryTemplate =
  tm_UID :: string
  tm_Code :: string
  tm_Name :: string
  tm_JournalTypeUID :: string
  tm_IsActive :: bool
  tm_Lines :: "EntryTemplateLine list"
  tm_CreatedAt :: gotime

record 'd TemplateParams =
  tp_HolderID :: int
  tp_CurrencyUID :: string
  tp_IdempotencyKey :: string
  tp_EventUID :: string
  tp_Amounts :: "(string \<times> 'd) list"
  tp_ActorID :: int
  tp_Source :: string
  tp_Metadata :: metadata
  tp_EffectiveAt :: gotime

record TemplateInput =
  ti_Code :: string
  ti_Name :: string
  ti_JournalTypeUID :: string
  ti_Lines :: "EntryTemplateLine list"

definition validateTemplateLine :: "EntryTemplateLine \<Rightarrow> unit result" where
  "validateTemplateLine l =
     (if tl_ClassificationUID l = [] then invalid
      else if \<not> EntryType_IsValid (tl_EntryType l) then invalid
      else if \<not> HolderRole_IsValid (tl_HolderRole l) then invalid
      else if tl_AmountKey l = [] then invalid
      else Inr ())"

definition TemplateInput_Validate :: "TemplateInput \<Rightarrow> unit result" where
  "TemplateInput_Validate t =
     (if ti_Code t = [] then invalid
      else if ti_Name t = [] then invalid
      else if ti_JournalTypeUID t = [] then invalid
      else if ti_Lines t = [] then invalid
      else forEach validateTemplateLine (ti_Lines t))"

definition validateDefinition :: "EntryTemplate \<Rightarrow> unit result" where
  "validateDefinition t =
     (if tm_Code t = [] then invalid
      else if tm_Name t = [] then invalid
      else if tm_JournalTypeUID t = [] then invalid
      else if tm_Lines t = [] then invalid
      else forEach validateTemplateLine (tm_Lines t))"

definition renderLine ::
  "'d TemplateParams \<Rightarrow> EntryTemplateLine \<Rightarrow> 'd EntryInput result" where
  "renderLine params line =
     (case map_of (tp_Amounts params) (tl_AmountKey line) of
        None \<Rightarrow> invalid
      | Some amount \<Rightarrow>
          bindR (if tl_HolderRole line = HolderRoleUser then Inr (tp_HolderID params)
                 else if tl_HolderRole line = HolderRoleSystem
                 then Inr (SystemAccountHolder (tp_HolderID params))
                 else invalid)
          (\<lambda>holder. Inr \<lparr>ei_AccountHolder = holder, ei_CurrencyUID = tp_CurrencyUID params,
             ei_ClassificationUID = tl_ClassificationUID line, ei_EntryType = tl_EntryType line,
             ei_Amount = amount\<rparr>))"

definition Render ::
  "'d decimal_ops \<Rightarrow> 'd quote_json \<Rightarrow> gotime \<Rightarrow> EntryTemplate \<Rightarrow> 'd TemplateParams
    \<Rightarrow> 'd JournalInput result" where
  "Render D J now t params =
     (if \<not> tm_IsActive t then invalid
      else andThen (validateDefinition t)
      (if tp_HolderID params \<le> 0 then invalid
       else bindR (mapR (renderLine params) (tm_Lines t)) (\<lambda>entries.
         let input = \<lparr>ji_JournalTypeUID = tm_JournalTypeUID t,
               ji_IdempotencyKey = tp_IdempotencyKey params, ji_Entries = entries,
               ji_Metadata = tp_Metadata params, ji_ActorID = tp_ActorID params,
               ji_Source = tp_Source params, ji_ReversalOfUID = [],
               ji_EventUID = tp_EventUID params, ji_EffectiveAt = tp_EffectiveAt params\<rparr>
         in andThen (JournalInput_Validate D J now input) (Inr input))))"

section \<open>Lemmas on the per-currency totals\<close>

definition side_sum :: "'d decimal_ops \<Rightarrow> EntryType \<Rightarrow> string \<Rightarrow> 'd EntryInput list \<Rightarrow> rat" where
  "side_sum D side c es =
     (\<Sum>e\<leftarrow>es. if ei_CurrencyUID e = c \<and> ei_EntryType e = side then dval D (ei_Amount e) else 0)"

definition balanced :: "'d decimal_ops \<Rightarrow> 'd EntryInput list \<Rightarrow> bool" where
  "balanced D es \<longleftrightarrow> (\<forall>c. side_sum D EntryTypeDebit c es = side_sum D EntryTypeCredit c es)"

lemma side_sum_simps [simp]:
  "side_sum D side c [] = 0"
  "side_sum D side c (e # es) =
     (if ei_CurrencyUID e = c \<and> ei_EntryType e = side then dval D (ei_Amount e) else 0)
     + side_sum D side c es"
  by (simp_all add: side_sum_def)

lemma side_sum_append [simp]:
  "side_sum D side c (es @ fs) = side_sum D side c es + side_sum D side c fs"
  by (simp add: side_sum_def)

lemma side_sum_absent:
  "c \<notin> ei_CurrencyUID ` set es \<Longrightarrow> side_sum D side c es = 0"
  by (induction es) auto

lemma side_sum_permute: "mset es = mset fs \<Longrightarrow> side_sum D side c es = side_sum D side c fs"
  unfolding side_sum_def by (rule sum_list_map_permute)

lemma map_of_totalsStep:
  "map_of (totalsStep D e totals) =
     (map_of totals)(ei_CurrencyUID e \<mapsto>
        addSide D (case map_of totals (ei_CurrencyUID e) of None \<Rightarrow> zeroTotals D | Some c \<Rightarrow> c) e)"
  by (simp add: totalsStep_def Let_def update_conv')

lemma dom_totals:
  "fst ` set (fold (totalsStep D) es totals) = fst ` set totals \<union> ei_CurrencyUID ` set es"
proof (induction es arbitrary: totals)
  case (Cons e es)
  have "fst ` set (totalsStep D e totals) = insert (ei_CurrencyUID e) (fst ` set totals)"
    by (simp add: totalsStep_def Let_def dom_update)
  with Cons show ?case by auto
qed simp

definition tot_of ::
  "'d decimal_ops \<Rightarrow> (string \<times> 'd currencyTotals) list \<Rightarrow> string \<Rightarrow> rat \<times> rat" where
  "tot_of D totals c =
     (case map_of totals c of None \<Rightarrow> (0, 0)
      | Some t \<Rightarrow> (dval D (ct_debit t), dval D (ct_credit t)))"

context decimal_lib
begin

lemma addSide_val:
  "dval D (ct_debit (addSide D t e)) = dval D (ct_debit t)
     + (if ei_EntryType e = EntryTypeDebit then dval D (ei_Amount e) else 0)"
  "dval D (ct_credit (addSide D t e)) = dval D (ct_credit t)
     + (if ei_EntryType e = EntryTypeCredit then dval D (ei_Amount e) else 0)"
  by (simp_all add: addSide_def Add side_names)

lemma tot_of_fold:
  "tot_of D (fold (totalsStep D) es totals) c =
     (fst (tot_of D totals c) + side_sum D EntryTypeDebit c es,
      snd (tot_of D totals c) + side_sum D EntryTypeCredit c es)"
proof (induction es arbitrary: totals)
  case (Cons e es)
  have "tot_of D (totalsStep D e totals) c =
      (fst (tot_of D totals c) + side_sum D EntryTypeDebit c [e],
       snd (tot_of D totals c) + side_sum D EntryTypeCredit c [e])"
    by (auto simp: tot_of_def map_of_totalsStep addSide_val zeroTotals_def Zero split: option.split)
  with Cons show ?case by simp
qed simp

lemma totals_balanced:
  "(\<forall>c\<in>fst ` set (totalsByCurrency D j). \<forall>t. map_of (totalsByCurrency D j) c = Some t \<longrightarrow>
       dEqual D (ct_debit t) (ct_credit t)) \<longleftrightarrow> balanced D (ji_Entries j)"
proof -
  have eq: "(case map_of (totalsByCurrency D j) c of None \<Rightarrow> True
        | Some t \<Rightarrow> dEqual D (ct_debit t) (ct_credit t))
      \<longleftrightarrow> side_sum D EntryTypeDebit c (ji_Entries j) = side_sum D EntryTypeCredit c (ji_Entries j)" for c
    using tot_of_fold [of "ji_Entries j" "[]" c]
    by (auto simp: totalsByCurrency_def tot_of_def Equal split: option.splits)
  show ?thesis
    unfolding balanced_def eq [symmetric]
    by (auto split: option.splits dest: map_of_SomeD) (metis fst_conv imageI map_of_SomeD)
qed

lemma validateEntry_Inr:
  "validateEntry D e = Inr () \<longleftrightarrow>
     - 18 \<le> dExponent D (ei_Amount e) \<and> 0 < dval D (ei_Amount e) \<and> dval D (ei_Amount e) < 10 ^ 12
     \<and> ei_AccountHolder e \<noteq> 0 \<and> EntryType_IsValid (ei_EntryType e)
     \<and> ei_CurrencyUID e \<noteq> [] \<and> ei_ClassificationUID e \<noteq> []"
proof (cases "0 < dval D (ei_Amount e)")
  case True
  then have "ValidateAmountMagnitude D (ei_Amount e) = Inr () \<longleftrightarrow>
      - 18 \<le> dExponent D (ei_Amount e) \<and> dval D (ei_Amount e) < 10 ^ 12"
    by (subst ValidateAmountMagnitude_iff) simp_all
  with True show ?thesis by (auto simp: validateEntry_def IsPositive)
next
  case False
  then show ?thesis by (simp add: validateEntry_def IsPositive)
qed

lemma balance_check:
  "(let totals = totalsByCurrency D j
    in forEach (\<lambda>c. case map_of totals c of None \<Rightarrow> Inr ()
         | Some t \<Rightarrow> if \<not> dEqual D (ct_debit t) (ct_credit t) then Inl e else Inr ())
       (sort (map fst totals))) = (if balanced D (ji_Entries j) then Inr () else Inl e)"
proof -
  let ?f = "\<lambda>c. case map_of (totalsByCurrency D j) c of None \<Rightarrow> Inr ()
         | Some t \<Rightarrow> if \<not> dEqual D (ct_debit t) (ct_credit t) then Inl e else Inr ()"
  have one: "?f c = Inr () \<or> ?f c = Inl e" for c
    by (cases "map_of (totalsByCurrency D j) c") auto
  have any: "forEach ?f cs = Inr () \<or> forEach ?f cs = Inl e" for cs
  proof (induction cs)
    case (Cons c cs)
    show ?case using one [of c] Cons by (auto simp del: forEach_Inr)
  qed simp
  have ok: "?f c = Inr () \<longleftrightarrow> (\<forall>t. map_of (totalsByCurrency D j) c = Some t \<longrightarrow>
      dEqual D (ct_debit t) (ct_credit t))" for c
    by (cases "map_of (totalsByCurrency D j) c") auto
  have "forEach ?f (sort (map fst (totalsByCurrency D j))) = Inr () \<longleftrightarrow> balanced D (ji_Entries j)"
    unfolding forEach_Inr ok by (simp only: set_sort set_map totals_balanced)
  with any [of "sort (map fst (totalsByCurrency D j))"] show ?thesis
    unfolding Let_def by (cases "balanced D (ji_Entries j)") (simp_all only: if_True if_False simp_thms)
qed

lemma JournalInput_Validate_unfold:
  "JournalInput_Validate D J now j =
     (if ji_IdempotencyKey j = [] then invalid
      else andThen (validateFreeformFields (ji_Source j) (ji_Metadata j))
      (andThen (validateConversionQuotesMetadata D J (ji_Metadata j))
      (if ji_Entries j = [] then invalid
       else if \<not> IsZeroTime (ji_EffectiveAt j)
               \<and> ji_EffectiveAt j > now + effectiveAtFutureTolerance then invalid
       else andThen (forEach (validateEntry D) (ji_Entries j))
         (if balanced D (ji_Entries j) then Inr () else Inl [ErrUnbalancedJournal]))))"
  unfolding JournalInput_Validate_def balance_check ..

end

text \<open>What a journal input has to satisfy besides the balance of its entries.\<close>

definition well_formed ::
  "'d decimal_ops \<Rightarrow> 'd quote_json \<Rightarrow> gotime \<Rightarrow> 'd JournalInput \<Rightarrow> bool" where
  "well_formed D J now j \<longleftrightarrow>
     ji_IdempotencyKey j \<noteq> []
     \<and> validateFreeformFields (ji_Source j) (ji_Metadata j) = Inr ()
     \<and> validateConversionQuotesMetadata D J (ji_Metadata j) = Inr ()
     \<and> ji_Entries j \<noteq> []
     \<and> (IsZeroTime (ji_EffectiveAt j) \<or> ji_EffectiveAt j \<le> now + effectiveAtFutureTolerance)
     \<and> (\<forall>e\<in>set (ji_Entries j). validateEntry D e = Inr ())"

lemma only_invalid_metadataTotal [only_invalid_intros]: "only_invalid (metadataTotal n md)"
  by (induction n md rule: metadataTotal.induct) (simp_all add: only_invalid_def)

lemma only_invalid_validateFreeformFields [only_invalid_intros]:
  "only_invalid (validateFreeformFields src md)"
  unfolding validateFreeformFields_def
  by (intro only_invalid_rules only_invalid_intros) simp_all

lemma only_invalid_magnitude [only_invalid_intros]: "only_invalid (ValidateAmountMagnitude D a)"
  by (simp add: ValidateAmountMagnitude_def Let_def only_invalid_if)

lemma only_invalid_rescalable [only_invalid_intros]: "only_invalid (validateAmountIsRescalable D a)"
  by (simp add: validateAmountIsRescalable_def Let_def only_invalid_if)

lemma only_invalid_validateEntry [only_invalid_intros]: "only_invalid (validateEntry D e)"
  unfolding validateEntry_def by (intro only_invalid_rules only_invalid_intros) simp_all

lemma only_invalid_currency [only_invalid_intros]: "only_invalid (validateCurrencyCode c)"
  unfolding validateCurrencyCode_def by (intro only_invalid_rules) simp_all

lemma only_invalid_version [only_invalid_intros]: "only_invalid (validateQuoteVersion c)"
  unfolding validateQuoteVersion_def by (intro only_invalid_rules) simp_all

lemma only_invalid_arithmetic [only_invalid_intros]: "only_invalid (validateArithmetic D q)"
  by (auto simp: validateArithmetic_def only_invalid_def errors_is_def split: sum.split)

lemma only_invalid_parse [only_invalid_intros]: "only_invalid (ParseRoundingMode n)"
  by (simp add: ParseRoundingMode_names)

lemma only_invalid_quote [only_invalid_intros]: "only_invalid (ConversionQuote_Validate D q)"
  unfolding ConversionQuote_Validate_def
  by (intro only_invalid_rules only_invalid_intros) simp_all

lemma only_invalid_requireStringDecimals [only_invalid_intros]:
  "only_invalid (requireStringDecimals J s)"
proof -
  have "only_invalid (case v :: string of [] \<Rightarrow> invalid
      | b # _ \<Rightarrow> if of_char b \<noteq> (34 :: int) then invalid else Inr ())" for v
    by (cases v) simp_all
  then show ?thesis
    unfolding requireStringDecimals_def by (intro only_invalid_rules) simp_all
qed

lemma only_invalid_decode [only_invalid_intros]: "only_invalid (DecodeConversionQuotes D J s)"
  unfolding DecodeConversionQuotes_def
  by (intro only_invalid_rules only_invalid_invalid, clarsimp split: prod.split)
    (intro conjI impI only_invalid_rules only_invalid_intros only_invalid_Inr)

lemma only_invalid_quotes_metadata [only_invalid_intros]:
  "only_invalid (validateConversionQuotesMetadata D J md)"
  unfolding validateConversionQuotesMetadata_def
  by (intro only_invalid_rules only_invalid_intros) simp_all

lemma only_invalid_neq:
  assumes "only_invalid m" "ErrInvalidInput \<notin> set e"
  shows "m \<noteq> Inl e"
  using assms by (auto simp: only_invalid_def)

context decimal_lib
begin

lemma JournalInput_Validate_Inr:
  "JournalInput_Validate D J now j = Inr () \<longleftrightarrow> well_formed D J now j \<and> balanced D (ji_Entries j)"
  unfolding JournalInput_Validate_unfold well_formed_def guard_Inr andThen_Inr forEach_Inr
  by auto

lemma JournalInput_Validate_unbalanced:
  "JournalInput_Validate D J now j = Inl [ErrUnbalancedJournal] \<longleftrightarrow>
     well_formed D J now j \<and> \<not> balanced D (ji_Entries j)"
proof -
  have n: "m \<noteq> Inl [ErrUnbalancedJournal]" if "only_invalid m" for m :: "unit result"
    using that by (rule only_invalid_neq) simp
  have fe: "forEach (validateEntry D) es \<noteq> Inl [ErrUnbalancedJournal]" for es
    by (rule n) (intro only_invalid_forEach only_invalid_intros)
  show ?thesis
    unfolding JournalInput_Validate_unfold well_formed_def
    by (auto simp: andThen_Inl fe n only_invalid_validateFreeformFields
          only_invalid_quotes_metadata)
qed

end

section \<open>Rendering\<close>

lemma renderLine_Inr:
  assumes "renderLine params line = Inr e"
  shows "map_of (tp_Amounts params) (tl_AmountKey line) = Some (ei_Amount e)"
    and "ei_CurrencyUID e = tp_CurrencyUID params"
    and "ei_ClassificationUID e = tl_ClassificationUID line"
    and "ei_EntryType e = tl_EntryType line"
    and "ei_AccountHolder e = (if tl_HolderRole line = HolderRoleUser then tp_HolderID params
           else SystemAccountHolder (tp_HolderID params))"
    and "HolderRole_IsValid (tl_HolderRole line)"
  using assms
  by (auto simp: renderLine_def HolderRole_IsValid_def holder_roles split: option.splits if_splits)

lemma renderLine_ok:
  assumes "map_of (tp_Amounts params) (tl_AmountKey line) = Some a"
    and "HolderRole_IsValid (tl_HolderRole line)"
  shows "\<exists>e. renderLine params line = Inr e"
  using assms by (auto simp: renderLine_def HolderRole_IsValid_def)

lemma SystemAccountHolder_user:
  assumes "is_int64 h" "0 < h"
  shows "SystemAccountHolder h = - h"
  using assms by (simp add: SystemAccountHolder_def wrap64_neg int64_min_def)

lemma Render_Inr:
  assumes "Render D J now t params = Inr j"
  shows "JournalInput_Validate D J now j = Inr ()"
    and "mapR (renderLine params) (tm_Lines t) = Inr (ji_Entries j)"
    and "0 < tp_HolderID params" and "tm_IsActive t" and "validateDefinition t = Inr ()"
    and "ji_JournalTypeUID j = tm_JournalTypeUID t"
    and "ji_IdempotencyKey j = tp_IdempotencyKey params"
  using assms by (auto simp: Render_def Let_def)

text \<open>The amount keys of a template's lines on one side, and what makes a template balanced whatever
  amounts it is given.\<close>

definition side_keys :: "EntryType \<Rightarrow> EntryTemplateLine list \<Rightarrow> string list" where
  "side_keys side ls = map tl_AmountKey (filter (\<lambda>l. tl_EntryType l = side) ls)"

definition keys_balanced :: "EntryTemplateLine list \<Rightarrow> bool" where
  "keys_balanced ls \<longleftrightarrow> sort (side_keys EntryTypeDebit ls) = sort (side_keys EntryTypeCredit ls)"

lemma render_side_sum:
  assumes "list_all2 (\<lambda>l e. renderLine params l = Inr e) ls es"
  shows "side_sum D side c es =
    (if tp_CurrencyUID params = c
     then sum_list (map (\<lambda>k. dval D (the (map_of (tp_Amounts params) k))) (side_keys side ls)) else 0)"
  using assms
proof (induction ls es rule: list_all2_induct)
  case (Cons l ls e es)
  note r = renderLine_Inr [OF Cons(1)]
  show ?case using Cons(3) r(1,2,4) by (simp add: side_keys_def)
qed (simp add: side_keys_def)

lemma keys_balanced_render:
  assumes "keys_balanced ls" "list_all2 (\<lambda>l e. renderLine params l = Inr e) ls es"
  shows "balanced D es"
proof -
  have "mset (side_keys EntryTypeDebit ls) = mset (side_keys EntryTypeCredit ls)"
    using assms(1) unfolding keys_balanced_def by (metis mset_sort)
  then show ?thesis
    unfolding balanced_def render_side_sum [OF assms(2)] by (auto intro: sum_list_map_permute)
qed

lemma rendered_entry_valid:
  assumes "decimal_lib D" and "renderLine params l = Inr e" and "validateTemplateLine l = Inr ()"
    and "0 < tp_HolderID params" "is_int64 (tp_HolderID params)" "tp_CurrencyUID params \<noteq> []"
    and "- 18 \<le> dExponent D (ei_Amount e)" "0 < dval D (ei_Amount e)" "dval D (ei_Amount e) < 10 ^ 12"
  shows "validateEntry D e = Inr ()"
proof -
  have "SystemAccountHolder (tp_HolderID params) \<noteq> 0"
    using assms(4,5) by (simp add: SystemAccountHolder_user)
  with renderLine_Inr [OF assms(2)] assms(3-9) show ?thesis
    unfolding decimal_lib.validateEntry_Inr [OF assms(1)] by (simp add: validateTemplateLine_def)
qed

section \<open>Properties\<close>

text \<open>C26. Double entry: a journal input is accepted exactly when it has a key, bounded free-form
  fields, decodable quotes, an effective date no more than five minutes ahead, entries with a holder, a
  side, a currency, a classification and a positive storable amount, and the debits equal the
  credits in every currency; and the balance error is reported exactly when only the balance fails.\<close>

theorem JournalInput_Validate_iff:
  assumes "decimal_lib D"
  shows "(JournalInput_Validate D J now j = Inr () \<longleftrightarrow>
            well_formed D J now j
            \<and> (\<forall>c. side_sum D EntryTypeDebit c (ji_Entries j) = side_sum D EntryTypeCredit c (ji_Entries j)))
    \<and> (JournalInput_Validate D J now j = Inl [ErrUnbalancedJournal] \<longleftrightarrow>
            well_formed D J now j
            \<and> (\<exists>c. side_sum D EntryTypeDebit c (ji_Entries j) \<noteq> side_sum D EntryTypeCredit c (ji_Entries j)))"
  using decimal_lib.JournalInput_Validate_Inr [OF assms, of J now j]
    decimal_lib.JournalInput_Validate_unbalanced [OF assms, of J now j]
  by (simp add: balanced_def)

definition sample_entry :: "int \<Rightarrow> EntryType \<Rightarrow> 'd \<Rightarrow> 'd EntryInput" where
  "sample_entry h side a = \<lparr>ei_AccountHolder = h, ei_CurrencyUID = ''usd'',
     ei_ClassificationUID = ''wallet'', ei_EntryType = side, ei_Amount = a\<rparr>"

definition sample_journal :: "'d EntryInput list \<Rightarrow> 'd JournalInput" where
  "sample_journal es = \<lparr>ji_JournalTypeUID = ''t'', ji_IdempotencyKey = ''k'', ji_Entries = es,
     ji_Metadata = [(''memo'', ''rent'')], ji_ActorID = 1, ji_Source = ''api'', ji_ReversalOfUID = [],
     ji_EventUID = [], ji_EffectiveAt = 0\<rparr>"

definition no_json :: "'d quote_json" where
  "no_json = \<lparr>qjDecode = (\<lambda>_. None), qjRaw = (\<lambda>_. None), qjEncode = (\<lambda>_. None)\<rparr>"

theorem JournalInput_Validate_iff_witness:
  "JournalInput_Validate ref_decimal no_json 0 (sample_journal
     [sample_entry 7 EntryTypeDebit (150, -1), sample_entry (- 7) EntryTypeCredit (15, 0)]) = Inr ()
   \<and> side_sum ref_decimal EntryTypeDebit ''usd''
       [sample_entry 7 EntryTypeDebit (150, -1), sample_entry (- 7) EntryTypeCredit (15, 0)] = 15"
proof -
  have run: "JournalInput_Validate ref_decimal no_json 0 (sample_journal
     [sample_entry 7 EntryTypeDebit (150, -1), sample_entry (- 7) EntryTypeCredit (15, 0)]) = Inr ()"
    by code_simp
  have "side_sum ref_decimal EntryTypeDebit ''usd''
       [sample_entry 7 EntryTypeDebit (150, -1), sample_entry (- 7) EntryTypeCredit (15, 0)]
     = side_sum ref_decimal EntryTypeCredit ''usd''
       [sample_entry 7 EntryTypeDebit (150, -1), sample_entry (- 7) EntryTypeCredit (15, 0)]"
    using run JournalInput_Validate_iff [OF ref.decimal_lib_axioms, of no_json 0 "sample_journal
     [sample_entry 7 EntryTypeDebit (150, -1), sample_entry (- 7) EntryTypeCredit (15, 0)]"]
    by (simp add: sample_journal_def)
  then show ?thesis
    using run by (simp add: sample_entry_def side_names dval_ref ce_val_def)
qed

text \<open>C27. A rendered template is an accepted journal with one entry per line, in order: the line's
  classification and side, the amount found under its key, and the holder itself for a user line or
  its negated system mirror for a system line, never another account.\<close>

theorem Render_correct:
  assumes "Render D J now t params = Inr j" and "is_int64 (tp_HolderID params)"
  shows "JournalInput_Validate D J now j = Inr ()
    \<and> length (ji_Entries j) = length (tm_Lines t)
    \<and> (\<forall>i<length (tm_Lines t). let e = ji_Entries j ! i; l = tm_Lines t ! i in
         map_of (tp_Amounts params) (tl_AmountKey l) = Some (ei_Amount e)
         \<and> ei_ClassificationUID e = tl_ClassificationUID l \<and> ei_EntryType e = tl_EntryType l
         \<and> ei_CurrencyUID e = tp_CurrencyUID params
         \<and> (if tl_HolderRole l = HolderRoleUser
             then ei_AccountHolder e = tp_HolderID params \<and> IsUserAccount (ei_AccountHolder e)
             else ei_AccountHolder e = - tp_HolderID params \<and> IsSystemAccount (ei_AccountHolder e)))"
proof -
  note r = Render_Inr [OF assms(1)]
  from r(2) have l2: "list_all2 (\<lambda>l e. renderLine params l = Inr e) (tm_Lines t) (ji_Entries j)"
    by (simp add: mapR_Inr)
  have "SystemAccountHolder (tp_HolderID params) = - tp_HolderID params"
    using assms(2) r(3) by (rule SystemAccountHolder_user)
  then show ?thesis
    using r(1,3) list_all2_lengthD [OF l2] renderLine_Inr [OF list_all2_nthD [OF l2]]
    by (simp add: Let_def IsUserAccount_def IsSystemAccount_def)
qed

definition sample_template :: EntryTemplate where
  "sample_template = \<lparr>tm_UID = ''u'', tm_Code = ''c'', tm_Name = ''n'', tm_JournalTypeUID = ''jt'',
     tm_IsActive = True, tm_Lines =
       [\<lparr>tl_ClassificationUID = ''wallet'', tl_EntryType = EntryTypeDebit,
         tl_HolderRole = HolderRoleUser, tl_AmountKey = ''amount'', tl_SortOrder = 1\<rparr>,
        \<lparr>tl_ClassificationUID = ''custodial'', tl_EntryType = EntryTypeCredit,
         tl_HolderRole = HolderRoleSystem, tl_AmountKey = ''amount'', tl_SortOrder = 2\<rparr>],
     tm_CreatedAt = 0\<rparr>"

definition sample_params :: "(int \<times> int) TemplateParams" where
  "sample_params = \<lparr>tp_HolderID = 42, tp_CurrencyUID = ''usd'', tp_IdempotencyKey = ''k'',
     tp_EventUID = [], tp_Amounts = [(''amount'', (5, 0))], tp_ActorID = 0, tp_Source = [],
     tp_Metadata = [], tp_EffectiveAt = 0\<rparr>"

definition sample_rendered :: "(int \<times> int) JournalInput" where
  "sample_rendered = \<lparr>ji_JournalTypeUID = ''jt'', ji_IdempotencyKey = ''k'', ji_Entries =
     [\<lparr>ei_AccountHolder = 42, ei_CurrencyUID = ''usd'', ei_ClassificationUID = ''wallet'',
        ei_EntryType = EntryTypeDebit, ei_Amount = (5, 0)\<rparr>,
      \<lparr>ei_AccountHolder = - 42, ei_CurrencyUID = ''usd'', ei_ClassificationUID = ''custodial'',
        ei_EntryType = EntryTypeCredit, ei_Amount = (5, 0)\<rparr>],
     ji_Metadata = [], ji_ActorID = 0, ji_Source = [], ji_ReversalOfUID = [], ji_EventUID = [],
     ji_EffectiveAt = 0\<rparr>"

theorem Render_correct_witness:
  "JournalInput_Validate ref_decimal no_json 0 sample_rendered = Inr ()
   \<and> length (ji_Entries sample_rendered) = 2"
proof -
  have run: "Render ref_decimal no_json 0 sample_template sample_params = Inr sample_rendered"
    by code_simp
  have "is_int64 (tp_HolderID sample_params)" by code_simp
  from Render_correct [OF run this] show ?thesis by (simp add: sample_template_def)
qed

text \<open>C28. A template whose debit and credit lines use the same amount keys can always be
  rendered: for an active well-formed template, a positive holder, a currency, a key, acceptable
  metadata and date, and a positive storable amount under each key, \<open>Render\<close> succeeds, so it
  never produces an unbalanced journal.\<close>

theorem Render_keys_balanced:
  assumes "decimal_lib D" and "tm_IsActive t" and "validateDefinition t = Inr ()"
    and "keys_balanced (tm_Lines t)"
    and "0 < tp_HolderID params" and "is_int64 (tp_HolderID params)"
    and "tp_CurrencyUID params \<noteq> []" and "tp_IdempotencyKey params \<noteq> []"
    and "validateFreeformFields (tp_Source params) (tp_Metadata params) = Inr ()"
    and "validateConversionQuotesMetadata D J (tp_Metadata params) = Inr ()"
    and "tp_EffectiveAt params = 0 \<or> tp_EffectiveAt params \<le> now + effectiveAtFutureTolerance"
    and "\<forall>l\<in>set (tm_Lines t). \<exists>a. map_of (tp_Amounts params) (tl_AmountKey l) = Some a
           \<and> - 18 \<le> dExponent D a \<and> 0 < dval D a \<and> dval D a < 10 ^ 12"
  shows "\<exists>j. Render D J now t params = Inr j"
proof -
  have lines: "tm_Lines t \<noteq> []" "\<forall>l\<in>set (tm_Lines t). validateTemplateLine l = Inr ()"
    using assms(3) by (auto simp: validateDefinition_def)
  have "\<exists>e. renderLine params l = Inr e" if "l \<in> set (tm_Lines t)" for l
    using bspec [OF lines(2) that] bspec [OF assms(12) that] renderLine_ok [of params l]
    by (auto simp: validateTemplateLine_def)
  then obtain es where es: "mapR (renderLine params) (tm_Lines t) = Inr es"
    using mapR_ok [of "tm_Lines t" "renderLine params"] by blast
  then have l2: "list_all2 (\<lambda>l e. renderLine params l = Inr e) (tm_Lines t) es"
    by (simp add: mapR_Inr)
  have valid: "validateEntry D e = Inr ()" if "e \<in> set es" for e
  proof -
    from that obtain i where i: "i < length es" "e = es ! i" by (auto simp: in_set_conv_nth)
    with l2 have l: "tm_Lines t ! i \<in> set (tm_Lines t)" "renderLine params (tm_Lines t ! i) = Inr e"
      by (simp_all add: list_all2_conv_all_nth)
    show ?thesis
      using bspec [OF assms(12) l(1)] renderLine_Inr(1) [OF l(2)] assms(5-7)
      by (intro rendered_entry_valid [OF assms(1) l(2) bspec [OF lines(2) l(1)]]) auto
  qed
  have ne: "es \<noteq> []" using l2 lines(1) by auto
  have bal: "balanced D es" by (rule keys_balanced_render [OF assms(4) l2])
  let ?j = "\<lparr>ji_JournalTypeUID = tm_JournalTypeUID t, ji_IdempotencyKey = tp_IdempotencyKey params,
      ji_Entries = es, ji_Metadata = tp_Metadata params, ji_ActorID = tp_ActorID params,
      ji_Source = tp_Source params, ji_ReversalOfUID = [], ji_EventUID = tp_EventUID params,
      ji_EffectiveAt = tp_EffectiveAt params\<rparr>"
  have "JournalInput_Validate D J now ?j = Inr ()"
    unfolding decimal_lib.JournalInput_Validate_Inr [OF assms(1)] well_formed_def
    using assms(8-11) valid ne bal by (simp add: IsZeroTime_def)
  then have "Render D J now t params = Inr ?j"
    unfolding Render_def Let_def using assms(2,3,5) es by simp
  then show ?thesis ..
qed

theorem Render_keys_balanced_witness:
  "\<exists>j. Render ref_decimal no_json 99 sample_template sample_params = Inr j"
proof (rule Render_keys_balanced [OF ref.decimal_lib_axioms])
  show "validateDefinition sample_template = Inr ()" "keys_balanced (tm_Lines sample_template)"
    "is_int64 (tp_HolderID sample_params)"
    "validateFreeformFields (tp_Source sample_params) (tp_Metadata sample_params) = Inr ()"
    "validateConversionQuotesMetadata ref_decimal no_json (tp_Metadata sample_params) = Inr ()"
    by code_simp+
qed (simp_all add: sample_template_def sample_params_def ref_decimal_def dval_def)

end
