(* ===== verification/Inputs.thy ===== *)
theory Inputs
  imports Journal
begin

text \<open>
  The input validators of the write operations: reservations (\<^verbatim>\<open>core/reserve.go\<close>), bookings
  (\<^verbatim>\<open>core/booking.go\<close>), pending deposits (\<^verbatim>\<open>core/pending.go\<close>), partial reversals
  (\<^verbatim>\<open>core/reversal.go\<close>), account policies (\<^verbatim>\<open>core/account_policy.go\<close>), period closes
  (\<^verbatim>\<open>core/period_close.go\<close>), classifications and currencies
  (\<^verbatim>\<open>core/interfaces.go\<close>) and the on-chain types (\<^verbatim>\<open>core/onchain.go\<close>), with the reservation
  state machine.
\<close>

section \<open>Reservations\<close>

type_synonym ReservationStatus = string

definition ReservationStatusActive :: ReservationStatus where "ReservationStatusActive = ''active''"
definition ReservationStatusSettling :: ReservationStatus where
  "ReservationStatusSettling = ''settling''"
definition ReservationStatusSettled :: ReservationStatus where
  "ReservationStatusSettled = ''settled''"
definition ReservationStatusReleased :: ReservationStatus where
  "ReservationStatusReleased = ''released''"

lemmas reservation_statuses = ReservationStatusActive_def ReservationStatusSettling_def
  ReservationStatusSettled_def ReservationStatusReleased_def

definition reservationTransitions :: "(ReservationStatus \<times> ReservationStatus list) list" where
  "reservationTransitions =
     [(ReservationStatusActive,
        [ReservationStatusSettling, ReservationStatusSettled, ReservationStatusReleased]),
      (ReservationStatusSettling, [ReservationStatusSettled, ReservationStatusReleased])]"

definition ReservationStatus_IsValid :: "ReservationStatus \<Rightarrow> bool" where
  "ReservationStatus_IsValid s \<longleftrightarrow>
     s \<in> set [ReservationStatusActive, ReservationStatusSettling, ReservationStatusSettled,
              ReservationStatusReleased]"

definition CanTransitionTo :: "ReservationStatus \<Rightarrow> ReservationStatus \<Rightarrow> bool" where
  "CanTransitionTo s target =
     list_ex (\<lambda>allowed. allowed = target)
       (case map_of reservationTransitions s of None \<Rightarrow> [] | Some ts \<Rightarrow> ts)"

record 'd Reservation =
  rs_UID :: string
  rs_AccountHolder :: int
  rs_CurrencyUID :: string
  rs_ReservedAmount :: 'd
  rs_SettledAmount :: "'d option"
  rs_Status :: ReservationStatus
  rs_JournalUID :: string
  rs_IdempotencyKey :: string
  rs_ExpiresAt :: gotime
  rs_CreatedAt :: gotime
  rs_UpdatedAt :: gotime

record 'd ReserveInput =
  ri_AccountHolder :: int
  ri_CurrencyUID :: string
  ri_Amount :: 'd
  ri_IdempotencyKey :: string
  ri_ExpiresIn :: duration
  ri_RequireVerifiedBalance :: bool

record 'd SettleInput =
  si_ReservationUID :: string
  si_Amount :: 'd
  si_IdempotencyKey :: string

record ReleaseInput =
  rl_ReservationUID :: string
  rl_IdempotencyKey :: string

record FinalizeSettlementInput =
  fs_ReservationUID :: string
  fs_IdempotencyKey :: string

record 'd SettlePartialInput =
  sp_ReservationUID :: string
  sp_Amount :: 'd
  sp_IdempotencyKey :: string

definition ReserveInput_Validate :: "'d decimal_ops \<Rightarrow> 'd ReserveInput \<Rightarrow> unit result" where
  [valid_defs]: "ReserveInput_Validate D i =
     andThen (ValidateAmountMagnitude D (ri_Amount i))
     (if ri_AccountHolder i = 0 then invalid
      else if ri_CurrencyUID i = [] then invalid
      else if \<not> dIsPositive D (ri_Amount i) then invalid
      else if ri_IdempotencyKey i = [] then invalid
      else if ri_ExpiresIn i < 0 then invalid
      else Inr ())"

definition SettleInput_Validate :: "'d decimal_ops \<Rightarrow> 'd SettleInput \<Rightarrow> unit result" where
  [valid_defs]: "SettleInput_Validate D i =
     andThen (ValidateAmountMagnitude D (si_Amount i))
     (if si_ReservationUID i = [] then invalid
      else if \<not> dIsPositive D (si_Amount i) then invalid
      else if si_IdempotencyKey i = [] then invalid
      else Inr ())"

definition ReleaseInput_Validate :: "ReleaseInput \<Rightarrow> unit result" where
  [valid_defs]: "ReleaseInput_Validate i =
     (if rl_ReservationUID i = [] then invalid
      else if rl_IdempotencyKey i = [] then invalid
      else Inr ())"

definition FinalizeSettlementInput_Validate :: "FinalizeSettlementInput \<Rightarrow> unit result" where
  [valid_defs]: "FinalizeSettlementInput_Validate i =
     (if fs_ReservationUID i = [] then invalid
      else if fs_IdempotencyKey i = [] then invalid
      else Inr ())"

definition SettlePartialInput_Validate :: "'d decimal_ops \<Rightarrow> 'd SettlePartialInput \<Rightarrow> unit result" where
  [valid_defs]: "SettlePartialInput_Validate D i =
     andThen (ValidateAmountMagnitude D (sp_Amount i))
     (if sp_ReservationUID i = [] then invalid
      else if \<not> dIsPositive D (sp_Amount i) then invalid
      else if sp_IdempotencyKey i = [] then invalid
      else Inr ())"

section \<open>Bookings\<close>

record 'd Booking =
  bk_UID :: string
  bk_ClassificationUID :: string
  bk_AccountHolder :: int
  bk_CurrencyUID :: string
  bk_Amount :: 'd
  bk_SettledAmount :: 'd
  bk_Status :: string
  bk_ChannelName :: string
  bk_ChannelRef :: string
  bk_ReservationUID :: string
  bk_JournalUID :: string
  bk_IdempotencyKey :: string
  bk_Metadata :: metadata
  bk_ExpiresAt :: gotime
  bk_CreatedAt :: gotime
  bk_UpdatedAt :: gotime

record 'd CreateBookingInput =
  cb_ClassificationCode :: string
  cb_AccountHolder :: int
  cb_CurrencyUID :: string
  cb_Amount :: 'd
  cb_IdempotencyKey :: string
  cb_ChannelName :: string
  cb_Metadata :: metadata
  cb_ExpiresAt :: gotime

record 'd TransitionInput =
  tr_BookingUID :: string
  tr_ToStatus :: string
  tr_ChannelRef :: string
  tr_Amount :: 'd
  tr_Metadata :: metadata
  tr_ActorID :: int
  tr_Source :: string
  tr_IdempotencyKey :: string

definition CreateBookingInput_Validate :: "'d decimal_ops \<Rightarrow> 'd CreateBookingInput \<Rightarrow> unit result" where
  [valid_defs]: "CreateBookingInput_Validate D i =
     andThen (ValidateAmountMagnitude D (cb_Amount i))
     (if cb_ClassificationCode i = [] then invalid
      else if cb_AccountHolder i = 0 then invalid
      else if cb_CurrencyUID i = [] then invalid
      else if \<not> dIsPositive D (cb_Amount i) then invalid
      else andThen (validateFreeformFields [] (cb_Metadata i))
        (if cb_IdempotencyKey i = [] then invalid
         else Inr ()))"

definition TransitionInput_Validate :: "'d decimal_ops \<Rightarrow> 'd TransitionInput \<Rightarrow> unit result" where
  [valid_defs]: "TransitionInput_Validate D i =
     andThen (ValidateAmountMagnitude D (tr_Amount i))
     (if tr_BookingUID i = [] then invalid
      else andThen (validateFreeformFields (tr_Source i) (tr_Metadata i))
        (if tr_ToStatus i = [] then invalid
         else if dIsNegative D (tr_Amount i) then invalid
         else if tr_IdempotencyKey i = [] then invalid
         else Inr ()))"

section \<open>Pending deposits\<close>

record 'd AddPendingInput =
  ap_AccountHolder :: int
  ap_CurrencyUID :: string
  ap_Amount :: 'd
  ap_IdempotencyKey :: string
  ap_ActorID :: int
  ap_Source :: string
  ap_Metadata :: metadata

record 'd ConfirmPendingInput =
  cf_AccountHolder :: int
  cf_CurrencyUID :: string
  cf_Amount :: 'd
  cf_IdempotencyKey :: string
  cf_ActorID :: int
  cf_Source :: string
  cf_Metadata :: metadata

record 'd CancelPendingInput =
  ca_AccountHolder :: int
  ca_CurrencyUID :: string
  ca_Amount :: 'd
  ca_Reason :: string
  ca_IdempotencyKey :: string
  ca_ActorID :: int
  ca_Source :: string
  ca_Metadata :: metadata

definition AddPendingInput_Validate :: "'d decimal_ops \<Rightarrow> 'd AddPendingInput \<Rightarrow> unit result" where
  [valid_defs]: "AddPendingInput_Validate D i =
     andThen (ValidateAmountMagnitude D (ap_Amount i))
     (andThen (validateFreeformFields (ap_Source i) (ap_Metadata i))
     (if ap_AccountHolder i = 0 then invalid
      else if ap_CurrencyUID i = [] then invalid
      else if \<not> dIsPositive D (ap_Amount i) then invalid
      else if ap_IdempotencyKey i = [] then invalid
      else Inr ()))"

definition ConfirmPendingInput_Validate ::
  "'d decimal_ops \<Rightarrow> 'd ConfirmPendingInput \<Rightarrow> unit result" where
  [valid_defs]: "ConfirmPendingInput_Validate D i =
     andThen (ValidateAmountMagnitude D (cf_Amount i))
     (andThen (validateFreeformFields (cf_Source i) (cf_Metadata i))
     (if cf_AccountHolder i = 0 then invalid
      else if cf_CurrencyUID i = [] then invalid
      else if \<not> dIsPositive D (cf_Amount i) then invalid
      else if cf_IdempotencyKey i = [] then invalid
      else Inr ()))"

definition CancelPendingInput_Validate ::
  "'d decimal_ops \<Rightarrow> 'd CancelPendingInput \<Rightarrow> unit result" where
  [valid_defs]: "CancelPendingInput_Validate D i =
     andThen (ValidateAmountMagnitude D (ca_Amount i))
     (andThen (validateFreeformFields (ca_Source i) (ca_Metadata i))
     (if ca_AccountHolder i = 0 then invalid
      else if ca_CurrencyUID i = [] then invalid
      else if \<not> dIsPositive D (ca_Amount i) then invalid
      else if ca_IdempotencyKey i = [] then invalid
      else Inr ()))"

section \<open>Reversals, policies, periods\<close>

definition ValidateReversalFraction :: "int \<Rightarrow> int \<Rightarrow> unit result" where
  [valid_defs]: "ValidateReversalFraction num den =
     (if den \<le> 0 then invalid
      else if num \<le> 0 \<or> num > den then invalid
      else Inr ())"

type_synonym AccountPolicyStatus = string

definition AccountPolicyStatusActive :: AccountPolicyStatus where
  "AccountPolicyStatusActive = ''active''"
definition AccountPolicyStatusFrozen :: AccountPolicyStatus where
  "AccountPolicyStatusFrozen = ''frozen''"
definition AccountPolicyStatusClosed :: AccountPolicyStatus where
  "AccountPolicyStatusClosed = ''closed''"

lemmas policy_statuses = AccountPolicyStatusActive_def AccountPolicyStatusFrozen_def
  AccountPolicyStatusClosed_def

definition AccountPolicyStatus_IsValid :: "AccountPolicyStatus \<Rightarrow> bool" where
  "AccountPolicyStatus_IsValid s \<longleftrightarrow>
     s \<in> set [AccountPolicyStatusActive, AccountPolicyStatusFrozen, AccountPolicyStatusClosed]"

definition accountPolicyNoteMaxLen :: int where "accountPolicyNoteMaxLen = 2000"

record 'd AccountPolicy =
  pol_UID :: string
  pol_AccountHolder :: int
  pol_CurrencyUID :: string
  pol_ClassificationUID :: string
  pol_Status :: AccountPolicyStatus
  pol_MinBalance :: 'd
  pol_EnforceMinBalance :: bool
  pol_Note :: string
  pol_UpdatedAt :: gotime
  pol_CreatedAt :: gotime

record 'd AccountPolicyInput =
  api_AccountHolder :: int
  api_CurrencyUID :: string
  api_ClassificationUID :: string
  api_Status :: AccountPolicyStatus
  api_MinBalance :: 'd
  api_EnforceMinBalance :: bool
  api_Note :: string
  api_ActorID :: int

definition AccountPolicyInput_Validate :: "'d decimal_ops \<Rightarrow> 'd AccountPolicyInput \<Rightarrow> unit result" where
  [valid_defs]: "AccountPolicyInput_Validate D i =
     andThen (ValidateAmountMagnitude D (api_MinBalance i))
     (if api_AccountHolder i = 0 then invalid
      else if api_ClassificationUID i \<noteq> [] \<and> api_CurrencyUID i = [] then invalid
      else if \<not> AccountPolicyStatus_IsValid (api_Status i) then invalid
      else if int (length (api_Note i)) > accountPolicyNoteMaxLen then invalid
      else Inr ())"

record PeriodClose =
  pc_UID :: string
  pc_CloseBefore :: gotime
  pc_Note :: string
  pc_ActorID :: int
  pc_CreatedAt :: gotime

record ClosePeriodInput =
  cpi_CloseBefore :: gotime
  cpi_Note :: string
  cpi_ActorID :: int

definition ClosePeriodInput_Validate :: "ClosePeriodInput \<Rightarrow> unit result" where
  [valid_defs]: "ClosePeriodInput_Validate c =
     (if IsZeroTime (cpi_CloseBefore c) then invalid else Inr ())"

section \<open>Classifications and currencies\<close>

record ClassificationInput =
  ci_Code :: string
  ci_Name :: string
  ci_NormalSide :: NormalSide
  ci_IsSystem :: bool
  ci_DisplayLabel :: string
  ci_BalanceRole :: BalanceRole
  ci_Lifecycle :: "Lifecycle option"

definition ClassificationInput_Validate :: "ClassificationInput \<Rightarrow> unit result" where
  [valid_defs]: "ClassificationInput_Validate i =
     (if ci_Code i = [] then invalid
      else if ci_Name i = [] then invalid
      else if \<not> NormalSide_IsValid (ci_NormalSide i) then invalid
      else if \<not> BalanceRole_IsValid (ci_BalanceRole i) then invalid
      else if \<not> ci_IsSystem i \<and> ci_BalanceRole i = BalanceRoleNone then invalid
      else Inr ())"

record CurrencyInput =
  cui_Code :: string
  cui_Name :: string
  cui_Exponent :: int

definition CurrencyInput_Validate :: "CurrencyInput \<Rightarrow> unit result" where
  [valid_defs]: "CurrencyInput_Validate i =
     andThen (validateCurrencyCode (cui_Code i))
     (if cui_Name i = [] then invalid
      else if cui_Exponent i < 0 \<or> cui_Exponent i > 18 then invalid
      else Inr ())"

section \<open>On-chain deposits and sweeps\<close>

record AddressRegistrationInput =
  ar_AccountHolder :: int
  ar_Address :: string
  ar_Factory :: string
  ar_InitHash :: string

definition AddressRegistrationInput_Validate :: "AddressRegistrationInput \<Rightarrow> unit result" where
  [valid_defs]: "AddressRegistrationInput_Validate i =
     (if ar_AccountHolder i \<le> 0 then invalid
      else if ar_Address i = [] then invalid
      else if ar_Factory i = [] then invalid
      else if ar_InitHash i = [] then invalid
      else Inr ())"

record 'd DepositSighting =
  ds_ChainID :: int
  ds_TxHash :: string
  ds_TxLogSeq :: int
  ds_Token :: string
  ds_From :: string
  ds_To :: string
  ds_Amount :: 'd
  ds_Confirmations :: int
  ds_BlockNumber :: int

definition DepositSighting_Validate :: "'d decimal_ops \<Rightarrow> 'd DepositSighting \<Rightarrow> unit result" where
  [valid_defs]: "DepositSighting_Validate D s =
     andThen (ValidateAmountMagnitude D (ds_Amount s))
     (if ds_ChainID s \<le> 0 then invalid
      else if ds_TxHash s = [] then invalid
      else if ds_TxLogSeq s < 0 then invalid
      else if ds_Token s = [] then invalid
      else if ds_To s = [] then invalid
      else if \<not> dIsPositive D (ds_Amount s) then invalid
      else if ds_Confirmations s < 0 then invalid
      else if ds_BlockNumber s \<le> 0 then invalid
      else Inr ())"

record DepositReorg =
  dr_UID :: string
  dr_Kind :: string
  dr_BookingUID :: string
  dr_ChainID :: int
  dr_TxHash :: string
  dr_JournalUID :: string
  dr_DetectedAt :: gotime
  dr_LastSeenAt :: gotime
  dr_ResolvedAt :: gotime
  dr_Resolution :: string

text \<open>\<^verbatim>\<open>time.Time.Unix\<close>: whole seconds since 1970; Go's zero time is year 1.\<close>

definition Unix :: "gotime \<Rightarrow> int" where
  "Unix t = t div 1000000000 - 62135596800"

definition DepositReorg_IsOpen :: "DepositReorg \<Rightarrow> bool" where
  "DepositReorg_IsOpen r \<longleftrightarrow> Unix (dr_ResolvedAt r) \<le> 0"

definition SweepNativeToken :: string where "SweepNativeToken = ''native''"

definition UnboundedAutoCredit :: "'d decimal_ops \<Rightarrow> 'd" where
  "UnboundedAutoCredit D = dNewFromBigInt D (- 1) 0"

record 'd TokenConfig =
  tc_TokenAddress :: string
  tc_CurrencyCode :: string
  tc_Decimals :: int
  tc_AutoCreditCeiling :: 'd
  tc_ReconcileCeiling :: 'd
  tc_ReconcileFailureLimit :: int

definition maxTokenDecimals :: int where "maxTokenDecimals = 18"

definition TokenConfig_Validate :: "'d decimal_ops \<Rightarrow> 'd TokenConfig \<Rightarrow> unit result" where
  [valid_defs]: "TokenConfig_Validate D c =
     andThen (ValidateAmountMagnitude D (tc_AutoCreditCeiling c))
     (andThen (ValidateAmountMagnitude D (tc_ReconcileCeiling c))
     (if tc_Decimals c < 0 then invalid
      else if tc_Decimals c > maxTokenDecimals then invalid
      else Inr ()))"

definition AutoCreditCeilingConfigured :: "'d decimal_ops \<Rightarrow> 'd TokenConfig \<Rightarrow> bool" where
  "AutoCreditCeilingConfigured D c \<longleftrightarrow>
     dIsPositive D (tc_AutoCreditCeiling c)
     \<or> dEqual D (tc_AutoCreditCeiling c) (UnboundedAutoCredit D)"

record 'd ChainConfig =
  cc_ChainID :: int
  cc_ScanStartBlock :: int
  cc_Confirmations :: int
  cc_Factory :: string
  cc_InitHash :: string
  cc_CreditTokens :: "(string \<times> 'd TokenConfig) list"
  cc_SweepTokens :: "(string \<times> 'd TokenConfig) list"

record 'd SweepPolicy =
  swp_ChainID :: int
  swp_Token :: string
  swp_MinThreshold :: 'd
  swp_GasCeiling :: 'd
  swp_BatchLimit :: int
  swp_Interval :: duration

definition maxPlausibleGasCeilingGwei :: "'d decimal_ops \<Rightarrow> 'd" where
  "maxPlausibleGasCeilingGwei D = dNewFromBigInt D 1000000 0"

definition SweepPolicy_Validate :: "'d decimal_ops \<Rightarrow> 'd SweepPolicy \<Rightarrow> unit result" where
  [valid_defs]: "SweepPolicy_Validate D p =
     andThen (ValidateAmountMagnitude D (swp_MinThreshold p))
     (andThen (ValidateAmountMagnitude D (swp_GasCeiling p))
     (if swp_ChainID p \<le> 0 then invalid
      else if swp_Token p = [] then invalid
      else if dIsNegative D (swp_MinThreshold p) then invalid
      else if dIsNegative D (swp_GasCeiling p) then invalid
      else if dGreaterThan D (swp_GasCeiling p) (maxPlausibleGasCeilingGwei D) then invalid
      else if swp_BatchLimit p \<le> 0 then invalid
      else if swp_Interval p \<le> 0 then invalid
      else Inr ()))"

type_synonym ReorgPolicy = string

definition ReorgPolicyManual :: ReorgPolicy where "ReorgPolicyManual = ''manual''"
definition ReorgPolicyAutoReverse :: ReorgPolicy where "ReorgPolicyAutoReverse = ''auto_reverse''"

definition ReorgPolicy_IsValid :: "ReorgPolicy \<Rightarrow> bool" where
  "ReorgPolicy_IsValid p \<longleftrightarrow> p = ReorgPolicyManual \<or> p = ReorgPolicyAutoReverse"

section \<open>Lemmas\<close>

definition money_ok :: "'d decimal_ops \<Rightarrow> 'd \<Rightarrow> bool" where
  "money_ok D a \<longleftrightarrow> 0 < dval D a \<and> storable (dval D a)"

lemma CanTransitionTo_iff:
  "CanTransitionTo s t \<longleftrightarrow>
     (s = ''active'' \<and> t \<in> {''settling'', ''settled'', ''released''})
     \<or> (s = ''settling'' \<and> t \<in> {''settled'', ''released''})"
  by (auto simp: CanTransitionTo_def reservationTransitions_def reservation_statuses
      split: option.splits)

context decimal_lib
begin

lemma money_okI:
  "ValidateAmountMagnitude D a = Inr () \<Longrightarrow> dIsPositive D a \<Longrightarrow> money_ok D a"
  by (simp add: money_ok_def IsPositive ValidateAmountMagnitude_storable)

lemma input_amounts:
  "ReserveInput_Validate D ri = Inr () \<Longrightarrow> money_ok D (ri_Amount ri)"
  "SettleInput_Validate D si = Inr () \<Longrightarrow> money_ok D (si_Amount si)"
  "SettlePartialInput_Validate D sp = Inr () \<Longrightarrow> money_ok D (sp_Amount sp)"
  "CreateBookingInput_Validate D cb = Inr () \<Longrightarrow> money_ok D (cb_Amount cb)"
  "AddPendingInput_Validate D ap = Inr () \<Longrightarrow> money_ok D (ap_Amount ap)"
  "ConfirmPendingInput_Validate D cf = Inr () \<Longrightarrow> money_ok D (cf_Amount cf)"
  "CancelPendingInput_Validate D ca = Inr () \<Longrightarrow> money_ok D (ca_Amount ca)"
  "DepositSighting_Validate D ds = Inr () \<Longrightarrow> money_ok D (ds_Amount ds)"
  by (simp_all add: valid_defs money_okI)

end

section \<open>Properties\<close>

text \<open>Every amount that enters the ledger through a validated reservation, settlement,
  booking, pending-deposit or sighting input is positive and fits the storage column: under
  \<open>10^12\<close> with at most eighteen decimals.\<close>

lemma input_amounts_storable:
  assumes "decimal_lib D"
    and "ReserveInput_Validate D ri = Inr () \<and> a = ri_Amount ri
      \<or> SettleInput_Validate D si = Inr () \<and> a = si_Amount si
      \<or> SettlePartialInput_Validate D sp = Inr () \<and> a = sp_Amount sp
      \<or> CreateBookingInput_Validate D cb = Inr () \<and> a = cb_Amount cb
      \<or> AddPendingInput_Validate D ap = Inr () \<and> a = ap_Amount ap
      \<or> ConfirmPendingInput_Validate D cf = Inr () \<and> a = cf_Amount cf
      \<or> CancelPendingInput_Validate D ca = Inr () \<and> a = ca_Amount ca
      \<or> DepositSighting_Validate D ds = Inr () \<and> a = ds_Amount ds"
  shows "0 < dval D a \<and> dval D a < 10 ^ 12 \<and> (\<exists>i. dval D a * 10 ^ 18 = of_int i)"
proof -
  have "money_ok D a"
    using assms(2) decimal_lib.input_amounts [OF assms(1)] by blast
  then show ?thesis by (auto simp: money_ok_def storable_def)
qed

text \<open>C31. The reservation machine cannot loop: its only transitions are from active to
  settling, settled or released and from settling to settled or released; they are between valid
  statuses, settled and released are final, and every run from any status takes at most two steps.\<close>

theorem reservation_runs_end:
  "(CanTransitionTo s t \<longrightarrow> ReservationStatus_IsValid s \<and> ReservationStatus_IsValid t \<and> s \<noteq> t)
   \<and> \<not> CanTransitionTo ReservationStatusSettled t \<and> \<not> CanTransitionTo ReservationStatusReleased t
   \<and> ((CanTransitionTo ^^ n) s t \<longrightarrow> n \<le> 2)
   \<and> ((CanTransitionTo ^^ 2) s t \<longrightarrow> s = ReservationStatusActive \<and> \<not> CanTransitionTo t u)"
proof -
  let ?rank = "\<lambda>s. if s = ''active'' then 2 else if s = ''settling'' then 1 else (0 :: nat)"
  have drop: "?rank t < ?rank s" if "CanTransitionTo s t" for s t
    using that by (auto simp: CanTransitionTo_iff)
  have run: "?rank t + n \<le> ?rank s" if "(CanTransitionTo ^^ n) s t" for n s t
    using that
  proof (induction n arbitrary: t)
    case (Suc n)
    then obtain r where r: "(CanTransitionTo ^^ n) s r" "CanTransitionTo r t" by auto
    from Suc.IH [OF r(1)] drop [OF r(2)] show ?case by linarith
  qed simp
  have top: "?rank s \<le> 2" by simp
  have "n \<le> 2" if "(CanTransitionTo ^^ n) s t" using run [OF that] top by linarith
  moreover have "s = ReservationStatusActive \<and> \<not> CanTransitionTo t u" if "(CanTransitionTo ^^ 2) s t"
  proof -
    have "?rank s = 2" "?rank t = 0" using run [OF that] top by linarith+
    then show ?thesis by (auto simp: reservation_statuses CanTransitionTo_iff split: if_splits)
  qed
  ultimately show ?thesis
    by (auto simp: CanTransitionTo_iff ReservationStatus_IsValid_def reservation_statuses)
qed

theorem reservation_runs_end_witness:
  "(CanTransitionTo ^^ 2) ''active'' ''released'' \<and> \<not> CanTransitionTo ''released'' ''active''"
proof -
  have run: "(CanTransitionTo ^^ 2) ''active'' ''released''"
    unfolding numeral_2_eq_2
    by (rule relpowp_Suc_I [of _ _ _ "''settling''"], rule relpowp_Suc_I [of _ _ _ "''active''"])
      (simp_all add: CanTransitionTo_iff)
  with reservation_runs_end [of "''active''" "''released''" 2 "''active''"] show ?thesis by blast
qed

end
