(* ===== verification/Encoding.thy ===== *)
theory Encoding
  imports Journal "HOL-Library.Signed_Division" "HOL-Library.Product_Lexorder"
begin

text \<open>
  The canonical byte encodings of \<^verbatim>\<open>core/auth.go\<close>: amounts as fixed-width two's complement,
  timestamps floored to microseconds and printed as RFC 3339, length-prefixed strings and big-endian
  integers. SHA-256 and the calendar of \<^verbatim>\<open>time.Time.Format\<close> are the standard library's, written
  out. The lemmas show that each encoding can be read back.
\<close>

type_synonym byte = "8 word"
type_synonym bytes = "byte list"

definition bytes_of :: "string \<Rightarrow> bytes" where
  "bytes_of s = map (\<lambda>c. word_of_int (of_char c)) s"

section \<open>SHA-256\<close>

unbundle bit_operations_syntax

definition ror32 :: "32 word \<Rightarrow> nat \<Rightarrow> 32 word" where
  "ror32 x n = (drop_bit n x) OR (push_bit (32 - n) x)"

text \<open>
  The constants of SHA-256 by their definition: the first 32 bits of the fractional parts of the cube
  roots of the first 64 primes, and of the square roots of the first eight. \<open>iroot k n b\<close> finds the
  integer \<open>k\<close>-th root of \<open>n\<close> from bit \<open>b - 1\<close> downwards; converting to a word drops the integral part.
\<close>

fun irootFrom :: "nat \<Rightarrow> int \<Rightarrow> nat \<Rightarrow> int \<Rightarrow> int" where
  "irootFrom k n 0 acc = acc"
| "irootFrom k n (Suc b) acc =
     (let cand = acc + 2 ^ b in irootFrom k n b (if cand ^ k \<le> n then cand else acc))"

definition rootFraction :: "nat \<Rightarrow> int \<Rightarrow> 32 word" where
  "rootFraction k p = word_of_int (irootFrom k (p * 2 ^ (32 * k)) 40 0)"

definition sha_primes :: "int list" where
  "sha_primes = [n \<leftarrow> [2..311]. list_all (\<lambda>d. n mod d \<noteq> 0) [2..n - 1]]"

definition sha_K :: "32 word list" where
  "sha_K = map (rootFraction 3) sha_primes"


text \<open>The low \<open>n\<close> bytes of an integer, most significant first.\<close>

fun be_bytes :: "nat \<Rightarrow> int \<Rightarrow> bytes" where
  "be_bytes 0 v = []"
| "be_bytes (Suc n) v = be_bytes n (v div 256) @ [word_of_int v]"

definition word_of_bytes :: "bytes \<Rightarrow> 32 word" where
  "word_of_bytes bs = foldl (\<lambda>a b. push_bit 8 a OR ucast b) 0 bs"

fun words_of :: "bytes \<Rightarrow> 32 word list" where
  "words_of (a # b # c # d # bs) = word_of_bytes [a, b, c, d] # words_of bs"
| "words_of _ = []"

text \<open>The message schedule, built in reverse: the latest word first.\<close>

fun sha_extend :: "nat \<Rightarrow> 32 word list \<Rightarrow> 32 word list" where
  "sha_extend 0 w = w"
| "sha_extend (Suc n) w =
     (let w15 = w ! 14; w2 = w ! 1;
          s0 = (ror32 w15 7) XOR (ror32 w15 18) XOR (drop_bit 3 w15);
          s1 = (ror32 w2 17) XOR (ror32 w2 19) XOR (drop_bit 10 w2)
      in sha_extend n ((w ! 15 + s0 + w ! 6 + s1) # w))"

type_synonym sha_state =
  "32 word \<times> 32 word \<times> 32 word \<times> 32 word \<times> 32 word \<times> 32 word \<times> 32 word \<times> 32 word"

definition sha_round :: "32 word \<times> 32 word \<Rightarrow> sha_state \<Rightarrow> sha_state" where
  "sha_round kw st =
     (case (kw, st) of ((k, w), (a, b, c, d, e, f, g, h)) \<Rightarrow>
        let s1 = (ror32 e 6) XOR (ror32 e 11) XOR (ror32 e 25);
            ch = (e AND f) XOR ((NOT e) AND g);
            t1 = h + s1 + ch + k + w;
            s0 = (ror32 a 2) XOR (ror32 a 13) XOR (ror32 a 22);
            mj = (a AND b) XOR (a AND c) XOR (b AND c);
            t2 = s0 + mj
        in (t1 + t2, a, b, c, d + t1, e, f, g))"

definition sha_init :: sha_state where
  "sha_init =
     (rootFraction 2 2, rootFraction 2 3, rootFraction 2 5, rootFraction 2 7,
      rootFraction 2 11, rootFraction 2 13, rootFraction 2 17, rootFraction 2 19)"

definition sha_add :: "sha_state \<Rightarrow> sha_state \<Rightarrow> sha_state" where
  "sha_add x y =
     (case (x, y) of ((a, b, c, d, e, f, g, h), (a', b', c', d', e', f', g', h')) \<Rightarrow>
        (a + a', b + b', c + c', d + d', e + e', f + f', g + g', h + h'))"

definition sha_words :: "sha_state \<Rightarrow> 32 word list" where
  "sha_words st = (case st of (a, b, c, d, e, f, g, h) \<Rightarrow> [a, b, c, d, e, f, g, h])"

definition sha_block :: "bytes \<Rightarrow> sha_state \<Rightarrow> sha_state" where
  "sha_block blk st =
     (let w = rev (sha_extend 48 (rev (words_of blk)))
      in sha_add st (fold sha_round (zip sha_K w) st))"

definition sha_pad :: "bytes \<Rightarrow> bytes" where
  "sha_pad m = m @ [0x80] @ replicate ((119 - length m mod 64) mod 64) 0
     @ be_bytes 8 (8 * int (length m))"

function sha_fold :: "bytes \<Rightarrow> sha_state \<Rightarrow> sha_state" where
  "sha_fold m st = (if m = [] then st else sha_fold (drop 64 m) (sha_block (take 64 m) st))"
  by pat_completeness auto
termination
  by (relation "measure (\<lambda>(m, st). length m)") (auto intro: diff_less)

declare sha_fold.simps [simp del]

definition Sum256 :: "bytes \<Rightarrow> bytes" where
  "Sum256 m = concat (map (\<lambda>w. be_bytes 4 (uint w)) (sha_words (sha_fold (sha_pad m) sha_init)))"

section \<open>Integers and strings\<close>

definition writeBE32 :: "int \<Rightarrow> bytes" where "writeBE32 v = be_bytes 4 v"
definition writeBE64 :: "int \<Rightarrow> bytes" where "writeBE64 v = be_bytes 8 v"

definition writeLenPrefixed :: "string \<Rightarrow> bytes" where
  "writeLenPrefixed s = writeBE32 (int (length s)) @ bytes_of s"

lemma length_be_bytes [simp]: "length (be_bytes n v) = n"
  by (induction n arbitrary: v) simp_all

lemma be_bytes_eq: "be_bytes n v = be_bytes n w \<longleftrightarrow> v mod 256 ^ n = w mod 256 ^ n"
proof (induction n arbitrary: v w)
  case (Suc n)
  have byte: "(word_of_int v :: byte) = word_of_int w \<longleftrightarrow> v mod 256 = w mod 256" for v w
    by (simp add: word_of_int_eq_iff take_bit_eq_mod)
  have split: "v mod 256 ^ Suc n = 256 * (v div 256 mod 256 ^ n) + v mod 256" for v :: int
    by (simp add: zmod_zmult2_eq)
  have quot: "(256 * a + b) div 256 = a" if "0 \<le> b" "b < 256" for a b :: int
    using that by simp
  have "256 * a + b mod 256 = 256 * a' + b' mod 256 \<longleftrightarrow> a = a' \<and> b mod 256 = b' mod 256"
    for a b a' b' :: int
  proof
    assume eq: "256 * a + b mod 256 = 256 * a' + b' mod 256"
    then have "a = a'" using quot [of "b mod 256" a] quot [of "b' mod 256" a'] by simp
    with eq show "a = a' \<and> b mod 256 = b' mod 256" by simp
  qed simp
  then show ?case
    by (simp only: be_bytes.simps append1_eq_conv Suc.IH byte split)
qed simp

lemma be_bytes_append:
  "be_bytes n v @ x = be_bytes n w @ y \<longleftrightarrow> v mod 256 ^ n = w mod 256 ^ n \<and> x = y"
  by (simp add: be_bytes_eq [symmetric])

lemma length_bytes_of [simp]: "length (bytes_of s) = length s"
  by (simp add: bytes_of_def)

lemma bytes_of_inj: "bytes_of s = bytes_of t \<longleftrightarrow> s = t"
proof -
  have "c = d" if "(word_of_int (of_char c) :: byte) = word_of_int (of_char d)" for c d
  proof -
    have "(of_char c :: int) mod 256 = of_char d mod 256"
      using that by (simp add: word_of_int_eq_iff take_bit_eq_mod)
    then show ?thesis by (metis of_char_mod_256 of_char_eq_iff)
  qed
  then have "inj (\<lambda>c. word_of_int (of_char c) :: byte)" by (rule injI)
  then show ?thesis unfolding bytes_of_def by (rule inj_map_eq_map)
qed

text \<open>A string whose length fits the 32-bit prefix.\<close>

definition fits32 :: "string \<Rightarrow> bool" where "fits32 s \<longleftrightarrow> length s < 2 ^ 32"

lemma writeLenPrefixed_append:
  assumes "fits32 s" "fits32 t"
  shows "writeLenPrefixed s @ x = writeLenPrefixed t @ y \<longleftrightarrow> s = t \<and> x = y"
proof -
  have "int (length s) mod 256 ^ 4 = int (length s)" "int (length t) mod 256 ^ 4 = int (length t)"
    using assms by (simp_all add: fits32_def)
  then show ?thesis
    by (auto simp: writeLenPrefixed_def writeBE32_def be_bytes_append append_eq_append_conv
        bytes_of_inj)
qed

section \<open>Amounts\<close>

definition amountScale :: int where "amountScale = 18"
definition authAmountEncodedLen :: nat where "authAmountEncodedLen = 16"

definition bigIntToFixedTwosComplement :: "int \<Rightarrow> nat \<Rightarrow> bytes result" where
  "bigIntToFixedTwosComplement v width =
     (let lim = 2 ^ (width * 8 - 1)
      in if v \<ge> lim \<or> v < - lim then invalid
         else if 0 \<le> v then Inr (be_bytes width v)
         else Inr (be_bytes width (2 ^ (width * 8) + v)))"

definition EncodeAmount :: "'d decimal_ops \<Rightarrow> 'd \<Rightarrow> bytes result" where
  "EncodeAmount D amt =
     andThen (validateAmountIsRescalable D amt)
     (let coeff = dCoefficient D amt;
          shift = amountScale + dExponent D amt
      in if shift > 0
         then bigIntToFixedTwosComplement (coeff * 10 ^ nat shift) authAmountEncodedLen
         else if shift < 0
         then (let pow = 10 ^ nat (- shift)
               in if coeff smod pow \<noteq> 0 then invalid
                  else bigIntToFixedTwosComplement (coeff sdiv pow) authAmountEncodedLen)
         else bigIntToFixedTwosComplement coeff authAmountEncodedLen)"

lemma twosComplement_Inr:
  assumes "- (2 ^ 127) \<le> v" "v < 2 ^ 127"
  shows "bigIntToFixedTwosComplement v 16 = Inr (be_bytes 16 v)"
proof -
  have "be_bytes 16 (2 ^ 128 + v) = be_bytes 16 v"
    unfolding be_bytes_eq by simp
  with assms show ?thesis by (simp add: bigIntToFixedTwosComplement_def Let_def)
qed

lemma rescale_int:
  fixes c e :: int
  defines "sh \<equiv> 18 + e"
  shows "(of_int c * 10 powi e * 10 ^ 18 = (of_int i :: rat)) \<longleftrightarrow>
     (if 0 \<le> sh then c * 10 ^ nat sh = i else c = i * 10 ^ nat (- sh))"
proof -
  have p: "of_int c * 10 powi e * 10 ^ 18 = (of_int c :: rat) * 10 powi sh"
    by (simp add: sh_def power_int_add mult_ac)
  show ?thesis
  proof (cases "0 \<le> sh")
    case True
    then have "(of_int c :: rat) * 10 powi sh = of_int (c * 10 ^ nat sh)"
      by (simp add: power_int_nonneg_exp)
    with True p show ?thesis by (simp only: of_int_eq_iff if_True)
  next
    case False
    then have one: "(10 :: rat) powi sh * 10 ^ nat (- sh) = 1"
      using ten_pow_split [of sh 0] by (simp add: mult.commute)
    have "(of_int c :: rat) * 10 powi sh = of_int i \<longleftrightarrow>
        of_int c * 10 powi sh * 10 ^ nat (- sh) = (of_int i :: rat) * 10 ^ nat (- sh)"
      by (simp only: mult_cancel_right) simp
    also have "\<dots> \<longleftrightarrow> (of_int c :: rat) = of_int (i * 10 ^ nat (- sh))"
      by (simp only: mult.assoc one) simp
    finally have "(of_int c :: rat) * 10 powi sh = of_int i \<longleftrightarrow> c = i * 10 ^ nat (- sh)"
      unfolding of_int_eq_iff .
    with False p show ?thesis by (simp only: if_False)
  qed
qed

context decimal_lib
begin

lemma EncodeAmount_Inr:
  "EncodeAmount D a = Inr bs \<longleftrightarrow>
     validateAmountIsRescalable D a = Inr ()
     \<and> (\<exists>i. dval D a * 10 ^ 18 = of_int i \<and> bs = be_bytes 16 i)"
proof (cases "validateAmountIsRescalable D a = Inr ()")
  case True
  let ?c = "dCoefficient D a" and ?sh = "18 + dExponent D a"
  let ?sc = "\<lambda>i. dval D a * 10 ^ 18 = of_int i"
  have range: "bigIntToFixedTwosComplement i 16 = Inr (be_bytes 16 i)" if "?sc i" for i
  proof -
    have "\<bar>dval D a * 10 ^ 18\<bar> < 10 ^ 30"
      using validateAmountIsRescalable_bound [OF True] by (simp add: abs_mult)
    then have "\<bar>of_int i :: rat\<bar> < of_int (10 ^ 30)"
      by (simp only: that of_int_power of_int_numeral)
    then have "\<bar>i\<bar> < 10 ^ 30" by (metis of_int_abs of_int_less_iff)
    then show ?thesis by (intro twosComplement_Inr) (simp_all add: abs_less_iff)
  qed
  have sc: "?sc i \<longleftrightarrow> (if 0 \<le> ?sh then ?c * 10 ^ nat ?sh = i else ?c = i * 10 ^ nat (- ?sh))" for i
    unfolding dval_def by (rule rescale_int)
  show ?thesis
  proof (cases "0 \<le> ?sh")
    case nonneg: True
    have "EncodeAmount D a = bigIntToFixedTwosComplement (?c * 10 ^ nat ?sh) 16"
      using True nonneg
      by (simp add: EncodeAmount_def amountScale_def authAmountEncodedLen_def Let_def)
    moreover have i: "?sc i \<longleftrightarrow> i = ?c * 10 ^ nat ?sh" for i using sc nonneg by auto
    ultimately show ?thesis using True range by auto
  next
    case neg: False
    let ?p = "10 ^ nat (- ?sh) :: int"
    have "?c smod ?p = 0 \<longleftrightarrow> ?p dvd ?c" and q: "?p dvd ?c \<Longrightarrow> ?c = (?c sdiv ?p) * ?p"
      by (auto simp: signed_modulo_int_def signed_divide_int_def mod_eq_0_iff_dvd abs_mult sgn_mult
          sgn_eq_0_iff sgn_mult_abs
          elim!: dvdE)
    moreover have "EncodeAmount D a = (if ?c smod ?p \<noteq> 0 then invalid
        else bigIntToFixedTwosComplement (?c sdiv ?p) 16)"
      using True neg
      by (simp add: EncodeAmount_def amountScale_def authAmountEncodedLen_def Let_def)
    moreover have i: "?sc i \<longleftrightarrow> ?c = i * ?p" for i using sc neg by auto
    ultimately show ?thesis using True range by (auto simp: dvd_def mult.commute)
  qed
qed (auto simp: EncodeAmount_def)

end

section \<open>Timestamps\<close>

definition microsecond :: duration where "microsecond = 1000"

text \<open>\<^verbatim>\<open>Truncate\<close> rounds down to a multiple of the duration since the zero time.\<close>

definition TruncateTime :: "gotime \<Rightarrow> duration \<Rightarrow> gotime" where
  "TruncateTime t d = t - t mod d"

definition canonicalTimestamp :: "gotime \<Rightarrow> gotime" where
  "canonicalTimestamp t = TruncateTime t microsecond"

text \<open>
  The calendar of \<^verbatim>\<open>time.Time\<close> in UTC: days since 1 January of year 1 split into 400-, 100-, 4-
  and 1-year cycles, the last 100-year and 1-year cycle being capped at three.
\<close>

definition dateOf :: "int \<Rightarrow> int \<times> int" where
  "dateOf days =
     (let n400 = days div 146097; d = days mod 146097;
          n100 = min 3 (d div 36524); d = d - 36524 * n100;
          n4 = d div 1461; d = d mod 1461;
          n1 = min 3 (d div 365)
      in (400 * n400 + 100 * n100 + 4 * n4 + n1 + 1, d - 365 * n1))"

definition isLeap :: "int \<Rightarrow> bool" where
  "isLeap y \<longleftrightarrow> 4 dvd y \<and> (\<not> 100 dvd y \<or> 400 dvd y)"

definition monthDays :: "bool \<Rightarrow> int list" where
  "monthDays leap = [31, if leap then 29 else 28, 31, 30, 31, 30, 31, 31, 30, 31, 30, 31]"

fun monthOf :: "int list \<Rightarrow> int \<Rightarrow> int \<Rightarrow> int \<times> int" where
  "monthOf [] m d = (m, d)"
| "monthOf (k # ks) m d = (if d < k then (m, d) else monthOf ks (m + 1) (d - k))"

definition appendInt :: "int \<Rightarrow> nat \<Rightarrow> string" where
  "appendInt x width =
     (if x < 0 then ''-'' else [])
     @ replicate (width - length (nat_String \<bar>x\<bar>)) (CHR ''0'') @ nat_String \<bar>x\<bar>"

definition formatFraction :: "int \<Rightarrow> string" where
  "formatFraction nanos =
     (if nanos = 0 then []
      else CHR ''.'' # rev (dropWhile (\<lambda>c. c = CHR ''0'') (rev (appendInt nanos 9))))"

definition FormatRFC3339Nano :: "gotime \<Rightarrow> string" where
  "FormatRFC3339Nano t =
     (let secs = t div 1000000000; nanos = t mod 1000000000;
          days = secs div 86400; s = secs mod 86400;
          date = dateOf days;
          md = monthOf (monthDays (isLeap (fst date))) 1 (snd date)
      in appendInt (fst date) 4 @ ''-'' @ appendInt (fst md) 2 @ ''-'' @ appendInt (snd md + 1) 2
         @ ''T'' @ appendInt (s div 3600) 2 @ '':'' @ appendInt (s div 60 mod 60) 2
         @ '':'' @ appendInt (s mod 60) 2 @ formatFraction nanos @ ''Z'')"

text \<open>Reading a timestamp back: digits up to the next separator, the date formula, the month table.\<close>

definition is_digit :: "char \<Rightarrow> bool" where
  "is_digit c \<longleftrightarrow> of_char c \<in> {48..57 :: int}"

lemma digits_span:
  assumes "list_all is_digit xs" "list_all is_digit us" "\<not> is_digit a" "\<not> is_digit b"
  shows "xs @ a # ys = us @ b # vs \<longleftrightarrow> xs = us \<and> a = b \<and> ys = vs"
  using assms
proof (induction xs arbitrary: us)
  case Nil
  then show ?case by (cases us) auto
next
  case (Cons x xs)
  then show ?case by (cases us) auto
qed

lemma digits_val_zeros: "digits_val (replicate k (CHR ''0'') @ s) = digits_val s"
  by (induction k) (simp_all add: digits_val_def)

lemma appendInt_digits: "0 \<le> x \<Longrightarrow> list_all is_digit (appendInt x w)"
  using nat_String_digits [of x]
  by (auto simp: appendInt_def list_all_iff is_digit_def)

lemma appendInt_inj: "0 \<le> x \<Longrightarrow> 0 \<le> y \<Longrightarrow> appendInt x w = appendInt y v \<Longrightarrow> x = y"
  using digits_val_nat_String [of x] digits_val_nat_String [of y]
    digits_val_zeros [of "w - length (nat_String x)" "nat_String x"]
    digits_val_zeros [of "v - length (nat_String y)" "nat_String y"]
  by (simp add: appendInt_def)

lemma trim_zeros:
  "s = rev (dropWhile (\<lambda>c. c = z) (rev s))
     @ replicate (length s - length (rev (dropWhile (\<lambda>c. c = z) (rev s)))) z"
proof -
  have tw: "takeWhile (\<lambda>c. c = z) r = replicate (length (takeWhile (\<lambda>c. c = z) r)) z" for r
    by (metis (mono_tags, lifting) replicate_length_same set_takeWhileD)
  have len: "length (takeWhile (\<lambda>c. c = z) r) = length r - length (dropWhile (\<lambda>c. c = z) r)" for r
    by (induction r) (auto simp: Suc_diff_le length_dropWhile_le)
  have "s = rev (takeWhile (\<lambda>c. c = z) (rev s) @ dropWhile (\<lambda>c. c = z) (rev s))"
    by simp
  also have "\<dots> = rev (dropWhile (\<lambda>c. c = z) (rev s)) @ rev (takeWhile (\<lambda>c. c = z) (rev s))"
    by (simp only: rev_append)
  also have "rev (takeWhile (\<lambda>c. c = z) (rev s)) = replicate (length (takeWhile (\<lambda>c. c = z) (rev s))) z"
    by (metis tw rev_replicate)
  finally show ?thesis by (simp only: len length_rev)
qed

lemma formatFraction_inj:
  assumes "0 \<le> m" "m < 1000000000" "0 \<le> n" "n < 1000000000"
    and "formatFraction m = formatFraction n"
  shows "m = n"
proof -
  have len: "length (appendInt k 9) = 9" if "0 \<le> k" "k < 1000000000" for k
    using that length_nat_String [of k 9] by (simp add: appendInt_def)
  show ?thesis
  proof (cases "m = 0 \<or> n = 0")
    case True
    with assms(5) show ?thesis by (auto simp: formatFraction_def split: if_splits)
  next
    case False
    then have "rev (dropWhile (\<lambda>c. c = CHR ''0'') (rev (appendInt m 9)))
        = rev (dropWhile (\<lambda>c. c = CHR ''0'') (rev (appendInt n 9)))"
      using assms(5) by (simp add: formatFraction_def)
    then have "appendInt m 9 = appendInt n 9"
      using trim_zeros [of "appendInt m 9" "CHR ''0''"] trim_zeros [of "appendInt n 9" "CHR ''0''"]
        len assms(1-4) by metis
    with assms show ?thesis by (auto dest: appendInt_inj)
  qed
qed

lemma formatFraction_head:
  obtains c r where "formatFraction n @ ''Z'' = c # r" "\<not> is_digit c"
  by (cases "n = 0") (auto simp: formatFraction_def is_digit_def)

lemma dateOf_parts:
  assumes "dateOf days = (y, yd)"
  obtains n400 n100 n4 n1 where "y - 1 = 400 * n400 + 100 * n100 + 4 * n4 + n1"
    and "days = 146097 * n400 + 36524 * n100 + 1461 * n4 + 365 * n1 + yd"
    and "n400 = days div 146097" "0 \<le> n100" "n100 \<le> 3" "0 \<le> n4" "n4 \<le> 24"
      "0 \<le> n1" "n1 \<le> 3" "0 \<le> yd"
proof -
  define n400 d1 where "n400 = days div 146097" and "d1 = days mod 146097"
  define n100 where "n100 = min 3 (d1 div 36524)"
  define d2 where "d2 = d1 - 36524 * n100"
  define n4 d3 where "n4 = d2 div 1461" and "d3 = d2 mod 1461"
  define n1 where "n1 = min 3 (d3 div 365)"
  have "dateOf days = (400 * n400 + 100 * n100 + 4 * n4 + n1 + 1, d3 - 365 * n1)"
    by (simp only: dateOf_def Let_def n400_def d1_def n100_def d2_def n4_def d3_def n1_def)
  then have y: "y - 1 = 400 * n400 + 100 * n100 + 4 * n4 + n1" and yd: "yd = d3 - 365 * n1"
    using assms by simp_all
  have d1: "0 \<le> d1" "d1 < 146097" "days = 146097 * n400 + d1" by (simp_all add: d1_def n400_def)
  define q where "q = d1 div 36524"
  have q: "d1 = 36524 * q + d1 mod 36524" "0 \<le> d1 mod 36524" "d1 mod 36524 < 36524"
    by (simp_all add: q_def)
  have n100q: "n100 = (if q \<le> 3 then q else 3)" by (simp add: n100_def q_def)
  have n100: "0 \<le> n100" "n100 \<le> 3" using d1 by (simp_all add: n100_def)
  have d2: "0 \<le> d2" "d2 < 36525"
  proof -
    have "0 \<le> d1 - 36524 * n100 \<and> d1 - 36524 * n100 < 36525"
    proof (cases "q \<le> 3")
      case True
      define r where "r = d1 mod 36524"
      from q have "d1 = 36524 * q + r" "0 \<le> r" "r < 36524" by (simp_all only: r_def)
      with True n100q show ?thesis by simp
    next
      case False
      define r where "r = d1 mod 36524"
      from q have "d1 = 36524 * q + r" "0 \<le> r" by (simp_all only: r_def)
      with False d1 n100q show ?thesis by simp
    qed
    then show "0 \<le> d2" "d2 < 36525" by (simp_all only: d2_def)
  qed
  have d3: "d2 = 1461 * n4 + d3" "0 \<le> d3" "d3 < 1461" by (simp_all add: n4_def d3_def)
  with d2 have n4: "0 \<le> n4" "n4 \<le> 24" by simp_all
  have n1: "0 \<le> n1" "n1 \<le> 3" using d3 by (simp_all add: n1_def)
  have "365 * n1 \<le> 365 * (d3 div 365)" by (simp add: n1_def)
  also have "\<dots> = d3 - d3 mod 365" by (rule minus_mod_eq_mult_div [symmetric])
  also have "\<dots> \<le> d3" by simp
  finally have "365 * n1 \<le> d3" .
  then have yd0: "0 \<le> yd" by (simp add: yd)
  have "days = 146097 * n400 + 36524 * n100 + 1461 * n4 + 365 * n1 + yd"
    using d1(3) d3(1) yd by (simp add: d2_def)
  from that [OF y this n400_def n100 n4 n1 yd0] show ?thesis .
qed

lemma dateOf_days:
  assumes "dateOf days = (y, yd)"
  shows "days = 365 * (y - 1) + (y - 1) div 4 - (y - 1) div 100 + (y - 1) div 400 + yd"
proof -
  obtain n400 n100 n4 n1 where y: "y - 1 = 400 * n400 + 100 * n100 + 4 * n4 + n1"
    and days: "days = 146097 * n400 + 36524 * n100 + 1461 * n4 + 365 * n1 + yd"
    and n: "0 \<le> n100" "n100 \<le> 3" "0 \<le> n4" "n4 \<le> 24" "0 \<le> n1" "n1 \<le> 3"
    using dateOf_parts [OF assms] by metis
  have "(y - 1) div 400 = n400"
    by (rule int_div_pos_eq [of _ _ _ "100 * n100 + 4 * n4 + n1"]) (use n in \<open>simp_all add: y\<close>)
  moreover have "(y - 1) div 100 = 4 * n400 + n100"
    by (rule int_div_pos_eq [of _ _ _ "4 * n4 + n1"]) (use n in \<open>simp_all add: y\<close>)
  moreover have "(y - 1) div 4 = 100 * n400 + 25 * n100 + n4"
    by (rule int_div_pos_eq [of _ _ _ n1]) (use n in \<open>simp_all add: y\<close>)
  ultimately have "365 * (y - 1) + (y - 1) div 4 - (y - 1) div 100 + (y - 1) div 400 + yd
      = 365 * (400 * n400 + 100 * n100 + 4 * n4 + n1)
        + (100 * n400 + 25 * n100 + n4) - (4 * n400 + n100) + n400 + yd"
    by (simp only: y)
  also have "\<dots> = days" by (simp add: days)
  finally show ?thesis by simp
qed

lemma dateOf_range:
  assumes "0 \<le> days" "dateOf days = (y, yd)"
  shows "1 \<le> y" "0 \<le> yd"
proof -
  obtain n400 n100 n4 n1 where y: "y - 1 = 400 * n400 + 100 * n100 + 4 * n4 + n1"
    and n: "n400 = days div 146097" "0 \<le> n100" "0 \<le> n4" "0 \<le> n1" and yd: "0 \<le> yd"
    using dateOf_parts [OF assms(2)] by metis
  have "0 \<le> n400" using assms(1) n(1) by (simp add: pos_imp_zdiv_nonneg_iff)
  with y n(2-4) show "1 \<le> y" by simp
  from yd show "0 \<le> yd" .
qed

lemma monthOf_sum:
  "0 \<le> d \<Longrightarrow> monthOf ks m0 d = (m, r) \<Longrightarrow>
     d = sum_list (take (nat (m - m0)) ks) + r \<and> m0 \<le> m \<and> 0 \<le> r"
proof (induction ks m0 d rule: monthOf.induct)
  case (2 k ks m0 d)
  show ?case
  proof (cases "d < k")
    case True
    with 2 show ?thesis by simp
  next
    case False
    then have ih: "d - k = sum_list (take (nat (m - (m0 + 1))) ks) + r" "m0 + 1 \<le> m" "0 \<le> r"
      using 2 by auto
    then have "nat (m - m0) = Suc (nat (m - (m0 + 1)))" by simp
    with ih show ?thesis by simp
  qed
qed simp

text \<open>The instant with the given date and time of day, and the fields of a printed instant.\<close>

definition instantOf :: "int \<Rightarrow> int \<Rightarrow> int \<Rightarrow> int \<Rightarrow> int \<Rightarrow> int \<Rightarrow> int \<Rightarrow> gotime" where
  "instantOf y m d h mi sec nanos =
     ((365 * (y - 1) + (y - 1) div 4 - (y - 1) div 100 + (y - 1) div 400
       + (sum_list (take (nat (m - 1)) (monthDays (isLeap y))) + (d - 1))) * 86400
      + (3600 * h + 60 * mi + sec)) * 1000000000 + nanos"

lemma FormatRFC3339Nano_fields:
  assumes "0 \<le> t"
  defines "secs \<equiv> t div 1000000000"
  defines "date \<equiv> dateOf (secs div 86400)"
  defines "md \<equiv> monthOf (monthDays (isLeap (fst date))) 1 (snd date)"
  defines "s \<equiv> secs mod 86400"
  shows "FormatRFC3339Nano t =
      appendInt (fst date) 4 @ CHR ''-'' # appendInt (fst md) 2 @ CHR ''-'' # appendInt (snd md + 1) 2
      @ CHR ''T'' # appendInt (s div 3600) 2 @ CHR '':'' # appendInt (s div 60 mod 60) 2
      @ CHR '':'' # appendInt (s mod 60) 2 @ (formatFraction (t mod 1000000000) @ ''Z'')"
    and "0 \<le> fst date" "0 \<le> fst md" "0 \<le> snd md + 1" "0 \<le> s div 3600" "0 \<le> s div 60 mod 60"
      "0 \<le> s mod 60"
    and "t = instantOf (fst date) (fst md) (snd md + 1) (s div 3600) (s div 60 mod 60) (s mod 60)
      (t mod 1000000000)"
proof -
  have days: "0 \<le> secs div 86400" using assms(1) by (simp add: secs_def pos_imp_zdiv_nonneg_iff)
  obtain y yd where d: "date = (y, yd)" by fastforce
  have range: "1 \<le> y" "0 \<le> yd" using dateOf_range [OF days] d by (simp_all add: date_def)
  obtain m r where m: "md = (m, r)" by fastforce
  have md: "yd = sum_list (take (nat (m - 1)) (monthDays (isLeap y))) + r" "1 \<le> m" "0 \<le> r"
    using monthOf_sum [OF range(2), of "monthDays (isLeap y)" 1 m r] m d by (simp_all add: md_def)
  show "FormatRFC3339Nano t =
      appendInt (fst date) 4 @ CHR ''-'' # appendInt (fst md) 2 @ CHR ''-'' # appendInt (snd md + 1) 2
      @ CHR ''T'' # appendInt (s div 3600) 2 @ CHR '':'' # appendInt (s div 60 mod 60) 2
      @ CHR '':'' # appendInt (s mod 60) 2 @ (formatFraction (t mod 1000000000) @ ''Z'')"
    by (simp only: FormatRFC3339Nano_def Let_def secs_def date_def md_def s_def append_Cons
        append_Nil)
  show "0 \<le> fst date" "0 \<le> fst md" "0 \<le> snd md + 1" using d m range md by simp_all
  show "0 \<le> s div 3600" "0 \<le> s div 60 mod 60" "0 \<le> s mod 60"
    by (simp_all add: s_def pos_imp_zdiv_nonneg_iff)
  have s: "3600 * (s div 3600) + 60 * (s div 60 mod 60) + s mod 60 = s"
  proof -
    have "s div 3600 = s div 60 div 60" using zdiv_zmult2_eq [of 60 s 60] by simp
    then have "3600 * (s div 3600) + 60 * (s div 60 mod 60)
        = 60 * (60 * (s div 60 div 60) + s div 60 mod 60)" by (simp only: distrib_left mult.assoc [symmetric])
    then show ?thesis by (simp only: mult_div_mod_eq)
  qed
  have "secs = secs div 86400 * 86400 + s" by (simp add: s_def)
  moreover have "t = secs * 1000000000 + t mod 1000000000" by (simp add: secs_def)
  moreover have "secs div 86400 = 365 * (y - 1) + (y - 1) div 4 - (y - 1) div 100
      + (y - 1) div 400 + yd"
    by (rule dateOf_days) (use d in \<open>simp add: date_def\<close>)
  ultimately show "t = instantOf (fst date) (fst md) (snd md + 1) (s div 3600) (s div 60 mod 60) (s mod 60)
      (t mod 1000000000)"
    unfolding instantOf_def s d m fst_conv snd_conv add_diff_cancel_right' md(1) [symmetric] by metis
qed

lemma FormatRFC3339Nano_inj:
  assumes "0 \<le> t" "0 \<le> u" "FormatRFC3339Nano t = FormatRFC3339Nano u"
  shows "t = u"
proof -
  note F = FormatRFC3339Nano_fields [OF assms(1)] and G = FormatRFC3339Nano_fields [OF assms(2)]
  have sep: "\<not> is_digit (CHR ''-'')" "\<not> is_digit (CHR ''T'')" "\<not> is_digit (CHR '':'')"
    by (simp_all add: is_digit_def)
  obtain c r where c: "formatFraction (t mod 1000000000) @ ''Z'' = c # r" "\<not> is_digit c"
    by (rule formatFraction_head)
  obtain d q where d: "formatFraction (u mod 1000000000) @ ''Z'' = d # q" "\<not> is_digit d"
    by (rule formatFraction_head)
  note digs = F(2-7) [THEN appendInt_digits] G(2-7) [THEN appendInt_digits]
  note spans = digits_span [OF digs(1) digs(7) sep(1) sep(1)] digits_span [OF digs(2) digs(8) sep(1) sep(1)]
    digits_span [OF digs(3) digs(9) sep(2) sep(2)] digits_span [OF digs(4) digs(10) sep(3) sep(3)]
    digits_span [OF digs(5) digs(11) sep(3) sep(3)] digits_span [OF digs(6) digs(12) c(2) d(2)]
  note eqs = assms(3) [unfolded F(1) G(1) c(1) d(1) spans]
  have frac: "t mod 1000000000 = u mod 1000000000"
  proof (rule formatFraction_inj)
    have "formatFraction (t mod 1000000000) @ ''Z'' = formatFraction (u mod 1000000000) @ ''Z''"
      unfolding c(1) d(1) using eqs by blast
    then show "formatFraction (t mod 1000000000) = formatFraction (u mod 1000000000)"
      by (simp only: append_same_eq)
  qed simp_all
  note fields_eq = appendInt_inj [OF F(2) G(2)] appendInt_inj [OF F(3) G(3)]
    appendInt_inj [OF F(4) G(4)] appendInt_inj [OF F(5) G(5)] appendInt_inj [OF F(6) G(6)]
    appendInt_inj [OF F(7) G(7)]
  have cong: "instantOf a b c d e f g = instantOf a' b' c' d' e' f' g'"
    if "a = a'" "b = b'" "c = c'" "d = d'" "e = e'" "f = f'" "g = g'" for a b c d e f g a' b' c' d' e' f' g'
    using that by simp
  show ?thesis
    by (subst F(8), subst G(8), rule cong) (use eqs frac fields_eq in blast)+
qed

text \<open>An instant within the range of \<^verbatim>\<open>time.Time\<close> not before year 1.\<close>

definition go_instant :: "gotime \<Rightarrow> bool" where
  "go_instant t \<longleftrightarrow> 0 \<le> t \<and> t < 2 ^ 63 * 10 ^ 9"

lemma monthOf_range: "0 \<le> d \<Longrightarrow> monthOf ks m0 d = (m, r) \<Longrightarrow> m \<le> m0 + int (length ks)"
  by (induction ks m0 d rule: monthOf.induct) (auto split: if_splits)

lemma appendInt_length: "0 \<le> x \<Longrightarrow> x < 10 ^ 30 \<Longrightarrow> length (appendInt x w) \<le> w + 30"
  using length_nat_String [of x 30] by (simp add: appendInt_def)

lemma formatFraction_length: "0 \<le> n \<Longrightarrow> n < 10 ^ 30 \<Longrightarrow> length (formatFraction n) \<le> 40"
  using appendInt_length [of n 9] length_dropWhile_le [of "\<lambda>c. c = CHR ''0''" "rev (appendInt n 9)"]
  by (simp add: formatFraction_def)

lemma FormatRFC3339Nano_fits:
  assumes "go_instant t"
  shows "fits32 (FormatRFC3339Nano t)"
proof -
  define secs where "secs = t div 1000000000"
  define date where "date = dateOf (secs div 86400)"
  define md where "md = monthOf (monthDays (isLeap (fst date))) 1 (snd date)"
  define s where "s = secs mod 86400"
  have t: "0 \<le> t" "t < 10 ^ 29" using assms by (simp_all add: go_instant_def)
  note F = FormatRFC3339Nano_fields [OF t(1), folded secs_def, folded s_def date_def, folded md_def]
  have le: "x div k \<le> x" if "0 \<le> x" for x k :: int
    using that int_div_le_self [of x k] by (cases "x = 0") simp_all
  have secs: "0 \<le> secs" "secs < 10 ^ 29"
    using t le [OF t(1), of 1000000000] by (simp_all add: secs_def pos_imp_zdiv_nonneg_iff)
  have days: "0 \<le> secs div 86400" "secs div 86400 < 10 ^ 29"
    using secs le [OF secs(1), of 86400] by (simp_all add: pos_imp_zdiv_nonneg_iff)
  obtain y yd where d: "date = (y, yd)" by fastforce
  then have dd: "dateOf (secs div 86400) = (y, yd)" by (simp add: date_def)
  obtain n400 n100 n4 n1 where y: "y - 1 = 400 * n400 + 100 * n100 + 4 * n4 + n1"
    and dy: "secs div 86400 = 146097 * n400 + 36524 * n100 + 1461 * n4 + 365 * n1 + yd"
    and n: "n400 = secs div 86400 div 146097" "0 \<le> n100" "0 \<le> n4" "0 \<le> n1" "0 \<le> yd"
    using dateOf_parts [OF dd] by metis
  have n400: "0 \<le> n400" unfolding n(1) by (intro pos_imp_zdiv_nonneg_iff [THEN iffD2] days) simp
  have "y - 1 \<le> secs div 86400" "yd \<le> secs div 86400"
    unfolding y dy using n(2-5) n400 by simp_all
  with days have yb: "y < 10 ^ 30" "yd < 10 ^ 29" by simp_all
  obtain m r where m: "md = (m, r)" by fastforce
  have mb: "m \<le> 13"
    using monthOf_range [of yd "monthDays (isLeap y)" 1 m r] n(5) m d
    by (simp add: md_def monthDays_def)
  have "0 \<le> sum_list (take (nat (m - 1)) (monthDays (isLeap y)))"
    by (rule sum_list_nonneg) (auto simp: monthDays_def dest!: in_set_takeD split: if_splits)
  then have rb: "r \<le> yd"
    using monthOf_sum [of yd "monthDays (isLeap y)" 1 m r] n(5) m d by (simp add: md_def)
  have sb: "s div 3600 < 10 ^ 30" "s div 60 mod 60 < 10 ^ 30" "s mod 60 < 10 ^ 30"
    using le [of s 3600] pos_mod_bound [of 86400 secs] pos_mod_bound [of 60 "s div 60"]
      pos_mod_bound [of 60 s]
    by (simp_all add: s_def)
  have mdb: "fst date < 10 ^ 30" "fst md < 10 ^ 30" "snd md + 1 < 10 ^ 30"
    using yb rb mb d m by simp_all
  note lens = appendInt_length [OF F(2) mdb(1), of 4] appendInt_length [OF F(3) mdb(2), of 2]
    appendInt_length [OF F(4) mdb(3), of 2] appendInt_length [OF F(5) sb(1), of 2]
    appendInt_length [OF F(6) sb(2), of 2] appendInt_length [OF F(7) sb(3), of 2]
  have fr: "length (formatFraction (t mod 1000000000)) \<le> 40"
    by (rule formatFraction_length) (simp_all add: less_trans [OF pos_mod_bound])
  have "length (FormatRFC3339Nano t) \<le> 300"
    unfolding F(1) using lens fr by simp
  then show ?thesis by (simp add: fits32_def)
qed

lemma go_instant_canonical:
  assumes "go_instant t"
  shows "go_instant (canonicalTimestamp t)"
proof -
  have "canonicalTimestamp t = 1000 * (t div 1000)"
    by (simp add: canonicalTimestamp_def TruncateTime_def microsecond_def minus_mod_eq_mult_div)
  moreover have "0 \<le> t div 1000"
    using assms by (simp add: go_instant_def pos_imp_zdiv_nonneg_iff)
  moreover have "canonicalTimestamp t \<le> t"
    by (simp add: canonicalTimestamp_def TruncateTime_def microsecond_def)
  ultimately show ?thesis using assms unfolding go_instant_def by linarith
qed

end
