(* ===== verification/Digests.thy ===== *)
theory Digests
  imports Encoding
begin

text \<open>
  The digests that are signed: of a posting intent (\<^verbatim>\<open>core/auth.go\<close>), of a batch of attested entries
  and the chain of roots over it (\<^verbatim>\<open>core/attestation.go\<close>), of a reservation discharge
  (\<^verbatim>\<open>core/reservation_auth.go\<close>), and their verification. Each digest is SHA-256 of a byte string; the
  lemmas show what that byte string determines. The signing key service is the caller's.
\<close>

section \<open>Journals and authorizations\<close>

type_synonym AuthStatus = string

definition AuthStatusSigned :: AuthStatus where "AuthStatusSigned = ''signed''"
definition AuthStatusUnsignedNoAttestor :: AuthStatus where
  "AuthStatusUnsignedNoAttestor = ''unsigned_no_attestor''"
definition AuthStatusUnsignedTxMode :: AuthStatus where
  "AuthStatusUnsignedTxMode = ''unsigned_tx_mode''"

lemmas auth_statuses = AuthStatusSigned_def AuthStatusUnsignedNoAttestor_def
  AuthStatusUnsignedTxMode_def

record 'd Journal =
  jn_UID :: string
  jn_JournalTypeUID :: string
  jn_IdempotencyKey :: string
  jn_TotalDebit :: 'd
  jn_TotalCredit :: 'd
  jn_Metadata :: metadata
  jn_ActorID :: int
  jn_Source :: string
  jn_ReversalOfUID :: string
  jn_EventUID :: string
  jn_EffectiveAt :: gotime
  jn_CreatedAt :: gotime
  jn_AuthDigest :: bytes
  jn_AuthSignature :: bytes
  jn_AuthKeyID :: string
  jn_AuthStatus :: AuthStatus

record 'd Entry =
  en_JournalUID :: string
  en_AccountHolder :: int
  en_CurrencyUID :: string
  en_ClassificationUID :: string
  en_EntryType :: EntryType
  en_Amount :: 'd
  en_EffectiveAt :: gotime
  en_CreatedAt :: gotime

record 'd AuthorizedJournal =
  aj_Input :: "'d JournalInput"
  aj_EffectiveAt :: gotime
  aj_Digest :: bytes
  aj_Signature :: bytes
  aj_KeyID :: string
  aj_Status :: AuthStatus

text \<open>The services behind the \<^verbatim>\<open>Attestor\<close> and \<^verbatim>\<open>AuthVerifier\<close> interfaces.\<close>

type_synonym Attestor = "bytes \<Rightarrow> (bytes \<times> string) result"
type_synonym AuthVerifier = "bytes \<Rightarrow> bytes \<Rightarrow> string \<Rightarrow> unit result"

section \<open>The digest of a posting intent\<close>

definition authDigestDomain :: byte where "authDigestDomain = 0x10"

definition entryDigestLess :: "'d decimal_ops \<Rightarrow> 'd EntryInput \<Rightarrow> 'd EntryInput \<Rightarrow> bool" where
  "entryDigestLess D a b =
     (if ei_AccountHolder a \<noteq> ei_AccountHolder b then ei_AccountHolder a < ei_AccountHolder b
      else if ei_CurrencyUID a \<noteq> ei_CurrencyUID b then ei_CurrencyUID a < ei_CurrencyUID b
      else if ei_ClassificationUID a \<noteq> ei_ClassificationUID b
        then ei_ClassificationUID a < ei_ClassificationUID b
      else if ei_EntryType a \<noteq> ei_EntryType b then ei_EntryType a < ei_EntryType b
      else dCmp D (ei_Amount a) (ei_Amount b) < 0)"

definition encodeDigestEntry :: "'d decimal_ops \<Rightarrow> 'd EntryInput \<Rightarrow> bytes result" where
  "encodeDigestEntry D e =
     bindR (EncodeAmount D (ei_Amount e)) (\<lambda>amtBytes. Inr
       (writeBE64 (ei_AccountHolder e) @ writeLenPrefixed (ei_CurrencyUID e)
        @ writeLenPrefixed (ei_ClassificationUID e) @ writeLenPrefixed (ei_EntryType e) @ amtBytes))"

definition journalPreimage :: "'d decimal_ops \<Rightarrow> 'd JournalInput \<Rightarrow> gotime \<Rightarrow> bytes result" where
  "journalPreimage D input effectiveAt =
     (let entries = sort_by (entryDigestLess D) (ji_Entries input)
      in bindR (mapR (encodeDigestEntry D) entries) (\<lambda>body. Inr
           (authDigestDomain # writeLenPrefixed (ji_JournalTypeUID input)
            @ writeLenPrefixed (ji_IdempotencyKey input) @ writeBE64 (ji_ActorID input)
            @ writeLenPrefixed (ji_Source input)
            @ writeLenPrefixed (FormatRFC3339Nano (canonicalTimestamp effectiveAt))
            @ writeLenPrefixed (ji_ReversalOfUID input)
            @ writeBE64 (int (length entries)) @ concat body)))"

definition CanonicalJournalDigest :: "'d decimal_ops \<Rightarrow> 'd JournalInput \<Rightarrow> gotime \<Rightarrow> bytes result" where
  "CanonicalJournalDigest D input effectiveAt =
     bindR (journalPreimage D input effectiveAt) (\<lambda>buf. Inr (Sum256 buf))"

definition VerifyJournalAuth ::
  "'d decimal_ops \<Rightarrow> AuthVerifier \<Rightarrow> 'd JournalInput \<Rightarrow> gotime \<Rightarrow> bytes \<Rightarrow> bytes \<Rightarrow> string
    \<Rightarrow> unit result" where
  "VerifyJournalAuth D verifier input effectiveAt storedDigest signature keyID =
     (if storedDigest = [] then Inl [ErrUnauthorizedJournal]
      else bindR (CanonicalJournalDigest D input effectiveAt) (\<lambda>recomputed.
        if recomputed \<noteq> storedDigest then Inl [ErrUnauthorizedJournal]
        else if signature = [] \<or> keyID = [] then Inl [ErrUnauthorizedJournal]
        else (case verifier recomputed signature keyID of
                Inl e \<Rightarrow> Inl (e @ [ErrUnauthorizedJournal])
              | Inr u \<Rightarrow> Inr ())))"

definition JournalInputFromRecord :: "'d Journal \<Rightarrow> 'd Entry list \<Rightarrow> 'd JournalInput" where
  "JournalInputFromRecord j entries = \<lparr>
     ji_JournalTypeUID = jn_JournalTypeUID j, ji_IdempotencyKey = jn_IdempotencyKey j,
     ji_Entries = map (\<lambda>e. \<lparr>ei_AccountHolder = en_AccountHolder e, ei_CurrencyUID = en_CurrencyUID e,
        ei_ClassificationUID = en_ClassificationUID e, ei_EntryType = en_EntryType e,
        ei_Amount = en_Amount e\<rparr>) entries,
     ji_Metadata = [], ji_ActorID = jn_ActorID j, ji_Source = jn_Source j,
     ji_ReversalOfUID = jn_ReversalOfUID j, ji_EventUID = [], ji_EffectiveAt = 0\<rparr>"

section \<open>Attested batches\<close>

definition GenesisRootHashLen :: nat where "GenesisRootHashLen = 32"
definition GenesisRoot :: bytes where "GenesisRoot = replicate GenesisRootHashLen 0"

definition batchDigestDomain :: byte where "batchDigestDomain = 0x02"
definition rootHashDomain :: byte where "rootHashDomain = 0x03"
definition rootHashDomainV2 :: byte where "rootHashDomainV2 = 0x11"
definition rootHashDomainV3 :: byte where "rootHashDomainV3 = 0x12"
definition authVerdictDigestDomain :: byte where "authVerdictDigestDomain = 0x13"

record 'd AttestedEntry =
  at_EntryID :: int
  at_JournalID :: int
  at_AccountHolder :: int
  at_CurrencyID :: int
  at_ClassificationID :: int
  at_EntryType :: EntryType
  at_Amount :: 'd
  at_EffectiveAt :: gotime

record Attestation =
  as_UID :: string
  as_Seq :: int
  as_EntryCount :: int
  as_BatchDigest :: bytes
  as_MerkleRoot :: bytes
  as_AuthVerdictDigest :: bytes
  as_PrevRoot :: bytes
  as_RootHash :: bytes
  as_Signature :: bytes
  as_KeyID :: string
  as_CreatedAt :: gotime

record AttestedLeaf =
  al_EntryID :: int
  al_LeafHash :: bytes

definition encodeAttestedEntry :: "'d decimal_ops \<Rightarrow> 'd AttestedEntry \<Rightarrow> bytes result" where
  "encodeAttestedEntry D e =
     bindR (EncodeAmount D (at_Amount e)) (\<lambda>amtBytes. Inr
       (writeBE64 (at_EntryID e) @ writeBE64 (at_JournalID e) @ writeBE64 (at_AccountHolder e)
        @ writeBE64 (at_CurrencyID e) @ writeBE64 (at_ClassificationID e)
        @ writeLenPrefixed (at_EntryType e) @ amtBytes
        @ writeLenPrefixed (FormatRFC3339Nano (canonicalTimestamp (at_EffectiveAt e)))))"

definition batchPreimage :: "'d decimal_ops \<Rightarrow> 'd AttestedEntry list \<Rightarrow> bytes result" where
  "batchPreimage D entries =
     bindR (mapR (encodeAttestedEntry D) entries) (\<lambda>payloads.
       Inr (batchDigestDomain # writeBE64 (int (length entries)) @ concat payloads))"

definition CanonicalBatchDigest :: "'d decimal_ops \<Rightarrow> 'd AttestedEntry list \<Rightarrow> bytes result" where
  "CanonicalBatchDigest D entries = bindR (batchPreimage D entries) (\<lambda>buf. Inr (Sum256 buf))"

definition AttestationRootHash :: "int \<Rightarrow> bytes \<Rightarrow> bytes \<Rightarrow> int \<Rightarrow> bytes result" where
  "AttestationRootHash seq prevRoot batchDigest entryCount =
     (if length prevRoot \<noteq> GenesisRootHashLen then invalid
      else if length batchDigest \<noteq> GenesisRootHashLen then invalid
      else Inr (Sum256 (rootHashDomain # writeBE64 seq @ prevRoot @ batchDigest @ writeBE64 entryCount)))"

definition AttestationRootHashV2 :: "int \<Rightarrow> bytes \<Rightarrow> bytes \<Rightarrow> bytes \<Rightarrow> int \<Rightarrow> bytes result" where
  "AttestationRootHashV2 seq prevRoot batchDigest merkleRoot entryCount =
     (if length prevRoot \<noteq> GenesisRootHashLen then invalid
      else if length batchDigest \<noteq> GenesisRootHashLen then invalid
      else if length merkleRoot \<noteq> GenesisRootHashLen then invalid
      else Inr (Sum256 (rootHashDomainV2 # writeBE64 seq @ prevRoot @ batchDigest @ merkleRoot
             @ writeBE64 entryCount)))"

type_synonym JournalAuthVerdict = string

definition JournalAuthVerdictUnknown :: JournalAuthVerdict where "JournalAuthVerdictUnknown = []"
definition JournalAuthVerdictAuthorized :: JournalAuthVerdict where
  "JournalAuthVerdictAuthorized = ''authorized''"
definition JournalAuthVerdictUnauthorized :: JournalAuthVerdict where
  "JournalAuthVerdictUnauthorized = ''unauthorized''"

definition AuthVerdictDigest ::
  "'d AttestedEntry list \<Rightarrow> JournalAuthVerdict list \<Rightarrow> bytes result" where
  "AuthVerdictDigest entries verdicts =
     (if length entries \<noteq> length verdicts then invalid
      else Inr (Sum256 (authVerdictDigestDomain # writeBE64 (int (length entries))
             @ concat (map2 (\<lambda>e v. writeBE64 (at_EntryID e) @ writeLenPrefixed v) entries verdicts))))"

definition AttestationRootHashV3 ::
  "int \<Rightarrow> bytes \<Rightarrow> bytes \<Rightarrow> bytes \<Rightarrow> bytes \<Rightarrow> int \<Rightarrow> bytes result" where
  "AttestationRootHashV3 seq prevRoot batchDigest merkleRoot authVerdictDigest entryCount =
     (if length prevRoot \<noteq> GenesisRootHashLen then invalid
      else if length batchDigest \<noteq> GenesisRootHashLen then invalid
      else if length merkleRoot \<noteq> GenesisRootHashLen then invalid
      else if length authVerdictDigest \<noteq> GenesisRootHashLen then invalid
      else Inr (Sum256 (rootHashDomainV3 # writeBE64 seq @ prevRoot @ batchDigest @ merkleRoot
             @ authVerdictDigest @ writeBE64 entryCount)))"

section \<open>Reservation discharges\<close>

definition ReservationOpSettle :: string where "ReservationOpSettle = ''settle''"
definition ReservationOpRelease :: string where "ReservationOpRelease = ''release''"
definition ReservationOpFinalizeSettlement :: string where
  "ReservationOpFinalizeSettlement = ''finalize_settlement''"
definition ReservationOpSettlePartial :: string where
  "ReservationOpSettlePartial = ''settle_partial''"

definition reservationDischargeDigestDomain :: byte where "reservationDischargeDigestDomain = 0x11"

record 'd ReservationDischargeIntent =
  rd_ReservationUID :: string
  rd_Operation :: string
  rd_Amount :: 'd
  rd_IdempotencyKey :: string
  rd_RecordedAt :: gotime

definition dischargePreimage :: "'d decimal_ops \<Rightarrow> 'd ReservationDischargeIntent \<Rightarrow> bytes result" where
  "dischargePreimage D i =
     bindR (EncodeAmount D (rd_Amount i)) (\<lambda>amtBytes. Inr
       (reservationDischargeDigestDomain # writeLenPrefixed (rd_ReservationUID i)
        @ writeLenPrefixed (rd_Operation i) @ writeLenPrefixed (rd_IdempotencyKey i)
        @ writeLenPrefixed (FormatRFC3339Nano (canonicalTimestamp (rd_RecordedAt i))) @ amtBytes))"

definition CanonicalReservationDischargeDigest ::
  "'d decimal_ops \<Rightarrow> 'd ReservationDischargeIntent \<Rightarrow> bytes result" where
  "CanonicalReservationDischargeDigest D i = bindR (dischargePreimage D i) (\<lambda>buf. Inr (Sum256 buf))"

text \<open>The verifier is absent when none is configured; the errors wrap no sentinel of their own.\<close>

definition VerifyReservationDischargeAuth ::
  "'d decimal_ops \<Rightarrow> AuthVerifier option \<Rightarrow> 'd ReservationDischargeIntent \<Rightarrow> bytes \<Rightarrow> bytes \<Rightarrow> string
    \<Rightarrow> unit result" where
  "VerifyReservationDischargeAuth D verifier i storedDigest signature keyID =
     (case verifier of None \<Rightarrow> Inl []
      | Some ver \<Rightarrow>
          if storedDigest = [] then Inl []
          else bindR (CanonicalReservationDischargeDigest D i) (\<lambda>recomputed.
            if recomputed \<noteq> storedDigest then Inl []
            else if signature = [] \<or> keyID = [] then Inl []
            else ver recomputed signature keyID))"

section \<open>What a preimage determines\<close>

text \<open>Two entries with the same view are the same posting: the amount counts by value.\<close>

definition entry_view ::
  "'d decimal_ops \<Rightarrow> 'd EntryInput \<Rightarrow> int \<times> string \<times> string \<times> string \<times> rat" where
  "entry_view D e = (ei_AccountHolder e, ei_CurrencyUID e, ei_ClassificationUID e, ei_EntryType e,
     dval D (ei_Amount e))"

definition journal_intent ::
  "'d decimal_ops \<Rightarrow> 'd JournalInput \<Rightarrow> gotime \<Rightarrow>
     (string \<times> string \<times> int \<times> string \<times> gotime \<times> string)
     \<times> (int \<times> string \<times> string \<times> string \<times> rat) multiset" where
  "journal_intent D j t =
     ((ji_JournalTypeUID j, ji_IdempotencyKey j, ji_ActorID j, ji_Source j, canonicalTimestamp t,
       ji_ReversalOfUID j), mset (map (entry_view D) (ji_Entries j)))"

text \<open>The sizes Go's types impose: 64-bit integers, string lengths that fit the 32-bit prefix.\<close>

definition go_sized :: "'d JournalInput \<Rightarrow> bool" where
  "go_sized j \<longleftrightarrow> is_int64 (ji_ActorID j) \<and> length (ji_Entries j) < 2 ^ 63
     \<and> fits32 (ji_JournalTypeUID j) \<and> fits32 (ji_IdempotencyKey j)
     \<and> fits32 (ji_Source j) \<and> fits32 (ji_ReversalOfUID j)
     \<and> list_all (\<lambda>e. is_int64 (ei_AccountHolder e) \<and> fits32 (ei_CurrencyUID e)
          \<and> fits32 (ei_ClassificationUID e) \<and> fits32 (ei_EntryType e))
        (ji_Entries j)"

lemma sort_eq_iff: "sort xs = sort ys \<longleftrightarrow> mset xs = mset ys"
proof
  assume "sort xs = sort ys"
  then have "mset (sort xs) = mset (sort ys)" by (rule arg_cong)
  then show "mset xs = mset ys" by (simp only: mset_sort)
next
  assume eq: "mset xs = mset ys"
  show "sort xs = sort ys" by (rule properties_for_sort) (simp_all add: eq)
qed

lemma length_Sum256 [simp]: "length (Sum256 m) = 32"
  by (simp add: Sum256_def sha_words_def split: prod.split)

lemma Sum256_nonempty [simp]: "Sum256 m \<noteq> []"
  by (metis length_Sum256 list.size(3) zero_neq_numeral)

lemma be_bytes_numeral:
  "be_bytes (numeral n) v = be_bytes (pred_numeral n) (v div 256) @ [word_of_int v]"
  by (simp add: numeral_eq_Suc)

lemma list_all_sort_by: "list_all P (sort_by lt xs) = list_all P xs"
  by (simp add: list_all_iff)

lemma be64_append:
  assumes "is_int64 a" "is_int64 b"
  shows "writeBE64 a @ x = writeBE64 b @ y \<longleftrightarrow> a = b \<and> x = y"
proof -
  have "a = b" if eq: "a mod 256 ^ 8 = b mod 256 ^ 8"
  proof -
    have "(a + 2 ^ 63) mod 256 ^ 8 = (b + 2 ^ 63) mod 256 ^ 8" by (rule mod_add_cong [OF eq refl])
    then have "wrap64 a = wrap64 b" by (simp add: wrap64_def)
    then show ?thesis by (simp only: wrap64_id assms)
  qed
  then show ?thesis unfolding writeBE64_def be_bytes_append by blast
qed

context decimal_lib
begin

lemma EncodeAmount_length: "EncodeAmount D a = Inr bs \<Longrightarrow> length bs = 16"
  by (auto simp: EncodeAmount_Inr)

lemma EncodeAmount_eq:
  assumes "EncodeAmount D a = Inr bs" "EncodeAmount D b = Inr cs"
  shows "bs = cs \<longleftrightarrow> dval D a = dval D b"
proof -
  obtain i where i: "dval D a * 10 ^ 18 = of_int i" "bs = be_bytes 16 i"
    and ra: "validateAmountIsRescalable D a = Inr ()"
    using assms(1) by (auto simp: EncodeAmount_Inr)
  obtain j where j: "dval D b * 10 ^ 18 = of_int j" "cs = be_bytes 16 j"
    and rb: "validateAmountIsRescalable D b = Inr ()"
    using assms(2) by (auto simp: EncodeAmount_Inr)
  have range: "\<bar>k\<bar> < 10 ^ 30" if "v * 10 ^ 18 = (of_int k :: rat)" "\<bar>v\<bar> < 10 ^ 12" for v k
  proof -
    have "\<bar>v * 10 ^ 18\<bar> < 10 ^ 30" using that(2) by (simp add: abs_mult)
    then have "\<bar>of_int k :: rat\<bar> < of_int (10 ^ 30)"
      by (simp only: that(1) of_int_power of_int_numeral)
    then show ?thesis by (metis of_int_abs of_int_less_iff)
  qed
  have ri: "\<bar>i\<bar> < 10 ^ 30" "\<bar>j\<bar> < 10 ^ 30"
    by (rule range [OF i(1) validateAmountIsRescalable_bound [OF ra]],
        rule range [OF j(1) validateAmountIsRescalable_bound [OF rb]])
  have "be_bytes 16 i = be_bytes 16 j \<longleftrightarrow> i = j"
  proof
    assume "be_bytes 16 i = be_bytes 16 j"
    then have "i mod 256 ^ 16 = j mod 256 ^ 16" by (simp only: be_bytes_eq)
    then have "(i + 2 ^ 127) mod 256 ^ 16 = (j + 2 ^ 127) mod 256 ^ 16"
      by (rule mod_add_cong) (rule refl)
    moreover have "(k + 2 ^ 127) mod 256 ^ 16 = k + 2 ^ 127" if "\<bar>k\<bar> < 10 ^ 30" for k :: int
      using that by (intro mod_pos_pos_trivial) (simp_all add: abs_less_iff)
    ultimately have "i + 2 ^ 127 = j + 2 ^ 127" using ri by metis
    then show "i = j" by simp
  qed simp
  also have "\<dots> \<longleftrightarrow> (of_int i :: rat) = of_int j" by (rule of_int_eq_iff [symmetric])
  also have "\<dots> \<longleftrightarrow> dval D a = dval D b" unfolding i(1) [symmetric] j(1) [symmetric] by simp
  finally show ?thesis using i(2) j(2) by simp
qed

lemma entryDigestLess_key:
  "entryDigestLess D a b \<longleftrightarrow> entry_view D a < entry_view D b"
  by (auto simp: entryDigestLess_def entry_view_def less_prod_def' Cmp)

lemma sorted_views:
  "map (entry_view D) (sort_by (entryDigestLess D) es) = sort (map (entry_view D) es)"
proof -
  have "map (entry_view D) (sort_key (entry_view D) es) = sort (map (entry_view D) es)"
    by (rule properties_for_sort [symmetric]) simp_all
  then show ?thesis by (simp only: sort_by_key [OF entryDigestLess_key])
qed

lemma encodeDigestEntry_append:
  assumes "encodeDigestEntry D a = Inr p" "encodeDigestEntry D b = Inr q"
    and "is_int64 (ei_AccountHolder a)" "is_int64 (ei_AccountHolder b)"
    and "fits32 (ei_CurrencyUID a)" "fits32 (ei_CurrencyUID b)"
    and "fits32 (ei_ClassificationUID a)" "fits32 (ei_ClassificationUID b)"
    and "fits32 (ei_EntryType a)" "fits32 (ei_EntryType b)"
  shows "p @ x = q @ y \<longleftrightarrow> entry_view D a = entry_view D b \<and> x = y"
proof -
  obtain m where m: "EncodeAmount D (ei_Amount a) = Inr m"
    and p: "p = writeBE64 (ei_AccountHolder a) @ writeLenPrefixed (ei_CurrencyUID a)
        @ writeLenPrefixed (ei_ClassificationUID a) @ writeLenPrefixed (ei_EntryType a) @ m"
    using assms(1) by (auto simp: encodeDigestEntry_def)
  obtain n where n: "EncodeAmount D (ei_Amount b) = Inr n"
    and q: "q = writeBE64 (ei_AccountHolder b) @ writeLenPrefixed (ei_CurrencyUID b)
        @ writeLenPrefixed (ei_ClassificationUID b) @ writeLenPrefixed (ei_EntryType b) @ n"
    using assms(2) by (auto simp: encodeDigestEntry_def)
  have "m @ x = n @ y \<longleftrightarrow> dval D (ei_Amount a) = dval D (ei_Amount b) \<and> x = y"
    using EncodeAmount_eq [OF m n] EncodeAmount_length [OF m] EncodeAmount_length [OF n] by auto
  then show ?thesis
    by (simp add: p q be64_append writeLenPrefixed_append assms(3-10) entry_view_def)
qed

lemma encoded_entries_eq:
  assumes "mapR (encodeDigestEntry D) es = Inr ps" "mapR (encodeDigestEntry D) fs = Inr qs"
    and "length es = length fs"
    and "list_all (\<lambda>e. is_int64 (ei_AccountHolder e) \<and> fits32 (ei_CurrencyUID e)
          \<and> fits32 (ei_ClassificationUID e) \<and> fits32 (ei_EntryType e)) (es @ fs)"
  shows "concat ps = concat qs \<longleftrightarrow> map (entry_view D) es = map (entry_view D) fs"
  using assms(3,1,2,4)
proof (induction es fs arbitrary: ps qs rule: list_induct2)
  case (Cons e es f fs)
  then obtain p ps' q qs' where enc: "encodeDigestEntry D e = Inr p" "encodeDigestEntry D f = Inr q"
    and rest: "mapR (encodeDigestEntry D) es = Inr ps'" "mapR (encodeDigestEntry D) fs = Inr qs'"
    and eq: "ps = p # ps'" "qs = q # qs'"
    by auto
  have "concat ps' = concat qs' \<longleftrightarrow> map (entry_view D) es = map (entry_view D) fs"
    using Cons.IH [OF rest] Cons.prems(3) by simp
  then show ?case
    using encodeDigestEntry_append [OF enc] Cons.prems(3) by (simp add: eq)
qed simp

lemma journalPreimage_eq:
  assumes "journalPreimage D j t = Inr p" "journalPreimage D k u = Inr q"
    and "go_sized j" "go_sized k" "go_instant t" "go_instant u"
  shows "p = q \<longleftrightarrow> journal_intent D j t = journal_intent D k u"
proof -
  let ?es = "sort_by (entryDigestLess D) (ji_Entries j)"
  let ?fs = "sort_by (entryDigestLess D) (ji_Entries k)"
  let ?ts = "FormatRFC3339Nano (canonicalTimestamp t)"
  let ?us = "FormatRFC3339Nano (canonicalTimestamp u)"
  obtain ps where ps: "mapR (encodeDigestEntry D) ?es = Inr ps"
    and p: "p = authDigestDomain # writeLenPrefixed (ji_JournalTypeUID j)
            @ writeLenPrefixed (ji_IdempotencyKey j) @ writeBE64 (ji_ActorID j)
            @ writeLenPrefixed (ji_Source j) @ writeLenPrefixed ?ts
            @ writeLenPrefixed (ji_ReversalOfUID j) @ writeBE64 (int (length ?es)) @ concat ps"
    using assms(1) by (auto simp: journalPreimage_def Let_def)
  obtain qs where qs: "mapR (encodeDigestEntry D) ?fs = Inr qs"
    and q: "q = authDigestDomain # writeLenPrefixed (ji_JournalTypeUID k)
            @ writeLenPrefixed (ji_IdempotencyKey k) @ writeBE64 (ji_ActorID k)
            @ writeLenPrefixed (ji_Source k) @ writeLenPrefixed ?us
            @ writeLenPrefixed (ji_ReversalOfUID k) @ writeBE64 (int (length ?fs)) @ concat qs"
    using assms(2) by (auto simp: journalPreimage_def Let_def)
  note ct = go_instant_canonical [OF assms(5)] go_instant_canonical [OF assms(6)]
  note fits = assms(3,4) [unfolded go_sized_def] FormatRFC3339Nano_fits [OF ct(1)]
    FormatRFC3339Nano_fits [OF ct(2)]
  have fj: "is_int64 (ji_ActorID j)" "fits32 (ji_JournalTypeUID j)" "fits32 (ji_IdempotencyKey j)"
      "fits32 (ji_Source j)" "fits32 (ji_ReversalOfUID j)"
    and fk: "is_int64 (ji_ActorID k)" "fits32 (ji_JournalTypeUID k)" "fits32 (ji_IdempotencyKey k)"
      "fits32 (ji_Source k)" "fits32 (ji_ReversalOfUID k)"
    using fits(1,2) by simp_all
  have time: "?ts = ?us \<longleftrightarrow> canonicalTimestamp t = canonicalTimestamp u"
    using FormatRFC3339Nano_inj ct by (auto simp: go_instant_def)
  have len: "is_int64 (int (length ?es))" "is_int64 (int (length ?fs))"
    using fits by (simp_all add: is_int64_def int64_min_def int64_max_def)
  have body: "length ?es = length ?fs \<and> concat ps = concat qs \<longleftrightarrow>
      mset (map (entry_view D) (ji_Entries j)) = mset (map (entry_view D) (ji_Entries k))"
  proof -
    have all: "list_all (\<lambda>e. is_int64 (ei_AccountHolder e) \<and> fits32 (ei_CurrencyUID e)
          \<and> fits32 (ei_ClassificationUID e) \<and> fits32 (ei_EntryType e)) (?es @ ?fs)"
      using fits(1,2) by (simp only: list_all_append list_all_sort_by simp_thms)
    have "length ?es = length ?fs \<and> concat ps = concat qs \<longleftrightarrow>
        map (entry_view D) ?es = map (entry_view D) ?fs"
      using encoded_entries_eq [OF ps qs _ all] map_eq_imp_length_eq by blast
    also have "\<dots> \<longleftrightarrow> mset (map (entry_view D) (ji_Entries j)) = mset (map (entry_view D) (ji_Entries k))"
      unfolding sorted_views by (rule sort_eq_iff)
    finally show ?thesis .
  qed
  have "p = q \<longleftrightarrow> ji_JournalTypeUID j = ji_JournalTypeUID k \<and> ji_IdempotencyKey j = ji_IdempotencyKey k
      \<and> ji_ActorID j = ji_ActorID k \<and> ji_Source j = ji_Source k \<and> ?ts = ?us
      \<and> ji_ReversalOfUID j = ji_ReversalOfUID k \<and> length ?es = length ?fs \<and> concat ps = concat qs"
    unfolding p q list.inject writeLenPrefixed_append [OF fj(2) fk(2)]
      writeLenPrefixed_append [OF fj(3) fk(3)] be64_append [OF fj(1) fk(1)]
      writeLenPrefixed_append [OF fj(4) fk(4)] writeLenPrefixed_append [OF fits(3,4)]
      writeLenPrefixed_append [OF fj(5) fk(5)] be64_append [OF len] of_nat_eq_iff
    by (simp only: simp_thms)
  then show ?thesis
    by (simp only: journal_intent_def prod.inject conj_assoc time body)
qed

lemma EncodeAmount_ok:
  assumes "ValidateAmountMagnitude D a = Inr ()"
  shows "\<exists>bs. EncodeAmount D a = Inr bs"
  using ValidateAmountMagnitude_storable [OF assms] ValidateAmountMagnitude_rescalable [OF assms]
  by (auto simp: EncodeAmount_Inr storable_def)

lemma journalPreimage_amounts:
  assumes "\<forall>e\<in>set (ji_Entries j). ValidateAmountMagnitude D (ei_Amount e) = Inr ()"
  shows "\<exists>p. journalPreimage D j t = Inr p"
proof -
  have "\<forall>e\<in>set (sort_by (entryDigestLess D) (ji_Entries j)). \<exists>bs. encodeDigestEntry D e = Inr bs"
    using assms EncodeAmount_ok by (fastforce simp: encodeDigestEntry_def)
  then obtain body where "mapR (encodeDigestEntry D) (sort_by (entryDigestLess D) (ji_Entries j)) = Inr body"
    using mapR_ok by blast
  then show ?thesis by (simp add: journalPreimage_def Let_def)
qed

lemma journalPreimage_ok:
  assumes "JournalInput_Validate D J now j = Inr ()"
  shows "\<exists>p. journalPreimage D j t = Inr p"
  using assms by (intro journalPreimage_amounts) (simp add: JournalInput_Validate_Inr well_formed_def validateEntry_def)

end

lemma VerifyJournalAuth_Inr:
  "VerifyJournalAuth D ver j t dg sg k = Inr () \<longleftrightarrow>
     dg \<noteq> [] \<and> CanonicalJournalDigest D j t = Inr dg \<and> sg \<noteq> [] \<and> k \<noteq> [] \<and> ver dg sg k = Inr ()"
  by (auto simp: VerifyJournalAuth_def split: sum.splits)

section \<open>Properties\<close>

text \<open>C32. Two accepted journals have the same signed bytes exactly when they are the same posting
  intent: type, idempotency key, actor, source, instant to the microsecond, reversed journal and the
  collection of entries with amounts by value. Entry order, the representation of amounts, the event
  link and the metadata do not enter, and every accepted journal has a digest.\<close>

theorem digest_pins_intent:
  assumes "decimal_lib D"
    and "JournalInput_Validate D J now j = Inr ()" "JournalInput_Validate D J now k = Inr ()"
    and "go_sized j" "go_sized k" "go_instant t" "go_instant u"
  shows "\<exists>p q. journalPreimage D j t = Inr p \<and> journalPreimage D k u = Inr q
    \<and> CanonicalJournalDigest D j t = Inr (Sum256 p) \<and> CanonicalJournalDigest D k u = Inr (Sum256 q)
    \<and> (p = q \<longleftrightarrow> journal_intent D j t = journal_intent D k u)"
proof -
  obtain p q where p: "journalPreimage D j t = Inr p" and q: "journalPreimage D k u = Inr q"
    using decimal_lib.journalPreimage_ok [OF assms(1)] assms(2,3) by blast
  with decimal_lib.journalPreimage_eq [OF assms(1) p q assms(4-7)] show ?thesis
    by (simp add: CanonicalJournalDigest_def)
qed

definition signed_sample :: "int \<Rightarrow> (int \<times> int) JournalInput" where
  "signed_sample z = sample_journal
     (if z = 0 then [sample_entry 7 ''debit'' (150, -1), sample_entry (- 7) ''credit'' (15, 0)]
      else [sample_entry (- 7) ''credit'' (1500, -2), sample_entry 7 ''debit'' (15, 0)])"

theorem digest_pins_intent_witness:
  "CanonicalJournalDigest ref_decimal (signed_sample 0) 5000
     = CanonicalJournalDigest ref_decimal (signed_sample 1) 5999"
proof -
  have ok: "JournalInput_Validate ref_decimal no_json 0 (signed_sample 0) = Inr ()"
    "JournalInput_Validate ref_decimal no_json 0 (signed_sample 1) = Inr ()"
    by code_simp+
  have sized: "go_sized (signed_sample 0)" "go_sized (signed_sample 1)"
    by (simp_all add: go_sized_def signed_sample_def sample_journal_def sample_entry_def is_int64_def
        int64_min_def int64_max_def fits32_def)
  have inst: "go_instant 5000" "go_instant 5999" by (simp_all add: go_instant_def)
  have "journal_intent ref_decimal (signed_sample 0) 5000 = journal_intent ref_decimal (signed_sample 1) 5999"
    by (simp add: journal_intent_def signed_sample_def sample_journal_def sample_entry_def
        entry_view_def dval_ref ce_val_def canonicalTimestamp_def TruncateTime_def microsecond_def)
  with digest_pins_intent [OF ref.decimal_lib_axioms ok sized inst] show ?thesis by auto
qed

text \<open>C33. A stored digest authorizes one posting: when two records verify against the same stored
  digest, under whatever keys and signatures, they are the same posting intent, unless they exhibit
  two different byte strings with the same SHA-256 hash. A record that verifies has a nonempty
  digest, signature and key.\<close>

theorem stored_digest_authorizes_one_intent:
  assumes "decimal_lib D"
    and "VerifyJournalAuth D ver j t dg sg key = Inr ()"
    and "VerifyJournalAuth D ver' k u dg sg' key' = Inr ()"
    and "go_sized j" "go_sized k" "go_instant t" "go_instant u"
  shows "dg \<noteq> [] \<and> sg \<noteq> [] \<and> key \<noteq> [] \<and> ver dg sg key = Inr ()
    \<and> (journal_intent D j t = journal_intent D k u
       \<or> (\<exists>p q. journalPreimage D j t = Inr p \<and> journalPreimage D k u = Inr q
            \<and> p \<noteq> q \<and> Sum256 p = Sum256 q))"
proof -
  obtain p q where p: "journalPreimage D j t = Inr p" "Sum256 p = dg"
    and q: "journalPreimage D k u = Inr q" "Sum256 q = dg"
    using assms(2,3) by (auto simp: VerifyJournalAuth_Inr CanonicalJournalDigest_def)
  have "p = q \<longleftrightarrow> journal_intent D j t = journal_intent D k u"
    using decimal_lib.journalPreimage_eq [OF assms(1) p(1) q(1) assms(4-7)] .
  with p q assms(2) show ?thesis by (auto simp: VerifyJournalAuth_Inr)
qed

theorem stored_digest_authorizes_one_intent_witness:
  "\<exists>dg. VerifyJournalAuth ref_decimal (\<lambda>_ _ _. Inr ()) (signed_sample 0) 5000 dg [1] ''kms'' = Inr ()
    \<and> VerifyJournalAuth ref_decimal (\<lambda>_ _ _. Inr ()) (signed_sample 1) 5999 dg [2] ''kms2'' = Inr ()
    \<and> dg \<noteq> []"
proof -
  have ok: "JournalInput_Validate ref_decimal no_json 0 (signed_sample 0) = Inr ()"
    "JournalInput_Validate ref_decimal no_json 0 (signed_sample 1) = Inr ()"
    by code_simp+
  have sized: "go_sized (signed_sample 0)" "go_sized (signed_sample 1)"
    by (simp_all add: go_sized_def signed_sample_def sample_journal_def sample_entry_def is_int64_def
        int64_min_def int64_max_def fits32_def)
  have inst: "go_instant 5000" "go_instant 5999" by (simp_all add: go_instant_def)
  obtain p q where p: "journalPreimage ref_decimal (signed_sample 0) 5000 = Inr p"
    and q: "journalPreimage ref_decimal (signed_sample 1) 5999 = Inr q"
    using ref.journalPreimage_ok ok by blast
  have "journal_intent ref_decimal (signed_sample 0) 5000 = journal_intent ref_decimal (signed_sample 1) 5999"
    by (simp add: journal_intent_def signed_sample_def sample_journal_def sample_entry_def
        entry_view_def dval_ref ce_val_def canonicalTimestamp_def TruncateTime_def microsecond_def)
  then have "p = q" using ref.journalPreimage_eq [OF p q sized inst] by simp
  then have v: "VerifyJournalAuth ref_decimal (\<lambda>_ _ _. Inr ()) (signed_sample 0) 5000 (Sum256 p) [1] ''kms'' = Inr ()"
    "VerifyJournalAuth ref_decimal (\<lambda>_ _ _. Inr ()) (signed_sample 1) 5999 (Sum256 p) [2] ''kms2'' = Inr ()"
    using p q by (auto simp: VerifyJournalAuth_Inr CanonicalJournalDigest_def)
  with stored_digest_authorizes_one_intent [OF ref.decimal_lib_axioms v sized inst] show ?thesis by blast
qed

text \<open>C34. The separators of the second root hash and of the discharge digest coincide, so one
  signature serves both: the root of an attestation with this sequence number is the digest of the
  settlement of one unit of a reservation. All other separators are pairwise different.\<close>

definition clash_uid :: string where "clash_uid = ''00000000-0000-0000-0000-000000000001''"

definition clash_intent :: "(int \<times> int) ReservationDischargeIntent" where
  "clash_intent = \<lparr>rd_ReservationUID = clash_uid, rd_Operation = ReservationOpSettle, rd_Amount = (1, 0),
     rd_IdempotencyKey = ''settle-000000-key1'', rd_RecordedAt = 0\<rparr>"

theorem discharge_digest_is_a_root_hash:
  "AttestationRootHashV2 (36 * 2 ^ 32 + 0x30303030)
     (bytes_of (drop 4 clash_uid))
     (writeLenPrefixed ReservationOpSettle @ writeLenPrefixed ''settle-000000-key1'')
     (writeLenPrefixed ''0001-01-01T00:00:00Z'' @ writeBE64 0) (10 ^ 18)
   = CanonicalReservationDischargeDigest ref_decimal clash_intent
   \<and> distinct [authDigestDomain, batchDigestDomain, rootHashDomain, rootHashDomainV2, rootHashDomainV3,
        authVerdictDigestDomain]"
proof -
  have time: "FormatRFC3339Nano (canonicalTimestamp 0) = ''0001-01-01T00:00:00Z''" by code_simp
  have "validateAmountIsRescalable ref_decimal (1, 0) = Inr ()" by code_simp
  then have amt: "EncodeAmount ref_decimal (1, 0) = Inr (be_bytes 16 1000000000000000000)"
    by (auto simp: ref.EncodeAmount_Inr dval_ref ce_val_def intro!: exI [of _ "10 ^ 18"])
  have seq: "writeBE64 (36 * 2 ^ 32 + 0x30303030) = writeBE32 36 @ bytes_of (take 4 clash_uid)"
    by (simp add: writeBE64_def writeBE32_def bytes_of_def clash_uid_def be_bytes_numeral)
  have split: "be_bytes 16 1000000000000000000 = writeBE64 0 @ writeBE64 1000000000000000000"
    by (simp add: writeBE64_def be_bytes_numeral)
  have uid: "bytes_of (take 4 clash_uid) @ bytes_of (drop 4 clash_uid) = bytes_of clash_uid"
    by (simp add: bytes_of_def clash_uid_def)
  have "dischargePreimage ref_decimal clash_intent = Inr (rootHashDomainV2 #
      writeBE64 (36 * 2 ^ 32 + 0x30303030) @ bytes_of (drop 4 clash_uid)
      @ (writeLenPrefixed ReservationOpSettle @ writeLenPrefixed ''settle-000000-key1'')
      @ (writeLenPrefixed ''0001-01-01T00:00:00Z'' @ writeBE64 0) @ writeBE64 (10 ^ 18))"
    unfolding seq
    by (simp add: dischargePreimage_def clash_intent_def amt split time writeLenPrefixed_def
        uid [symmetric] rootHashDomainV2_def reservationDischargeDigestDomain_def)
      (simp add: clash_uid_def)
  moreover have "length (writeLenPrefixed s) = 4 + length s" for s
    by (simp add: writeLenPrefixed_def writeBE32_def)
  ultimately show ?thesis
    by (simp add: CanonicalReservationDischargeDigest_def AttestationRootHashV2_def
        GenesisRootHashLen_def ReservationOpSettle_def clash_uid_def writeBE64_def
        authDigestDomain_def batchDigestDomain_def rootHashDomain_def rootHashDomainV2_def
        rootHashDomainV3_def authVerdictDigestDomain_def)
qed

end
