(* ===== verification/Merkle.thy ===== *)
theory Merkle
  imports Digests
begin

text \<open>
  The RFC 6962 tree of \<^verbatim>\<open>core/merkle.go\<close>: building it over a batch, inclusion proofs and their
  verification, and the localization of differing leaves. The loop that looks for the split point
  multiplies in 64-bit arithmetic and can fail to end; it and its callers are partial functions whose
  value is None when they do not return, and the lemmas give the sizes for which they do.
\<close>

section \<open>Hashes and nodes\<close>

definition merkleLeafPrefix :: byte where "merkleLeafPrefix = 0x00"
definition merkleNodePrefix :: byte where "merkleNodePrefix = 0x01"

definition EmptyMerkleRoot :: bytes where "EmptyMerkleRoot = Sum256 []"

definition merkleLeafHash :: "bytes \<Rightarrow> bytes" where
  "merkleLeafHash payload = Sum256 (merkleLeafPrefix # payload)"

definition merkleNodeHash :: "bytes \<Rightarrow> bytes \<Rightarrow> bytes" where
  "merkleNodeHash left right = Sum256 (merkleNodePrefix # left @ right)"

text \<open>A node without children is a leaf, or the root of the empty tree, which counts no leaves.\<close>

datatype merkleNode =
    LeafNode bytes int
  | InnerNode bytes merkleNode merkleNode int

fun nd_hash :: "merkleNode \<Rightarrow> bytes" where
  "nd_hash (LeafNode h c) = h"
| "nd_hash (InnerNode h l r c) = h"

fun leafCount :: "merkleNode \<Rightarrow> int" where
  "leafCount (LeafNode h c) = c"
| "leafCount (InnerNode h l r c) = c"

record MerkleTree =
  mt_root :: merkleNode
  mt_leaves :: "merkleNode list"

section \<open>The split point\<close>

partial_function (option) doubleBelow :: "int \<Rightarrow> int \<Rightarrow> int option" where
  [code]: "doubleBelow n k =
     (if wrap64 (k * 2) < n then doubleBelow n (wrap64 (k * 2)) else Some k)"

definition largestPowerOfTwoLessThan :: "int \<Rightarrow> int option" where
  "largestPowerOfTwoLessThan n = doubleBelow n 1"

section \<open>Building the tree\<close>

partial_function (option) buildMTH :: "merkleNode list \<Rightarrow> merkleNode option" where
  [code]: "buildMTH nodes =
     (let n = int (length nodes)
      in if n = 1 then Some (hd nodes)
         else Option.bind (largestPowerOfTwoLessThan n) (\<lambda>k.
              Option.bind (buildMTH (take (nat k) nodes)) (\<lambda>left.
              Option.bind (buildMTH (drop (nat k) nodes)) (\<lambda>right.
                Some (InnerNode (merkleNodeHash (nd_hash left) (nd_hash right)) left right
                        (leafCount left + leafCount right))))))"

definition emptyMerkleTree :: MerkleTree where
  "emptyMerkleTree = \<lparr>mt_root = LeafNode EmptyMerkleRoot 0, mt_leaves = []\<rparr>"

definition treeOfLeaves :: "merkleNode list \<Rightarrow> MerkleTree option" where
  "treeOfLeaves leaves =
     Option.bind (buildMTH leaves) (\<lambda>top. Some \<lparr>mt_root = top, mt_leaves = leaves\<rparr>)"

definition BuildMerkleTree ::
  "'d decimal_ops \<Rightarrow> 'd AttestedEntry list \<Rightarrow> MerkleTree result option" where
  "BuildMerkleTree D entries =
     (if entries = [] then Some (Inr emptyMerkleTree)
      else (case mapR (encodeAttestedEntry D) entries of
              Inl e \<Rightarrow> Some (Inl e)
            | Inr payloads \<Rightarrow>
                Option.bind (treeOfLeaves (map (\<lambda>p. LeafNode (merkleLeafHash p) 1) payloads))
                  (\<lambda>t. Some (Inr t))))"

definition BuildMerkleTreeFromLeafHashes :: "bytes list \<Rightarrow> MerkleTree result option" where
  "BuildMerkleTreeFromLeafHashes leafHashes =
     (if leafHashes = [] then Some (Inr emptyMerkleTree)
      else if list_ex (\<lambda>h. length h \<noteq> 32) leafHashes then Some invalid
      else Option.bind (treeOfLeaves (map (\<lambda>h. LeafNode h 1) leafHashes)) (\<lambda>t. Some (Inr t)))"

definition buildMerkleTreeFromPayloads :: "bytes list \<Rightarrow> MerkleTree option" where
  "buildMerkleTreeFromPayloads payloads =
     (if payloads = [] then Some emptyMerkleTree
      else treeOfLeaves (map (\<lambda>p. LeafNode (merkleLeafHash p) 1) payloads))"

definition Root :: "MerkleTree \<Rightarrow> bytes" where "Root t = nd_hash (mt_root t)"
definition LeafCount :: "MerkleTree \<Rightarrow> int" where "LeafCount t = leafCount (mt_root t)"

definition LeafHash :: "MerkleTree \<Rightarrow> int \<Rightarrow> bytes result" where
  "LeafHash t index =
     (if index < 0 \<or> index \<ge> int (length (mt_leaves t)) then invalid
      else Inr (nd_hash (mt_leaves t ! nat index)))"

definition LeafHashes :: "MerkleTree \<Rightarrow> bytes list" where
  "LeafHashes t = map nd_hash (mt_leaves t)"

section \<open>Inclusion proofs\<close>

record InclusionProof =
  ip_LeafIndex :: int
  ip_TreeSize :: int
  ip_Path :: "bytes list"

fun auditPath :: "merkleNode \<Rightarrow> int \<Rightarrow> bytes list \<Rightarrow> bytes list" where
  "auditPath (LeafNode h c) i path = path"
| "auditPath (InnerNode h l r c) i path =
     (if i < leafCount l then auditPath l i (nd_hash r # path)
      else auditPath r (i - leafCount l) (nd_hash l # path))"

definition GenerateInclusionProof :: "MerkleTree \<Rightarrow> int \<Rightarrow> InclusionProof result" where
  "GenerateInclusionProof t index =
     (let n = LeafCount t
      in if n = 0 then invalid
         else if index < 0 \<or> index \<ge> n then invalid
         else Inr \<lparr>ip_LeafIndex = index, ip_TreeSize = n, ip_Path = auditPath (mt_root t) index []\<rparr>)"

partial_function (option) computeMerkleDirections :: "int \<Rightarrow> int \<Rightarrow> bool list option" where
  [code]: "computeMerkleDirections index treeSize =
     (if treeSize > 1
      then Option.bind (largestPowerOfTwoLessThan treeSize) (\<lambda>k.
             if index < k
             then Option.bind (computeMerkleDirections index k) (\<lambda>dirs. Some (True # dirs))
             else Option.bind (computeMerkleDirections (index - k) (treeSize - k))
                    (\<lambda>dirs. Some (False # dirs)))
      else Some [])"

definition climb :: "bool \<times> bytes \<Rightarrow> bytes \<Rightarrow> bytes" where
  "climb ds current =
     (if fst ds then merkleNodeHash current (snd ds) else merkleNodeHash (snd ds) current)"

definition VerifyInclusion :: "bytes \<Rightarrow> InclusionProof \<Rightarrow> bytes \<Rightarrow> bool option" where
  "VerifyInclusion leafHash pf trusted =
     (if ip_TreeSize pf \<le> 0 \<or> ip_LeafIndex pf < 0 \<or> ip_LeafIndex pf \<ge> ip_TreeSize pf then Some False
      else Option.bind (computeMerkleDirections (ip_LeafIndex pf) (ip_TreeSize pf)) (\<lambda>directions.
        if length directions \<noteq> length (ip_Path pf) then Some False
        else Some (fold climb (zip (rev directions) (ip_Path pf)) leafHash = trusted)))"

section \<open>Localization\<close>

text \<open>The walk descends both trees together; None is the nil dereference at an inner node of the first
  tree that is a leaf of the second.\<close>

fun walkMismatches :: "merkleNode \<Rightarrow> merkleNode \<Rightarrow> int \<Rightarrow> int list option" where
  "walkMismatches (LeafNode h c) act offset = Some (if h = nd_hash act then [] else [offset])"
| "walkMismatches (InnerNode h l r c) (LeafNode h' c') offset = (if h = h' then Some [] else None)"
| "walkMismatches (InnerNode h l r c) (InnerNode h' l' r' c') offset =
     (if h = h' then Some []
      else Option.bind (walkMismatches l l' offset) (\<lambda>ms.
           Option.bind (walkMismatches r r' (offset + leafCount l)) (\<lambda>ns. Some (ms @ ns))))"

definition LocateMismatches :: "MerkleTree \<Rightarrow> MerkleTree \<Rightarrow> int list result option" where
  "LocateMismatches reference actual =
     (if LeafCount reference \<noteq> LeafCount actual then Some invalid
      else if LeafCount reference = 0 then Some (Inr [])
      else Option.bind (walkMismatches (mt_root reference) (mt_root actual) 0) (\<lambda>ms. Some (Inr ms)))"

section \<open>The split point is the largest power of two below the size\<close>

definition is_split :: "int \<Rightarrow> int \<Rightarrow> bool" where
  "is_split n k \<longleftrightarrow> (\<exists>e. k = 2 ^ e) \<and> k < n \<and> n \<le> 2 * k"

lemma is_split_unique: "is_split n k \<Longrightarrow> is_split n l \<Longrightarrow> k = l"
proof -
  have le: "(2 :: int) ^ e \<le> 2 ^ f" if "(2 :: int) ^ e < 2 * 2 ^ f" for e f
  proof -
    have "(2 :: int) ^ e < 2 ^ Suc f" using that by simp
    then have "e < Suc f" by (rule power_less_imp_less_exp [rotated]) simp
    then show ?thesis by simp
  qed
  assume "is_split n k" "is_split n l"
  then obtain e f where "k = 2 ^ e" "l = 2 ^ f" "k < n" "n \<le> 2 * k" "l < n" "n \<le> 2 * l"
    unfolding is_split_def by blast
  with le [of e f] le [of f e] show "k = l" by simp
qed

lemma wrap64_double: "0 \<le> k \<Longrightarrow> k < 2 ^ 62 \<Longrightarrow> wrap64 (k * 2) = k * 2"
  by (rule wrap64_id) (simp add: is_int64_def int64_min_def int64_max_def)

lemma doubleBelow_split:
  assumes "k = 2 ^ e" "k < n" "n \<le> 2 ^ 62"
  shows "\<exists>l. doubleBelow n k = Some l \<and> is_split n l"
  using assms
proof (induction "nat (n - k)" arbitrary: k e rule: less_induct)
  case less
  have w: "wrap64 (k * 2) = k * 2" using less.prems by (intro wrap64_double) simp_all
  show ?case
  proof (cases "k * 2 < n")
    case True
    have "doubleBelow n k = doubleBelow n (k * 2)"
      by (subst doubleBelow.simps) (simp add: w True)
    moreover have "\<exists>l. doubleBelow n (k * 2) = Some l \<and> is_split n l"
      by (rule less.hyps [of "k * 2" "Suc e"]) (use True less.prems in auto)
    ultimately show ?thesis by simp
  next
    case False
    then have "doubleBelow n k = Some k" by (subst doubleBelow.simps) (simp add: w)
    with False less.prems show ?thesis by (auto simp: is_split_def)
  qed
qed

lemma largestPowerOfTwo_split:
  assumes "1 < n" "n \<le> 2 ^ 62"
  obtains k where "largestPowerOfTwoLessThan n = Some k" "is_split n k" "0 < k"
  using doubleBelow_split [of 1 0 n] assms that
  by (auto simp: largestPowerOfTwoLessThan_def is_split_def)

text \<open>Above \<open>2^62\<close> the doubling wraps to zero and the loop never ends.\<close>

lemma doubleBelow_zero:
  assumes "doubleBelow n k = Some l"
  shows "\<not> (k = 0 \<and> 0 < n)"
  using assms by (rule doubleBelow.raw_induct [rotated]) (auto simp: wrap64_def split: if_splits)

lemma doubleBelow_step: "wrap64 (k * 2) < n \<Longrightarrow> doubleBelow n k = doubleBelow n (wrap64 (k * 2))"
  by (subst doubleBelow.simps) simp

lemma doubleBelow_diverges:
  assumes "2 ^ 62 < n" "e \<le> 62"
  shows "doubleBelow n (2 ^ (62 - e)) = None"
  using assms(2)
proof (induction e)
  case 0
  have "wrap64 (2 ^ 62 * 2) = - (2 ^ 63)" "wrap64 (- (2 ^ 63) * 2) = 0"
    by (simp_all add: wrap64_def)
  then have "doubleBelow n (2 ^ 62) = doubleBelow n 0"
    using assms(1) doubleBelow_step [of "2 ^ 62" n] doubleBelow_step [of "- (2 ^ 63)" n] by simp
  with doubleBelow_zero [of n 0] assms(1) show ?case by (cases "doubleBelow n 0") auto
next
  case (Suc e)
  have p: "(2 :: int) ^ (62 - Suc e) * 2 = 2 ^ (62 - e)"
    using Suc.prems by (metis Suc_diff_Suc less_eq_Suc_le mult.commute power_Suc)
  have "(2 :: int) ^ (62 - e) \<le> 2 ^ 62" by (rule power_increasing) simp_all
  moreover have "wrap64 (2 ^ (62 - Suc e) * 2) = 2 ^ (62 - e)"
    unfolding p using calculation
    by (intro wrap64_id) (simp add: is_int64_def int64_min_def int64_max_def order_trans [of "- _" 0])
  ultimately show ?case using doubleBelow_step [of "2 ^ (62 - Suc e)" n] Suc assms(1) by simp
qed

section \<open>The tree over a list of leaf hashes\<close>

text \<open>The tree hash of RFC 6962, section 2.1, as a relation: a single leaf is its own hash, a longer
  list is split at the largest power of two below its length.\<close>

inductive MTH :: "bytes list \<Rightarrow> bytes \<Rightarrow> bool" where
  single: "MTH [h] h"
| split: "is_split (int (length xs + length ys)) (int (length xs)) \<Longrightarrow> MTH xs a \<Longrightarrow> MTH ys b
    \<Longrightarrow> MTH (xs @ ys) (merkleNodeHash a b)"

text \<open>The nodes the builder makes over a list of leaf hashes.\<close>

inductive mtree :: "merkleNode \<Rightarrow> bytes list \<Rightarrow> bool" where
  leaf: "mtree (LeafNode h 1) [h]"
| inner: "mtree l xs \<Longrightarrow> mtree r ys
    \<Longrightarrow> is_split (int (length xs + length ys)) (int (length xs))
    \<Longrightarrow> mtree (InnerNode (merkleNodeHash (nd_hash l) (nd_hash r)) l r (leafCount l + leafCount r)) (xs @ ys)"

inductive_cases mtree_leafE: "mtree (LeafNode h c) xs"
inductive_cases mtree_innerE: "mtree (InnerNode h l r c) xs"

lemma mtree_count: "mtree t xs \<Longrightarrow> leafCount t = int (length xs) \<and> xs \<noteq> []"
  by (induction rule: mtree.induct) auto

lemma mtree_MTH: "mtree t xs \<Longrightarrow> MTH xs (nd_hash t)"
  by (induction rule: mtree.induct) (auto intro: MTH.intros)

lemma is_split_nat:
  assumes "is_split (int n) k"
  shows "0 < nat k" "nat k < n" "int (nat k) = k"
proof -
  have "0 < k" "k < int n" using assms by (auto simp: is_split_def)
  then show "0 < nat k" "nat k < n" "int (nat k) = k" by linarith+
qed

lemma buildMTH_mtree:
  assumes "xs \<noteq> []" "int (length xs) \<le> 2 ^ 62"
  shows "\<exists>t. buildMTH (map (\<lambda>h. LeafNode h 1) xs) = Some t \<and> mtree t xs"
  using assms
proof (induction xs rule: length_induct)
  case (1 xs)
  let ?n = "int (length xs)"
  show ?case
  proof (cases "length xs = 1")
    case True
    then obtain h where "xs = [h]" by (auto simp: length_Suc_conv)
    then show ?thesis by (subst buildMTH.simps) (auto intro: mtree.leaf)
  next
    case False
    then have n: "1 < ?n" using 1(2) by (cases xs) auto
    obtain k where k: "largestPowerOfTwoLessThan ?n = Some k" "is_split ?n k"
      by (rule largestPowerOfTwo_split [OF n]) (use 1(3) in auto)
    note kn = is_split_nat [OF k(2)]
    have kle: "k \<le> 2 ^ 62" using kn 1(3) by linarith
    have sizes: "length (take (nat k) xs) < length xs" "take (nat k) xs \<noteq> []"
      "int (length (take (nat k) xs)) \<le> 2 ^ 62" "length (drop (nat k) xs) < length xs"
      "drop (nat k) xs \<noteq> []" "int (length (drop (nat k) xs)) \<le> 2 ^ 62"
      using kn kle 1(2,3) by auto
    obtain l where l: "buildMTH (map (\<lambda>h. LeafNode h 1) (take (nat k) xs)) = Some l"
      "mtree l (take (nat k) xs)"
      using 1(1) [rule_format, OF sizes(1-3)] by blast
    obtain r where r: "buildMTH (map (\<lambda>h. LeafNode h 1) (drop (nat k) xs)) = Some r"
      "mtree r (drop (nat k) xs)"
      using 1(1) [rule_format, OF sizes(4-6)] by blast
    have "mtree (InnerNode (merkleNodeHash (nd_hash l) (nd_hash r)) l r (leafCount l + leafCount r))
        (take (nat k) xs @ drop (nat k) xs)"
      using l(2) r(2) kn k(2) by (intro mtree.inner) (simp_all add: min_def)
    moreover have "buildMTH (map (\<lambda>h. LeafNode h 1) xs) =
        Some (InnerNode (merkleNodeHash (nd_hash l) (nd_hash r)) l r (leafCount l + leafCount r))"
      using n l(1) r(1) k(1) by (subst buildMTH.simps) (simp add: Let_def take_map drop_map)
    ultimately show ?thesis by auto
  qed
qed

section \<open>Paths and directions\<close>

fun tree_dirs :: "merkleNode \<Rightarrow> int \<Rightarrow> bool list" where
  "tree_dirs (LeafNode h c) i = []"
| "tree_dirs (InnerNode h l r c) i =
     (if i < leafCount l then True # tree_dirs l i else False # tree_dirs r (i - leafCount l))"

lemma computeMerkleDirections_tree:
  assumes "mtree t xs" "int (length xs) \<le> 2 ^ 62"
  shows "computeMerkleDirections i (int (length xs)) = Some (tree_dirs t i)"
  using assms
proof (induction arbitrary: i rule: mtree.induct)
  case (leaf h)
  then show ?case by (subst computeMerkleDirections.simps) simp
next
  case (inner l xs r ys)
  let ?n = "int (length (xs @ ys))"
  have c: "leafCount l = int (length xs)" "leafCount r = int (length ys)" "xs \<noteq> []" "ys \<noteq> []"
    using mtree_count [OF inner(1)] mtree_count [OF inner(2)] by auto
  then have "1 < ?n" by (cases xs; cases ys) auto
  then obtain k where k: "largestPowerOfTwoLessThan ?n = Some k" "is_split ?n k"
    using largestPowerOfTwo_split inner.prems by metis
  have "k = int (length xs)" using is_split_unique [OF k(2)] inner(3) by simp
  with k(1) \<open>1 < ?n\<close> inner.IH inner.prems c show ?case
    by (subst computeMerkleDirections.simps) simp
qed

lemma auditPath_append: "auditPath t i path = auditPath t i [] @ path"
proof (induction t arbitrary: i path)
  case (InnerNode h l r c)
  show ?case
    using InnerNode.IH(1) [of i "nd_hash r # path"] InnerNode.IH(1) [of i "[nd_hash r]"]
      InnerNode.IH(2) [of "i - leafCount l" "nd_hash l # path"]
      InnerNode.IH(2) [of "i - leafCount l" "[nd_hash l]"]
    by simp
qed simp

lemma length_auditPath: "length (auditPath t i path) = length (tree_dirs t i) + length path"
  by (induction t arbitrary: i path) auto

lemma auditPath_inner:
  "auditPath (InnerNode h l r c) i [] =
     (if i < leafCount l then auditPath l i [] @ [nd_hash r]
      else auditPath r (i - leafCount l) [] @ [nd_hash l])"
  using auditPath_append [of l i "[nd_hash r]"] auditPath_append [of r "i - leafCount l" "[nd_hash l]"]
  by simp

lemma climb_tree:
  assumes "mtree t xs" "0 \<le> i" "i < int (length xs)"
  shows "fold climb (zip (rev (tree_dirs t i)) (auditPath t i [])) (xs ! nat i) = nd_hash t"
  using assms
proof (induction arbitrary: i rule: mtree.induct)
  case (inner l xs r ys)
  have c: "leafCount l = int (length xs)" using mtree_count [OF inner(1)] by simp
  show ?case
  proof (cases "i < int (length xs)")
    case True
    then have "nat i < length xs" using inner.prems by simp
    then have "(xs @ ys) ! nat i = xs ! nat i" by (simp add: nth_append)
    with True inner.IH(1) [OF inner.prems(1) True] show ?thesis
      by (simp add: auditPath_inner c length_auditPath climb_def del: auditPath.simps)
  next
    case False
    then have i: "0 \<le> i - int (length xs)" "i - int (length xs) < int (length ys)"
      using inner.prems by auto
    then have "(xs @ ys) ! nat i = ys ! nat (i - int (length xs))"
      by (auto simp: nth_append nat_diff_distrib)
    with False inner.IH(2) [OF i] show ?thesis
      by (simp add: auditPath_inner c length_auditPath climb_def del: auditPath.simps)
  qed
qed simp

section \<open>What a root determines\<close>

text \<open>The byte strings hashed at the inner nodes of a tree, and while climbing a path.\<close>

fun tree_preimages :: "merkleNode \<Rightarrow> bytes list" where
  "tree_preimages (LeafNode h c) = []"
| "tree_preimages (InnerNode h l r c) =
     (merkleNodePrefix # nd_hash l @ nd_hash r) # tree_preimages l @ tree_preimages r"

definition climb_preimage :: "bool \<times> bytes \<Rightarrow> bytes \<Rightarrow> bytes" where
  "climb_preimage ds current =
     merkleNodePrefix # (if fst ds then current @ snd ds else snd ds @ current)"

fun climb_preimages :: "(bool \<times> bytes) list \<Rightarrow> bytes \<Rightarrow> bytes list" where
  "climb_preimages [] current = []"
| "climb_preimages (ds # rest) current =
     climb_preimage ds current # climb_preimages rest (climb ds current)"

lemma climb_Sum256: "climb ds current = Sum256 (climb_preimage ds current)"
  by (simp add: climb_def climb_preimage_def merkleNodeHash_def)

lemma climb_preimages_snoc:
  "climb_preimages (ds @ [d]) current = climb_preimages ds current @ [climb_preimage d (fold climb ds current)]"
  by (induction ds arbitrary: current) auto

lemma length_climbs: "length leaf = 32 \<Longrightarrow> length (fold climb ds leaf) = 32"
  by (induction ds arbitrary: leaf) (auto simp: climb_Sum256)

lemma length_nd_hash: "mtree t xs \<Longrightarrow> list_all (\<lambda>h. length h = 32) xs \<Longrightarrow> length (nd_hash t) = 32"
  by (induction rule: mtree.induct) (auto simp: merkleNodeHash_def)

lemma climb_sound:
  assumes "mtree t xs" "list_all (\<lambda>h. length h = 32) xs" "length leaf = 32"
    and "0 \<le> i" "i < int (length xs)" "length path = length (tree_dirs t i)"
    and "inj_on Sum256 (set (tree_preimages t)
           \<union> set (climb_preimages (zip (rev (tree_dirs t i)) path) leaf))"
    and "fold climb (zip (rev (tree_dirs t i)) path) leaf = nd_hash t"
  shows "leaf = xs ! nat i \<and> path = auditPath t i []"
  using assms
proof (induction arbitrary: i path rule: mtree.induct)
  case (inner l xs r ys)
  note prems = inner.prems
  have c: "leafCount l = int (length xs)" using mtree_count [OF inner(1)] by simp
  have len: "length (nd_hash l) = 32" "length (nd_hash r) = 32"
    using length_nd_hash inner(1,2) prems(1) by auto
  define left where "left = (i < int (length xs))"
  define child where "child = (if left then l else r)"
  define other where "other = (if left then r else l)"
  define j where "j = (if left then i else i - int (length xs))"
  have dirs: "tree_dirs (InnerNode (merkleNodeHash (nd_hash l) (nd_hash r)) l r (leafCount l + leafCount r)) i
      = left # tree_dirs child j"
    by (simp add: left_def child_def j_def c)
  obtain path' sib where path: "path = path' @ [sib]" and lp: "length path' = length (tree_dirs child j)"
    using prems(5) unfolding dirs by (cases path rule: rev_cases) auto
  let ?ds = "zip (rev (tree_dirs child j)) path'"
  let ?cur = "fold climb ?ds leaf"
  have zip: "zip (rev (left # tree_dirs child j)) path = ?ds @ [(left, sib)]"
    using lp by (simp add: path)
  note inj6 = prems(6) [unfolded dirs zip climb_preimages_snoc]
  have top: "climb (left, sib) ?cur = Sum256 (merkleNodePrefix # nd_hash l @ nd_hash r)"
    using prems(7) by (simp only: dirs zip fold_append fold_simps comp_apply nd_hash.simps id_apply)
      (simp add: merkleNodeHash_def)
  have "climb_preimage (left, sib) ?cur = merkleNodePrefix # nd_hash l @ nd_hash r"
    by (rule inj_onD [OF inj6]) (use top in \<open>simp_all add: climb_Sum256\<close>)
  then have eq: "?cur = nd_hash child \<and> sib = nd_hash other"
    using length_climbs [OF prems(2), of ?ds] len
    by (auto simp: climb_preimage_def child_def other_def append_eq_append_conv split: if_splits)
  have inj: "inj_on Sum256 (set (tree_preimages child) \<union> set (climb_preimages ?ds leaf))"
    by (rule inj_on_subset [OF inj6]) (auto simp: child_def)
  have "leaf = (if left then xs else ys) ! nat j \<and> path' = auditPath child j []"
  proof (cases left)
    case True
    have "0 \<le> j" "j < int (length xs)" "list_all (\<lambda>h. length h = 32) xs"
      using True prems(1,3) by (simp_all add: left_def j_def)
    from inner.IH(1) [OF this(3) prems(2) this(1,2)] lp inj eq True show ?thesis
      by (simp add: child_def)
  next
    case False
    have "0 \<le> j" "j < int (length ys)" "list_all (\<lambda>h. length h = 32) ys"
      using False prems(1,3,4) by (simp_all add: left_def j_def)
    from inner.IH(2) [OF this(3) prems(2) this(1,2)] lp inj eq False show ?thesis
      by (simp add: child_def)
  qed
  moreover have "(xs @ ys) ! nat i = (if left then xs else ys) ! nat j"
    using prems(3) by (auto simp: nth_append left_def j_def nat_diff_distrib)
  ultimately show ?case
    using eq by (auto simp: path auditPath_inner left_def child_def other_def j_def c
        simp del: auditPath.simps)
qed simp

fun mismatches :: "int \<Rightarrow> bytes list \<Rightarrow> bytes list \<Rightarrow> int list" where
  "mismatches off (x # xs) (y # ys) = (if x = y then [] else [off]) @ mismatches (off + 1) xs ys"
| "mismatches off _ _ = []"

lemma mismatches_append:
  "length xs = length ys \<Longrightarrow>
     mismatches off (xs @ us) (ys @ vs) = mismatches off xs ys @ mismatches (off + int (length xs)) us vs"
  by (induction xs ys arbitrary: off rule: list_induct2) (simp_all add: algebra_simps)

lemma mismatches_same: "mismatches off xs xs = []"
  by (induction xs arbitrary: off) simp_all

lemma mismatches_nth:
  "length xs = length ys \<Longrightarrow>
     mismatches off xs ys = map (\<lambda>i. off + int i) (filter (\<lambda>i. xs ! i \<noteq> ys ! i) [0..<length xs])"
proof (induction xs ys arbitrary: off rule: list_induct2)
  case (Cons x xs y ys)
  have "[0..<length (x # xs)] = 0 # map Suc [0..<length xs]" 
    by (simp add: map_Suc_upt upt_conv_Cons del: upt_Suc)
  then show ?case by (simp add: Cons.IH filter_map comp_def algebra_simps)
qed simp

lemma mtree_split_eq:
  assumes "is_split (int (length xs + length ys)) (int (length xs))"
    and "is_split (int (length us + length vs)) (int (length us))"
    and "length (xs @ ys) = length (us @ vs)"
  shows "length xs = length us" "length ys = length vs"
proof -
  have "int (length xs) = int (length us)" using is_split_unique assms by (metis length_append)
  then show "length xs = length us" by simp
  with assms(3) show "length ys = length vs" by simp
qed

lemma mtree_length1: "mtree (InnerNode h l r c) xs \<Longrightarrow> 1 < length xs"
  by (erule mtree_innerE) (auto dest!: mtree_count simp: Suc_lessI neq_Nil_conv)

lemma mtree_single:
  assumes "mtree u ys" "length ys = 1"
  shows "u = LeafNode (hd ys) 1 \<and> ys = [hd ys]"
proof (cases u)
  case (LeafNode h c)
  with assms show ?thesis by (auto elim: mtree_leafE)
next
  case (InnerNode h l r c)
  with assms mtree_length1 show ?thesis by fastforce
qed

lemma hash_determines_leaves:
  assumes "mtree t xs" "mtree u ys" "length xs = length ys"
    and "list_all (\<lambda>h. length h = 32) xs" "list_all (\<lambda>h. length h = 32) ys"
    and "inj_on Sum256 (set (tree_preimages t) \<union> set (tree_preimages u))"
  shows "nd_hash t = nd_hash u \<longleftrightarrow> xs = ys"
  using assms
proof (induction arbitrary: u ys rule: mtree.induct)
  case (leaf h)
  then show ?case using mtree_single [of u ys] by (cases ys) auto
next
  case (inner l xs r ys')
  show ?case
  proof (cases u)
    case (LeafNode h c)
    with inner show ?thesis
      using mtree_length1 [OF mtree.inner [OF inner(1-3)]] by (auto elim: mtree_leafE)
  next
    case (InnerNode h l2 r2 c)
    then obtain us vs where u: "mtree l2 us" "mtree r2 vs" "ys = us @ vs"
      "h = merkleNodeHash (nd_hash l2) (nd_hash r2)"
      "is_split (int (length us + length vs)) (int (length us))"
      using inner.prems(1) by (auto elim: mtree_innerE)
    have len: "length xs = length us" "length ys' = length vs"
      using mtree_split_eq [OF inner(3) u(5)] inner.prems(2) u(3) by auto
    have all: "list_all (\<lambda>h. length h = 32) xs" "list_all (\<lambda>h. length h = 32) ys'"
      "list_all (\<lambda>h. length h = 32) us" "list_all (\<lambda>h. length h = 32) vs"
      using inner.prems(3,4) u(3) by auto
    have inj: "inj_on Sum256 (set (tree_preimages l) \<union> set (tree_preimages l2))"
      "inj_on Sum256 (set (tree_preimages r) \<union> set (tree_preimages r2))"
      by (rule inj_on_subset [OF inner.prems(5)], auto simp: InnerNode)+
    have "h = merkleNodeHash (nd_hash l) (nd_hash r) \<longleftrightarrow> nd_hash l = nd_hash l2 \<and> nd_hash r = nd_hash r2"
    proof
      assume "h = merkleNodeHash (nd_hash l) (nd_hash r)"
      then have "Sum256 (merkleNodePrefix # nd_hash l @ nd_hash r)
          = Sum256 (merkleNodePrefix # nd_hash l2 @ nd_hash r2)"
        by (simp add: u(4) merkleNodeHash_def)
      then have "merkleNodePrefix # nd_hash l @ nd_hash r = merkleNodePrefix # nd_hash l2 @ nd_hash r2"
        by (rule inj_onD [OF inner.prems(5)]) (simp_all add: InnerNode)
      then show "nd_hash l = nd_hash l2 \<and> nd_hash r = nd_hash r2"
        using length_nd_hash [OF inner(1) all(1)] length_nd_hash [OF u(1) all(3)] by simp
    qed (simp add: u(4))
    moreover have "nd_hash l = nd_hash l2 \<longleftrightarrow> xs = us" "nd_hash r = nd_hash r2 \<longleftrightarrow> ys' = vs"
      using inner.IH(1) [OF u(1) len(1) all(1,3) inj(1)] inner.IH(2) [OF u(2) len(2) all(2,4) inj(2)] .
    ultimately show ?thesis using len by (auto simp: InnerNode u(3))
  qed
qed

lemma walkMismatches_tree:
  assumes "mtree t xs" "mtree u ys" "length xs = length ys"
    and "list_all (\<lambda>h. length h = 32) xs" "list_all (\<lambda>h. length h = 32) ys"
    and "inj_on Sum256 (set (tree_preimages t) \<union> set (tree_preimages u))"
  shows "walkMismatches t u off = Some (mismatches off xs ys)"
  using assms
proof (induction arbitrary: u ys off rule: mtree.induct)
  case (leaf h)
  then show ?case using mtree_single [of u ys] by (cases ys) auto
next
  case (inner l xs r ys')
  let ?t = "InnerNode (merkleNodeHash (nd_hash l) (nd_hash r)) l r (leafCount l + leafCount r)"
  note t = mtree.inner [OF inner(1-3)]
  show ?case
  proof (cases "nd_hash ?t = nd_hash u")
    case True
    then have "xs @ ys' = ys" using hash_determines_leaves [OF t inner.prems] by simp
    moreover have "walkMismatches ?t u off = Some []" using True by (cases u) simp_all
    ultimately show ?thesis by (simp only: mismatches_same)
  next
    case False
    obtain h l2 r2 c where n: "u = InnerNode h l2 r2 c"
      using inner.prems(1,2) mtree_length1 [OF t] by (cases u) (auto elim: mtree_leafE)
    then obtain us vs where u: "mtree l2 us" "mtree r2 vs" "ys = us @ vs"
      "is_split (int (length us + length vs)) (int (length us))"
      using inner.prems(1) by (auto elim: mtree_innerE)
    have len: "length xs = length us" "length ys' = length vs"
      using mtree_split_eq [OF inner(3) u(4)] inner.prems(2) u(3) by auto
    have all: "list_all (\<lambda>h. length h = 32) xs" "list_all (\<lambda>h. length h = 32) ys'"
      "list_all (\<lambda>h. length h = 32) us" "list_all (\<lambda>h. length h = 32) vs"
      using inner.prems(3,4) u(3) by auto
    have inj: "inj_on Sum256 (set (tree_preimages l) \<union> set (tree_preimages l2))"
      "inj_on Sum256 (set (tree_preimages r) \<union> set (tree_preimages r2))"
      by (rule inj_on_subset [OF inner.prems(5)], auto simp: n)+
    have c: "leafCount l = int (length xs)" using mtree_count [OF inner(1)] by simp
    show ?thesis
      using False inner.IH(1) [OF u(1) len(1) all(1,3) inj(1), of off]
        inner.IH(2) [OF u(2) len(2) all(2,4) inj(2), of "off + int (length xs)"]
      by (simp add: n u(3) c mismatches_append [OF len(1)])
  qed
qed

section \<open>When the verifier returns\<close>

lemma computeMerkleDirections_returns:
  assumes "n \<le> 2 ^ 62"
  shows "\<exists>dirs. computeMerkleDirections i n = Some dirs"
  using assms
proof (induction "nat n" arbitrary: i n rule: less_induct)
  case less
  show ?case
  proof (cases "1 < n")
    case True
    obtain k where k: "largestPowerOfTwoLessThan n = Some k" "is_split n k" "0 < k"
      using largestPowerOfTwo_split [OF True less.prems] .
    then have lt: "k < n" by (simp add: is_split_def)
    have "\<exists>ds. computeMerkleDirections i k = Some ds"
      by (rule less.hyps) (use k lt less.prems in auto)
    moreover have "\<exists>ds. computeMerkleDirections (i - k) (n - k) = Some ds"
      by (rule less.hyps) (use k lt less.prems in auto)
    ultimately show ?thesis using True k(1) by (subst computeMerkleDirections.simps) auto
  next
    case False
    then show ?thesis by (subst computeMerkleDirections.simps) simp
  qed
qed

lemma largestPowerOfTwo_diverges: "2 ^ 62 < n \<Longrightarrow> largestPowerOfTwoLessThan n = None"
  using doubleBelow_diverges [of n 62] by (simp add: largestPowerOfTwoLessThan_def)

lemma computeMerkleDirections_diverges: "2 ^ 62 < n \<Longrightarrow> computeMerkleDirections i n = None"
  by (subst computeMerkleDirections.simps) (simp add: largestPowerOfTwo_diverges)

lemma built_tree:
  assumes "hs \<noteq> []" "list_all (\<lambda>h. length h = 32) hs" "int (length hs) \<le> 2 ^ 62"
  obtains top where
    "BuildMerkleTreeFromLeafHashes hs = Some (Inr \<lparr>mt_root = top, mt_leaves = map (\<lambda>h. LeafNode h 1) hs\<rparr>)"
    "mtree top hs"
proof -
  obtain top where top: "buildMTH (map (\<lambda>h. LeafNode h 1) hs) = Some top" "mtree top hs"
    using buildMTH_mtree [OF assms(1,3)] by blast
  have "\<not> list_ex (\<lambda>h. length h \<noteq> 32) hs"
    using assms(2) by (simp add: list_all_iff list_ex_iff)
  then have "BuildMerkleTreeFromLeafHashes hs
      = Some (Inr \<lparr>mt_root = top, mt_leaves = map (\<lambda>h. LeafNode h 1) hs\<rparr>)"
    using assms(1) top(1) by (simp add: BuildMerkleTreeFromLeafHashes_def treeOfLeaves_def)
  then show ?thesis using top(2) by (rule that)
qed

section \<open>Properties\<close>

text \<open>C35. Building a tree over leaf hashes of 32 bytes returns, for up to \<open>2^62\<close> leaves, a tree
  whose root is the RFC 6962 tree hash of the leaves and which counts and lists them in order.\<close>

theorem built_root_is_RFC6962:
  assumes "hs \<noteq> []" "list_all (\<lambda>h. length h = 32) hs" "int (length hs) \<le> 2 ^ 62"
  shows "\<exists>t. BuildMerkleTreeFromLeafHashes hs = Some (Inr t) \<and> MTH hs (Root t)
    \<and> LeafHashes t = hs \<and> LeafCount t = int (length hs)"
proof -
  obtain top where b: "BuildMerkleTreeFromLeafHashes hs
      = Some (Inr \<lparr>mt_root = top, mt_leaves = map (\<lambda>h. LeafNode h 1) hs\<rparr>)" and m: "mtree top hs"
    by (rule built_tree [OF assms])
  show ?thesis
    using b mtree_MTH [OF m] mtree_count [OF m]
    by (auto simp: Root_def LeafHashes_def LeafCount_def comp_def)
qed

definition sample_leaves :: "bytes list" where
  "sample_leaves = [replicate 32 1, replicate 32 2, replicate 32 3]"

theorem built_root_is_RFC6962_witness:
  "\<exists>t. BuildMerkleTreeFromLeafHashes sample_leaves = Some (Inr t) \<and> MTH sample_leaves (Root t)
    \<and> LeafHashes t = sample_leaves \<and> LeafCount t = 3"
  using built_root_is_RFC6962 [of sample_leaves] by (simp add: sample_leaves_def)



text \<open>C37. Localization reports exactly the positions at which the leaves of two trees of equal size
  differ, in order, and refuses trees of different sizes, provided SHA-256 does not collide on the
  strings hashed in the two trees.\<close>

theorem LocateMismatches_exact:
  assumes "BuildMerkleTreeFromLeafHashes hs = Some (Inr t)" "BuildMerkleTreeFromLeafHashes gs = Some (Inr u)"
    and "hs \<noteq> []" "gs \<noteq> []" "int (length hs) \<le> 2 ^ 62" "int (length gs) \<le> 2 ^ 62"
    and "inj_on Sum256 (set (tree_preimages (mt_root t)) \<union> set (tree_preimages (mt_root u)))"
  shows "LocateMismatches t u = Some (if length hs \<noteq> length gs then invalid
     else Inr (map int (filter (\<lambda>i. hs ! i \<noteq> gs ! i) [0..<length hs])))"
proof -
  have all: "list_all (\<lambda>h. length h = 32) hs" "list_all (\<lambda>h. length h = 32) gs"
    using assms(1-4) by (auto simp: BuildMerkleTreeFromLeafHashes_def list_all_iff list_ex_iff
        split: if_splits)
  obtain top where t: "t = \<lparr>mt_root = top, mt_leaves = map (\<lambda>h. LeafNode h 1) hs\<rparr>" and m: "mtree top hs"
    using built_tree [OF assms(3) all(1) assms(5)] assms(1) by auto
  obtain top' where u: "u = \<lparr>mt_root = top', mt_leaves = map (\<lambda>h. LeafNode h 1) gs\<rparr>" and n: "mtree top' gs"
    using built_tree [OF assms(4) all(2) assms(6)] assms(2) by auto
  have c: "leafCount top = int (length hs)" "leafCount top' = int (length gs)"
    using mtree_count [OF m] mtree_count [OF n] by simp_all
  show ?thesis
    using walkMismatches_tree [OF m n _ all, of 0] assms(3,7) mismatches_nth [of hs gs 0]
    by (simp add: LocateMismatches_def LeafCount_def t u c)
qed

theorem LocateMismatches_exact_witness:
  "LocateMismatches \<lparr>mt_root = LeafNode (replicate 32 1) 1, mt_leaves = [LeafNode (replicate 32 1) 1]\<rparr>
     \<lparr>mt_root = LeafNode (replicate 32 2) 1, mt_leaves = [LeafNode (replicate 32 2) 1]\<rparr> = Some (Inr [0])"
proof -
  have b: "BuildMerkleTreeFromLeafHashes [replicate 32 x]
      = Some (Inr \<lparr>mt_root = LeafNode (replicate 32 x) 1, mt_leaves = [LeafNode (replicate 32 x) 1]\<rparr>)" for x
    by (simp add: BuildMerkleTreeFromLeafHashes_def treeOfLeaves_def buildMTH.simps)
  show ?thesis
    using LocateMismatches_exact [OF b b, of 1 2] by simp
qed

text \<open>C38. The verifier returns for every proof whose claimed tree size is at most \<open>2^62\<close>, and
  never returns for a well-formed index in a larger claimed size: the doubling loop wraps around to
  zero and runs forever.\<close>

theorem VerifyInclusion_returns_iff:
  assumes "is_int64 (ip_TreeSize pf)"
  shows "(\<exists>b. VerifyInclusion leaf pf trusted = Some b) \<longleftrightarrow>
    ip_TreeSize pf \<le> 2 ^ 62 \<or> ip_LeafIndex pf < 0 \<or> ip_LeafIndex pf \<ge> ip_TreeSize pf"
proof (cases "ip_TreeSize pf \<le> 2 ^ 62")
  case True
  with computeMerkleDirections_returns [OF True, of "ip_LeafIndex pf"] show ?thesis
    by (auto simp: VerifyInclusion_def)
next
  case False
  with computeMerkleDirections_diverges [of "ip_TreeSize pf" "ip_LeafIndex pf"] show ?thesis
    by (auto simp: VerifyInclusion_def)
qed

theorem VerifyInclusion_returns_iff_witness:
  "\<not> (\<exists>b. VerifyInclusion [] \<lparr>ip_LeafIndex = 0, ip_TreeSize = 2 ^ 63 - 1, ip_Path = []\<rparr> [] = Some b)"
  using VerifyInclusion_returns_iff [of "\<lparr>ip_LeafIndex = 0, ip_TreeSize = 2 ^ 63 - 1, ip_Path = []\<rparr>" "[]" "[]"]
  by (simp add: is_int64_def int64_min_def int64_max_def)

end
