(* ===== verification/Ledger_DB.thy ===== *)
theory Ledger_DB
  imports Inputs Digests
begin

text \<open>
  The database the stores of \<^verbatim>\<open>postgres/\<close> work on: the rows of \<^verbatim>\<open>postgres/sqlcgen/models.go\<close>, the
  tables as lists of rows in insertion order with their id sequences, the conversions of
  \<^verbatim>\<open>postgres/convert.go\<close>, the dimension lookups of \<^verbatim>\<open>postgres/dims.go\<close> and the queries of
  \<^verbatim>\<open>postgres/sqlcgen/\<close> as functions of the tables. A statement or a whole operation takes the
  database and returns a result with the new database; an error stands for the rolled back
  transaction. Transactions run one after the other, as the advisory and row locks make them; driver
  failures are not modelled. An amount column holds an integer number of \<open>10^-18\<close> units.
\<close>

section \<open>Rows\<close>

record CurrencyRow = Currency +
  cur_ID :: int

record ClassificationRow = Classification +
  cls_ID :: int

record JournalTypeRow = JournalType +
  jt_ID :: int

record JournalRow =
  jr_ID :: int
  jr_JournalTypeID :: int
  jr_IdempotencyKey :: string
  jr_TotalDebit :: int
  jr_TotalCredit :: int
  jr_Metadata :: metadata
  jr_ActorID :: int
  jr_Source :: string
  jr_ReversalOf :: "int option"
  jr_CreatedAt :: gotime
  jr_EventID :: "int option"
  jr_EffectiveAt :: gotime
  jr_UID :: string
  jr_AuthDigest :: bytes
  jr_AuthSignature :: bytes
  jr_AuthKeyID :: string
  jr_AuthStatus :: string

record EntryRow =
  er_ID :: int
  er_JournalID :: int
  er_AccountHolder :: int
  er_CurrencyID :: int
  er_ClassificationID :: int
  er_EntryType :: string
  er_Amount :: int
  er_CreatedAt :: gotime
  er_EffectiveAt :: gotime

record TemplateRow =
  tm_ID :: int
  tm_RowCode :: string
  tm_RowName :: string
  tm_JournalTypeID :: int
  tm_RowActive :: bool
  tm_RowCreatedAt :: gotime
  tm_RowUID :: string

record TemplateLineRow =
  lr_ID :: int
  lr_TemplateID :: int
  lr_ClassificationID :: int
  lr_EntryType :: string
  lr_HolderRole :: string
  lr_AmountKey :: string
  lr_SortOrder :: int

record EventRow =
  ev_ID :: int
  ev_ClassificationCode :: string
  ev_BookingID :: int
  ev_AccountHolder :: int
  ev_CurrencyID :: int
  ev_FromStatus :: string
  ev_ToStatus :: string
  ev_Amount :: int
  ev_SettledAmount :: int
  ev_JournalID :: "int option"
  ev_Metadata :: metadata
  ev_OccurredAt :: gotime
  ev_DeliveryStatus :: string
  ev_Attempts :: int
  ev_MaxAttempts :: int
  ev_NextAttemptAt :: gotime
  ev_DeliveredAt :: gotime
  ev_CreatedAt :: gotime
  ev_ActorID :: int
  ev_Source :: string
  ev_UID :: string

record BookingRow =
  br_ID :: int
  br_ClassificationID :: int
  br_AccountHolder :: int
  br_CurrencyID :: int
  br_Amount :: int
  br_SettledAmount :: int
  br_Status :: string
  br_ChannelName :: string
  br_ChannelRef :: string
  br_ReservationID :: "int option"
  br_JournalID :: "int option"
  br_IdempotencyKey :: string
  br_Metadata :: metadata
  br_ExpiresAt :: gotime
  br_CreatedAt :: gotime
  br_UpdatedAt :: gotime
  br_UID :: string

record CheckpointRow =
  cp_AccountHolder :: int
  cp_CurrencyID :: int
  cp_ClassificationID :: int
  cp_Balance :: int
  cp_LastEntryID :: int
  cp_LastEntryAt :: gotime
  cp_UpdatedAt :: gotime

record PolicyRow =
  pr_ID :: int
  pr_AccountHolder :: int
  pr_CurrencyID :: int
  pr_ClassificationID :: int
  pr_Status :: string
  pr_MinBalance :: int
  pr_EnforceMinBalance :: bool
  pr_Note :: string
  pr_UpdatedAt :: gotime
  pr_CreatedAt :: gotime
  pr_UID :: string

record PeriodCloseRow =
  pd_ID :: int
  pd_CloseBefore :: gotime
  pd_Note :: string
  pd_ActorID :: int
  pd_CreatedAt :: gotime
  pd_UID :: string

record ReservationRow =
  rr_ID :: int
  rr_AccountHolder :: int
  rr_CurrencyID :: int
  rr_ReservedAmount :: int
  rr_SettledAmount :: int
  rr_Status :: string
  rr_JournalID :: "int option"
  rr_IdempotencyKey :: string
  rr_ExpiresAt :: gotime
  rr_CreatedAt :: gotime
  rr_UpdatedAt :: gotime
  rr_UID :: string

record ReceiptRow =
  rc_ID :: int
  rc_ReservationID :: int
  rc_Operation :: string
  rc_IdempotencyKey :: string
  rc_Amount :: int
  rc_CreatedAt :: gotime
  rc_AuthDigest :: bytes
  rc_AuthSignature :: bytes
  rc_AuthKeyID :: string

record LegRow =
  lg_ID :: int
  lg_ReservationID :: int
  lg_IdempotencyKey :: string
  lg_Amount :: int
  lg_CreatedAt :: gotime
  lg_AuthDigest :: bytes
  lg_AuthSignature :: bytes
  lg_AuthKeyID :: string

record TransitionReceiptRow =
  tr_ID :: int
  tr_BookingID :: int
  tr_IdempotencyKey :: string
  tr_ToStatus :: string
  tr_ChannelRef :: string
  tr_Amount :: int
  tr_EventID :: int
  tr_CreatedAt :: gotime

record EntryAttestationRow =
  ea_EntryID :: int
  ea_Seq :: int
  ea_LeafHash :: bytes
  ea_AuthVerdict :: string

record CheckpointRebuildRow =
  rb_ID :: int
  rb_UID :: string
  rb_AccountHolder :: int
  rb_CurrencyID :: int
  rb_ClassificationID :: int
  rb_PreviousBalance :: int
  rb_PreviousLastEntryID :: int
  rb_NewBalance :: int
  rb_NewLastEntryID :: int
  rb_Drift :: int
  rb_ActorID :: int
  rb_CreatedAt :: gotime

record QueueRow =
  rq_ID :: int
  rq_AccountHolder :: int
  rq_CurrencyID :: int
  rq_ClassificationID :: int
  rq_ClaimedUntil :: "gotime option"
  rq_ProcessedAt :: "gotime option"
  rq_CreatedAt :: gotime
  rq_FailedAttempts :: int

section \<open>The database and the process around it\<close>

text \<open>
  PostgreSQL sequences increase and may leave gaps, so one counter that numbers the rows of every
  table is a run they allow.
\<close>

record db =
  dbCurrencies :: "CurrencyRow list"
  dbClassifications :: "ClassificationRow list"
  dbJournalTypes :: "JournalTypeRow list"
  dbTemplates :: "TemplateRow list"
  dbTemplateLines :: "TemplateLineRow list"
  dbJournals :: "JournalRow list"
  dbEntries :: "EntryRow list"
  dbEvents :: "EventRow list"
  dbBookings :: "BookingRow list"
  dbCheckpoints :: "CheckpointRow list"
  dbQueue :: "QueueRow list"
  dbPolicies :: "PolicyRow list"
  dbPeriods :: "PeriodCloseRow list"
  dbReservations :: "ReservationRow list"
  dbReceipts :: "ReceiptRow list"
  dbLegs :: "LegRow list"
  dbTransitionReceipts :: "TransitionReceiptRow list"
  dbEntryAttestations :: "EntryAttestationRow list"
  dbRebuilds :: "CheckpointRebuildRow list"
  dbSeq :: int

text \<open>
  What a call finds around it: the decimal package and the quote codec, the driver's reading of a
  numeric column as a coefficient and an exponent, the clock, the generator and the parser of UUIDs
  (a parsed uid is returned in canonical form), the configured signer, and whether the store is bound
  to a connection pool or to the caller's transaction.
\<close>

record 'd env =
  envD :: "'d decimal_ops"
  envJ :: "'d quote_json"
  envNumeric :: "int \<Rightarrow> int \<times> int"
  envNow :: gotime
  envNewUID :: "int \<Rightarrow> string"
  envParseUID :: "string \<Rightarrow> string option"
  envAttestor :: "Attestor option"
  envPool :: bool

type_synonym ('d, 'r) op = "'d env \<Rightarrow> db \<Rightarrow> ('r \<times> db) result"

section \<open>Conversions\<close>

text \<open>Storing into \<^verbatim>\<open>NUMERIC(30,18)\<close> rounds to the scale, ties away from zero, and fails with code
  22003 when the integral part needs more than twelve digits.\<close>

definition unit_val :: "int \<Rightarrow> rat" where
  "unit_val n = of_int n / 10 ^ 18"

definition decimalToNumeric :: "'d decimal_ops \<Rightarrow> 'd \<Rightarrow> int \<times> int" where
  "decimalToNumeric D d = (dCoefficient D d, dExponent D d)"

definition storeNumeric :: "int \<times> int \<Rightarrow> int result" where
  "storeNumeric c =
     (let n = half_up_rat (of_int (fst c) * 10 powi (snd c + 18))
      in if \<bar>n\<bar> < 10 ^ 30 then Inr n else invalid)"

definition numericToDecimal :: "'d env \<Rightarrow> int \<Rightarrow> 'd" where
  "numericToDecimal E n =
     (let c = envNumeric E n in dNewFromBigInt (envD E) (fst c) (snd c))"

text \<open>A timestamp column keeps microseconds.\<close>

definition timestamptz :: "gotime \<Rightarrow> gotime" where
  "timestamptz t = TruncateTime t microsecond"

text \<open>JSON objects are compared by their members in key order; an absent map is the empty object.\<close>

definition metadataToJSON :: "metadata \<Rightarrow> metadata" where
  "metadataToJSON m = sort_key fst m"

definition zeroInt64ToNil :: "int \<Rightarrow> int option" where
  "zeroInt64ToNil v = (if v = 0 then None else Some v)"

definition uidToPG :: "'d env \<Rightarrow> string \<Rightarrow> string result" where
  "uidToPG E uid = (case envParseUID E uid of None \<Rightarrow> Inl [ErrNotFound] | Some u \<Rightarrow> Inr u)"

section \<open>Go maps from keys to decimals\<close>

text \<open>\<^verbatim>\<open>m[k] = m[k].Add(v)\<close> on an association list in order of first appearance, and \<^verbatim>\<open>m[k]\<close> with the
  zero decimal for an absent key.\<close>

fun addAt :: "'d decimal_ops \<Rightarrow> 'k \<Rightarrow> 'd \<Rightarrow> ('k \<times> 'd) list \<Rightarrow> ('k \<times> 'd) list" where
  "addAt D k v [] = [(k, dAdd D (dZero D) v)]"
| "addAt D k v ((l, w) # m) = (if l = k then (l, dAdd D w v) # m else (l, w) # addAt D k v m)"

definition valAt :: "'d decimal_ops \<Rightarrow> ('k \<times> 'd) list \<Rightarrow> 'k \<Rightarrow> 'd" where
  "valAt D m k = (case map_of m k of None \<Rightarrow> dZero D | Some v \<Rightarrow> v)"

definition sumBy :: "'d decimal_ops \<Rightarrow> ('a \<Rightarrow> 'k) \<Rightarrow> ('a \<Rightarrow> 'd) \<Rightarrow> 'a list \<Rightarrow> ('k \<times> 'd) list" where
  "sumBy D key amt xs = foldl (\<lambda>m x. addAt D (key x) (amt x) m) [] xs"

section \<open>Dimension rows\<close>

record dimCurrency =
  dc_ID :: int
  dc_UID :: string
  dc_Code :: string
  dc_Exponent :: int

record dimClassification =
  dk_ID :: int
  dk_UID :: string
  dk_Code :: string
  dk_NormalSide :: NormalSide

record dimJournalType =
  dj_ID :: int
  dj_UID :: string
  dj_Code :: string

definition currencyDim :: "CurrencyRow \<Rightarrow> dimCurrency" where
  "currencyDim r = \<lparr>dc_ID = cur_ID r, dc_UID = cur_UID r, dc_Code = cur_Code r,
     dc_Exponent = cur_Exponent r\<rparr>"

definition classDim :: "ClassificationRow \<Rightarrow> dimClassification" where
  "classDim r = \<lparr>dk_ID = cls_ID r, dk_UID = cls_UID r, dk_Code = cls_Code r,
     dk_NormalSide = cls_NormalSide r\<rparr>"

definition jtDim :: "JournalTypeRow \<Rightarrow> dimJournalType" where
  "jtDim r = \<lparr>dj_ID = jt_ID r, dj_UID = jt_UID r, dj_Code = jt_Code r\<rparr>"

definition ListCurrencyDims :: "db \<Rightarrow> dimCurrency list" where
  "ListCurrencyDims s = map currencyDim (dbCurrencies s)"

definition ListClassificationDims :: "db \<Rightarrow> dimClassification list" where
  "ListClassificationDims s = map classDim (dbClassifications s)"

definition ListJournalTypeDims :: "db \<Rightarrow> dimJournalType list" where
  "ListJournalTypeDims s = map jtDim (dbJournalTypes s)"

text \<open>
  The rows the lookups of \<^verbatim>\<open>postgres/dims.go\<close> return, read from the tables. Theory \<open>Dims\<close> shows that
  the process-wide cache in front of them answers the same, so the stores call these.
\<close>

definition orErr :: "'a option \<Rightarrow> goerr \<Rightarrow> 'a result" where
  "orErr r e = (case r of None \<Rightarrow> Inl e | Some x \<Rightarrow> Inr x)"

definition currencyOfUID :: "db \<Rightarrow> string \<Rightarrow> dimCurrency result" where
  "currencyOfUID s uid = orErr (List.find (\<lambda>d. dc_UID d = uid) (ListCurrencyDims s)) [ErrNotFound]"

definition currencyOfID :: "db \<Rightarrow> int \<Rightarrow> dimCurrency result" where
  "currencyOfID s i = orErr (List.find (\<lambda>d. dc_ID d = i) (ListCurrencyDims s)) [ErrNotFound]"

definition classOfUID :: "db \<Rightarrow> string \<Rightarrow> dimClassification result" where
  "classOfUID s uid =
     orErr (List.find (\<lambda>d. dk_UID d = uid) (ListClassificationDims s)) [ErrNotFound]"

definition classOfID :: "db \<Rightarrow> int \<Rightarrow> dimClassification result" where
  "classOfID s i = orErr (List.find (\<lambda>d. dk_ID d = i) (ListClassificationDims s)) [ErrNotFound]"

definition jtOfUID :: "db \<Rightarrow> string \<Rightarrow> dimJournalType result" where
  "jtOfUID s uid = orErr (List.find (\<lambda>d. dj_UID d = uid) (ListJournalTypeDims s)) [ErrNotFound]"

definition jtOfID :: "db \<Rightarrow> int \<Rightarrow> dimJournalType result" where
  "jtOfID s i = orErr (List.find (\<lambda>d. dj_ID d = i) (ListJournalTypeDims s)) [ErrNotFound]"

section \<open>Queries\<close>

definition GetJournalByIdempotencyKey :: "db \<Rightarrow> string \<Rightarrow> JournalRow option" where
  "GetJournalByIdempotencyKey s key = List.find (\<lambda>r. jr_IdempotencyKey r = key) (dbJournals s)"

definition GetJournalByUID :: "db \<Rightarrow> string \<Rightarrow> JournalRow option" where
  "GetJournalByUID s uid = List.find (\<lambda>r. jr_UID r = uid) (dbJournals s)"

definition GetJournalForUpdateByUID :: "db \<Rightarrow> string \<Rightarrow> JournalRow option" where
  "GetJournalForUpdateByUID s uid = GetJournalByUID s uid"

definition GetJournalUIDByID :: "db \<Rightarrow> int \<Rightarrow> string option" where
  "GetJournalUIDByID s i = map_option jr_UID (List.find (\<lambda>r. jr_ID r = i) (dbJournals s))"

definition ListJournalEntries :: "db \<Rightarrow> int \<Rightarrow> EntryRow list" where
  "ListJournalEntries s j = filter (\<lambda>e. er_JournalID e = j) (dbEntries s)"

definition ListReversalsByOriginalJournalID :: "db \<Rightarrow> int \<Rightarrow> JournalRow list" where
  "ListReversalsByOriginalJournalID s j = filter (\<lambda>r. jr_ReversalOf r = Some j) (dbJournals s)"

definition ListReversalEntriesByOriginal :: "db \<Rightarrow> int \<Rightarrow> EntryRow list" where
  "ListReversalEntriesByOriginal s j =
     filter (\<lambda>e. er_JournalID e \<in> set (map jr_ID (ListReversalsByOriginalJournalID s j))) (dbEntries s)"

definition GetEvent :: "db \<Rightarrow> int \<Rightarrow> EventRow option" where
  "GetEvent s i = List.find (\<lambda>r. ev_ID r = i) (dbEvents s)"

definition GetEventByUID :: "db \<Rightarrow> string \<Rightarrow> EventRow option" where
  "GetEventByUID s uid = List.find (\<lambda>r. ev_UID r = uid) (dbEvents s)"

definition GetEventUIDByID :: "db \<Rightarrow> int \<Rightarrow> string option" where
  "GetEventUIDByID s i = map_option ev_UID (List.find (\<lambda>r. ev_ID r = i) (dbEvents s))"

definition GetBooking :: "db \<Rightarrow> int \<Rightarrow> BookingRow option" where
  "GetBooking s i = List.find (\<lambda>r. br_ID r = i) (dbBookings s)"

definition GetBookingForUpdate :: "db \<Rightarrow> int \<Rightarrow> BookingRow option" where
  "GetBookingForUpdate s i = GetBooking s i"

definition GetTemplateByCode :: "db \<Rightarrow> string \<Rightarrow> TemplateRow option" where
  "GetTemplateByCode s code = List.find (\<lambda>r. tm_RowCode r = code) (dbTemplates s)"

definition GetTemplateLines :: "db \<Rightarrow> int \<Rightarrow> TemplateLineRow list" where
  "GetTemplateLines s i = sort_key lr_SortOrder (filter (\<lambda>l. lr_TemplateID l = i) (dbTemplateLines s))"

definition GetClassification :: "db \<Rightarrow> int \<Rightarrow> ClassificationRow option" where
  "GetClassification s i = List.find (\<lambda>r. cls_ID r = i) (dbClassifications s)"

text \<open>\<^verbatim>\<open>ORDER BY created_at DESC, id DESC LIMIT 1\<close>.\<close>

definition GetActivePeriodClose :: "db \<Rightarrow> PeriodCloseRow option" where
  "GetActivePeriodClose s =
     (case rev (sort_key (\<lambda>r. (pd_CreatedAt r, pd_ID r)) (dbPeriods s)) of
        [] \<Rightarrow> None | r # _ \<Rightarrow> Some r)"

definition GetEffectiveAccountPolicy :: "db \<Rightarrow> int \<Rightarrow> int \<Rightarrow> int \<Rightarrow> PolicyRow option" where
  "GetEffectiveAccountPolicy s holder currencyID classificationID =
     (case rev (sort_key (\<lambda>r. ((if pr_CurrencyID r \<noteq> 0 then 1 else 0)
                              + (if pr_ClassificationID r \<noteq> 0 then 1 else 0 :: int),
                              pr_CurrencyID r, pr_ClassificationID r))
             (filter (\<lambda>r. pr_AccountHolder r = holder
                \<and> (pr_CurrencyID r = currencyID \<or> pr_CurrencyID r = 0)
                \<and> (pr_ClassificationID r = classificationID \<or> pr_ClassificationID r = 0))
               (dbPolicies s))) of
        [] \<Rightarrow> None | r # _ \<Rightarrow> Some r)"

text \<open>The inactive rows among the given ids: what they are called, without the final ordering.\<close>

definition InactiveDims :: "db \<Rightarrow> int list \<Rightarrow> int list \<Rightarrow> int list \<Rightarrow> (string \<times> string) list" where
  "InactiveDims s currencyIds classificationIds journalTypeIds =
     map (\<lambda>r. (''currency'', cur_Code r))
       (filter (\<lambda>r. cur_ID r \<in> set currencyIds \<and> \<not> cur_IsActive r) (dbCurrencies s))
     @ map (\<lambda>r. (''classification'', cls_Code r))
       (filter (\<lambda>r. cls_ID r \<in> set classificationIds \<and> \<not> cls_IsActive r) (dbClassifications s))
     @ map (\<lambda>r. (''journal type'', jt_Code r))
       (filter (\<lambda>r. jt_ID r \<in> set journalTypeIds \<and> \<not> jt_IsActive r) (dbJournalTypes s))"

definition GetBalanceCheckpoint :: "db \<Rightarrow> int \<Rightarrow> int \<Rightarrow> int \<Rightarrow> CheckpointRow option" where
  "GetBalanceCheckpoint s holder currencyID classificationID =
     List.find (\<lambda>c. cp_AccountHolder c = holder \<and> cp_CurrencyID c = currencyID
                  \<and> cp_ClassificationID c = classificationID) (dbCheckpoints s)"

definition on_dim :: "int \<Rightarrow> int \<Rightarrow> int \<Rightarrow> EntryRow \<Rightarrow> bool" where
  "on_dim holder currencyID classificationID e \<longleftrightarrow>
     er_AccountHolder e = holder \<and> er_CurrencyID e = currencyID
     \<and> er_ClassificationID e = classificationID"

text \<open>One group per entry type that occurs.\<close>

definition SumEntriesSinceForClassification ::
  "db \<Rightarrow> int \<Rightarrow> int \<Rightarrow> int \<Rightarrow> int \<Rightarrow> (string \<times> int) list" where
  "SumEntriesSinceForClassification s holder currencyID classificationID sinceEntryID =
     (let rows = filter (\<lambda>e. on_dim holder currencyID classificationID e \<and> sinceEntryID < er_ID e)
                   (dbEntries s)
      in map (\<lambda>t. (t, \<Sum>e\<leftarrow>filter (\<lambda>e. er_EntryType e = t) rows. er_Amount e))
           (remdups (map er_EntryType rows)))"

definition entry_net :: "EntryRow \<Rightarrow> int" where
  "entry_net e = (if er_EntryType e = EntryTypeDebit then er_Amount e else - er_Amount e)"

definition VerifyJournalBalanced :: "db \<Rightarrow> int \<Rightarrow> int option" where
  "VerifyJournalBalanced s j =
     (let rows = filter (\<lambda>e. er_JournalID e = j) (dbEntries s)
      in List.find (\<lambda>c. (\<Sum>e\<leftarrow>filter (\<lambda>e. er_CurrencyID e = c) rows. entry_net e) \<noteq> 0)
           (remdups (map er_CurrencyID rows)))"

definition SumActiveReservations :: "db \<Rightarrow> int \<Rightarrow> int \<Rightarrow> int" where
  "SumActiveReservations s holder currencyID =
     (\<Sum>r\<leftarrow>filter (\<lambda>r. rr_AccountHolder r = holder \<and> rr_CurrencyID r = currencyID
             \<and> (rr_Status r = ReservationStatusActive \<or> rr_Status r = ReservationStatusSettling))
           (dbReservations s).
        if rr_Status r = ReservationStatusActive then rr_ReservedAmount r
        else rr_ReservedAmount r - rr_SettledAmount r)"

section \<open>Statements that write\<close>

definition EnqueueRollup :: "'d env \<Rightarrow> int \<times> int \<times> int \<Rightarrow> db \<Rightarrow> db" where
  "EnqueueRollup E key s =
     (case key of (holder, currencyID, classificationID) \<Rightarrow>
        let hit = (\<lambda>r. rq_AccountHolder r = holder \<and> rq_CurrencyID r = currencyID
                     \<and> rq_ClassificationID r = classificationID \<and> rq_ProcessedAt r = None)
        in if \<exists>r\<in>set (dbQueue s). hit r
           then s\<lparr>dbQueue := map (\<lambda>r. if hit r then r\<lparr>rq_ClaimedUntil := None\<rparr> else r) (dbQueue s)\<rparr>
           else s\<lparr>dbQueue := dbQueue s @ [\<lparr>rq_ID = dbSeq s + 1, rq_AccountHolder = holder,
                      rq_CurrencyID = currencyID, rq_ClassificationID = classificationID,
                      rq_ClaimedUntil = None, rq_ProcessedAt = None,
                      rq_CreatedAt = timestamptz (envNow E), rq_FailedAttempts = 0\<rparr>],
                   dbSeq := dbSeq s + 1\<rparr>)"

definition LinkEventJournal :: "int \<Rightarrow> int \<Rightarrow> db \<Rightarrow> db option" where
  "LinkEventJournal eventID journalID s =
     (if \<exists>r\<in>set (dbEvents s). ev_ID r = eventID \<and> ev_JournalID r = None
      then Some (s\<lparr>dbEvents := map (\<lambda>r. if ev_ID r = eventID \<and> ev_JournalID r = None
                                 then r\<lparr>ev_JournalID := Some journalID\<rparr> else r) (dbEvents s)\<rparr>)
      else None)"

definition LinkBookingJournal :: "'d env \<Rightarrow> int \<Rightarrow> int \<Rightarrow> db \<Rightarrow> db option" where
  "LinkBookingJournal E bookingID journalID s =
     (if \<exists>r\<in>set (dbBookings s). br_ID r = bookingID \<and> br_JournalID r = None
      then Some (s\<lparr>dbBookings := map (\<lambda>r. if br_ID r = bookingID \<and> br_JournalID r = None
             then r\<lparr>br_JournalID := Some journalID, br_UpdatedAt := timestamptz (envNow E)\<rparr> else r)
           (dbBookings s)\<rparr>)
      else None)"

end
