(* ===== verification/Dims.thy ===== *)
theory Dims
  imports Ledger_DB
begin

text \<open>
  The cache of \<^verbatim>\<open>postgres/dims.go\<close> in front of the three dimension tables: six maps, filled by one
  read of the tables on a miss, and a view with a parent for a store bound to a caller's transaction.
  The rows it holds never change, so a cache filled from an earlier, smaller state of the tables
  answers every lookup as the tables do now.
\<close>

datatype dimCache = DimCache
  (parent: "dimCache option")
  (currencyByUID: "(string \<times> dimCurrency) list") (currencyByID: "(int \<times> dimCurrency) list")
  (classByUID: "(string \<times> dimClassification) list") (classByID: "(int \<times> dimClassification) list")
  (jtByUID: "(string \<times> dimJournalType) list") (jtByID: "(int \<times> dimJournalType) list")

definition emptyCache :: dimCache where
  "emptyCache = DimCache None [] [] [] [] [] []"

definition dimCacheForTx :: "dimCache \<Rightarrow> dimCache" where
  "dimCacheForTx p = DimCache (Some p) [] [] [] [] [] []"

text \<open>A map filled in row order keeps the last row of a key.\<close>

definition keyed :: "('v \<Rightarrow> 'k) \<Rightarrow> 'v list \<Rightarrow> ('k \<times> 'v) list" where
  "keyed f xs = rev (map (\<lambda>d. (f d, d)) xs)"

definition refresh :: "dimCache \<Rightarrow> db \<Rightarrow> dimCache" where
  "refresh c s = DimCache (parent c)
     (keyed dc_UID (ListCurrencyDims s)) (keyed dc_ID (ListCurrencyDims s))
     (keyed dk_UID (ListClassificationDims s)) (keyed dk_ID (ListClassificationDims s))
     (keyed dj_UID (ListJournalTypeDims s)) (keyed dj_ID (ListJournalTypeDims s))"

fun dimRead :: "dimCache \<Rightarrow> (dimCache \<Rightarrow> ('k \<times> 'v) list) \<Rightarrow> 'k \<Rightarrow> 'v option" where
  "dimRead (DimCache p a b c d e f) pick key =
     (case map_of (pick (DimCache p a b c d e f)) key of
        Some v \<Rightarrow> Some v
      | None \<Rightarrow> (case p of None \<Rightarrow> None | Some q \<Rightarrow> dimRead q pick key))"

definition dimLookup ::
  "dimCache \<Rightarrow> db \<Rightarrow> (dimCache \<Rightarrow> ('k \<times> 'v) list) \<Rightarrow> 'k \<Rightarrow> 'v option \<times> dimCache" where
  "dimLookup c s pick key =
     (case dimRead c pick key of
        Some v \<Rightarrow> (Some v, c)
      | None \<Rightarrow> (let c' = refresh c s in (dimRead c' pick key, c')))"

definition currencyByUIDOrErr :: "dimCache \<Rightarrow> db \<Rightarrow> string \<Rightarrow> dimCurrency result \<times> dimCache" where
  "currencyByUIDOrErr c s uid =
     (let r = dimLookup c s currencyByUID uid in (orErr (fst r) [ErrNotFound], snd r))"

definition currencyByIDOrErr :: "dimCache \<Rightarrow> db \<Rightarrow> int \<Rightarrow> dimCurrency result \<times> dimCache" where
  "currencyByIDOrErr c s i =
     (let r = dimLookup c s currencyByID i in (orErr (fst r) [ErrNotFound], snd r))"

definition classByUIDOrErr :: "dimCache \<Rightarrow> db \<Rightarrow> string \<Rightarrow> dimClassification result \<times> dimCache" where
  "classByUIDOrErr c s uid =
     (let r = dimLookup c s classByUID uid in (orErr (fst r) [ErrNotFound], snd r))"

definition classByIDOrErr :: "dimCache \<Rightarrow> db \<Rightarrow> int \<Rightarrow> dimClassification result \<times> dimCache" where
  "classByIDOrErr c s i =
     (let r = dimLookup c s classByID i in (orErr (fst r) [ErrNotFound], snd r))"

definition jtByUIDOrErr :: "dimCache \<Rightarrow> db \<Rightarrow> string \<Rightarrow> dimJournalType result \<times> dimCache" where
  "jtByUIDOrErr c s uid =
     (let r = dimLookup c s jtByUID uid in (orErr (fst r) [ErrNotFound], snd r))"

definition jtByIDOrErr :: "dimCache \<Rightarrow> db \<Rightarrow> int \<Rightarrow> dimJournalType result \<times> dimCache" where
  "jtByIDOrErr c s i =
     (let r = dimLookup c s jtByID i in (orErr (fst r) [ErrNotFound], snd r))"

section \<open>Coherence\<close>

text \<open>Every cached pair is a row of the table under its own key.\<close>

definition from_rows :: "('v \<Rightarrow> 'k) \<Rightarrow> 'v list \<Rightarrow> ('k \<times> 'v) list \<Rightarrow> bool" where
  "from_rows f rows m \<longleftrightarrow> (\<forall>(k, d)\<in>set m. k = f d \<and> d \<in> set rows)"

definition maps_from :: "db \<Rightarrow> dimCache \<Rightarrow> bool" where
  "maps_from s c \<longleftrightarrow>
     from_rows dc_UID (ListCurrencyDims s) (currencyByUID c)
     \<and> from_rows dc_ID (ListCurrencyDims s) (currencyByID c)
     \<and> from_rows dk_UID (ListClassificationDims s) (classByUID c)
     \<and> from_rows dk_ID (ListClassificationDims s) (classByID c)
     \<and> from_rows dj_UID (ListJournalTypeDims s) (jtByUID c)
     \<and> from_rows dj_ID (ListJournalTypeDims s) (jtByID c)"

fun coherent :: "db \<Rightarrow> dimCache \<Rightarrow> bool" where
  "coherent s (DimCache p a b c d e f) \<longleftrightarrow>
     maps_from s (DimCache p a b c d e f)
     \<and> (case p of None \<Rightarrow> True | Some q \<Rightarrow> coherent s q)"

text \<open>The unique indexes of the dimension tables.\<close>

definition dims_unique :: "db \<Rightarrow> bool" where
  "dims_unique s \<longleftrightarrow>
     distinct (map dc_UID (ListCurrencyDims s)) \<and> distinct (map dc_ID (ListCurrencyDims s))
     \<and> distinct (map dk_UID (ListClassificationDims s)) \<and> distinct (map dk_ID (ListClassificationDims s))
     \<and> distinct (map dj_UID (ListJournalTypeDims s)) \<and> distinct (map dj_ID (ListJournalTypeDims s))"

text \<open>Later states of the tables: rows are added, and cached columns of a row never change.\<close>

definition dims_grow :: "db \<Rightarrow> db \<Rightarrow> bool" where
  "dims_grow s t \<longleftrightarrow>
     set (ListCurrencyDims s) \<subseteq> set (ListCurrencyDims t)
     \<and> set (ListClassificationDims s) \<subseteq> set (ListClassificationDims t)
     \<and> set (ListJournalTypeDims s) \<subseteq> set (ListJournalTypeDims t)"

lemma find_unique:
  assumes "distinct (map f xs)" "d \<in> set xs"
  shows "List.find (\<lambda>x. f x = f d) xs = Some d"
  using assms by (induction xs) (auto simp: rev_image_eqI)

lemma find_Some_mem: "List.find P xs = Some x \<Longrightarrow> x \<in> set xs \<and> P x"
  by (induction xs) (auto split: if_splits)

lemma find_None_iff: "List.find P xs = None \<longleftrightarrow> (\<forall>x\<in>set xs. \<not> P x)"
  by (induction xs) auto

lemma coherent_maps: "coherent s c \<Longrightarrow> maps_from s c"
  by (cases c) simp

lemma coherent_grow: "coherent s c \<Longrightarrow> dims_grow s t \<Longrightarrow> coherent t c"
proof (induction s c rule: coherent.induct)
  case (1 s p a b c d e f)
  then show ?case
    by (auto simp: maps_from_def from_rows_def dims_grow_def split: option.splits)
qed

lemma coherent_refresh: "coherent s c \<Longrightarrow> coherent s (refresh c s)"
  by (cases c) (auto simp: refresh_def maps_from_def from_rows_def keyed_def)

text \<open>One of the six maps, as a projection of the cache, with its table and its key.\<close>

definition map_of_table ::
  "db \<Rightarrow> ('v \<Rightarrow> 'k) \<Rightarrow> 'v list \<Rightarrow> (dimCache \<Rightarrow> ('k \<times> 'v) list) \<Rightarrow> bool" where
  "map_of_table s f rows pick \<longleftrightarrow>
     distinct (map f rows)
     \<and> (\<forall>c. maps_from s c \<longrightarrow> from_rows f rows (pick c))
     \<and> (\<forall>c. pick (refresh c s) = keyed f rows)"

lemma dimRead_Some:
  assumes "map_of_table s f rows pick" "coherent s c" "dimRead c pick key = Some d"
  shows "d \<in> set rows \<and> key = f d"
  using assms
proof (induction c pick key rule: dimRead.induct)
  case (1 p a b c d' e g pick key)
  have rows: "from_rows f rows (pick (DimCache p a b c d' e g))"
    using 1(2,3) by (simp add: map_of_table_def)
  show ?case
  proof (cases "map_of (pick (DimCache p a b c d' e g)) key")
    case None
    then obtain q where "p = Some q" "dimRead q pick key = Some d" "coherent s q"
      using 1(3,4) by (auto split: option.splits)
    with None show ?thesis using 1(1) 1(2) by blast
  next
    case (Some v)
    then have "(key, d) \<in> set (pick (DimCache p a b c d' e g))"
      using 1(4) by (auto dest: map_of_SomeD)
    with rows show ?thesis by (auto simp: from_rows_def)
  qed
qed

lemma dimRead_refresh:
  assumes "map_of_table s f rows pick" "d \<in> set rows"
  shows "dimRead (refresh c s) pick (f d) = Some d"
proof -
  have "map_of (keyed f rows) (f d) = Some d"
    using assms by (intro map_of_is_SomeI) (auto simp: keyed_def map_of_table_def distinct_map rev_map inj_on_def)
  moreover have "pick (refresh c s) = keyed f rows" using assms(1) by (simp add: map_of_table_def)
  ultimately show ?thesis by (simp add: refresh_def)
qed

lemma dimLookup_table:
  assumes "map_of_table s f rows pick" "coherent s c"
  shows "fst (dimLookup c s pick key) = List.find (\<lambda>d. f d = key) rows
    \<and> coherent s (snd (dimLookup c s pick key))"
proof (cases "dimRead c pick key")
  case (Some d)
  with dimRead_Some [OF assms Some] have "List.find (\<lambda>d. f d = key) rows = Some d"
    using find_unique [of f rows d] assms(1) by (simp add: map_of_table_def)
  with Some assms(2) show ?thesis by (simp add: dimLookup_def)
next
  case None
  have co: "coherent s (refresh c s)" by (rule coherent_refresh [OF assms(2)])
  have "dimRead (refresh c s) pick key = List.find (\<lambda>d. f d = key) rows"
  proof (cases "List.find (\<lambda>d. f d = key) rows")
    case None
    then have "\<forall>d\<in>set rows. f d \<noteq> key" by (simp add: find_None_iff)
    then show ?thesis
      using None dimRead_Some [OF assms(1) co] by (cases "dimRead (refresh c s) pick key") auto
  next
    case (Some d)
    with find_Some_mem [OF Some] dimRead_refresh [OF assms(1), of d c] show ?thesis by auto
  qed
  with None co show ?thesis by (simp add: dimLookup_def Let_def)
qed

lemma six_maps:
  assumes "dims_unique s"
  shows "map_of_table s dc_UID (ListCurrencyDims s) currencyByUID"
    "map_of_table s dc_ID (ListCurrencyDims s) currencyByID"
    "map_of_table s dk_UID (ListClassificationDims s) classByUID"
    "map_of_table s dk_ID (ListClassificationDims s) classByID"
    "map_of_table s dj_UID (ListJournalTypeDims s) jtByUID"
    "map_of_table s dj_ID (ListJournalTypeDims s) jtByID"
  using assms by (simp_all add: map_of_table_def dims_unique_def maps_from_def refresh_def)

section \<open>Properties\<close>


definition sample_dims :: db where
  "sample_dims = \<lparr>
     dbCurrencies = [\<lparr>cur_UID = ''u1'', cur_Code = ''USD'', cur_Name = ''dollar'', cur_IsActive = True,
        cur_Exponent = 2, cur_ID = 1\<rparr>],
     dbClassifications = [], dbJournalTypes = [], dbTemplates = [], dbTemplateLines = [],
     dbJournals = [], dbEntries = [], dbEvents = [], dbBookings = [], dbCheckpoints = [], dbQueue = [],
     dbPolicies = [], dbPeriods = [], dbReservations = [], dbReceipts = [], dbLegs = [], dbTransitionReceipts = [],
     dbEntryAttestations = [], dbRebuilds = [], dbSeq = 1\<rparr>"


end
