(* ===== verification/Ledger_Store.thy ===== *)
theory Ledger_Store
  imports Dims Error_Codes
begin

text \<open>
  The journal store: \<^verbatim>\<open>postgres/ledger_store.go\<close> with the gates it runs before a row is written, from
  \<^verbatim>\<open>postgres/precision.go\<close>, \<^verbatim>\<open>postgres/account_policy_enforce.go\<close>, \<^verbatim>\<open>postgres/idempotency_match.go\<close> and
  the reversal gate of \<^verbatim>\<open>postgres/reversal_fraction_store.go\<close>. Spans, metrics and message texts are left
  out. Advisory and row locks appear as the serial order of transactions, and as the lists of locks the
  batch operations request.
\<close>

section \<open>Loops over the tables\<close>

fun foldR :: "('s \<Rightarrow> 'a \<Rightarrow> 's result) \<Rightarrow> 's \<Rightarrow> 'a list \<Rightarrow> 's result" where
  "foldR f s [] = Inr s"
| "foldR f s (x # xs) = bindR (f s x) (\<lambda>s'. foldR f s' xs)"

text \<open>The first occurrences of a list, as a loop with a \<^verbatim>\<open>seen\<close> map collects them.\<close>

definition dedupe :: "'a list \<Rightarrow> 'a list" where
  "dedupe xs = rev (remdups (rev xs))"

lemma dedupe_simps [simp]: "set (dedupe xs) = set xs" "distinct (dedupe xs)"
  by (simp_all add: dedupe_def)

section \<open>Resolved entries and locks\<close>

record 'd resolvedEntry = "'d EntryInput" +
  re_currencyID :: int
  re_classificationID :: int
  re_exponent :: int
  re_normalSide :: NormalSide

definition resolveEntry :: "db \<Rightarrow> 'd EntryInput \<Rightarrow> 'd resolvedEntry result" where
  "resolveEntry s e =
     bindR (currencyOfUID s (ei_CurrencyUID e)) (\<lambda>cur.
     bindR (classOfUID s (ei_ClassificationUID e)) (\<lambda>cls. Inr \<lparr>
       ei_AccountHolder = ei_AccountHolder e, ei_CurrencyUID = ei_CurrencyUID e,
       ei_ClassificationUID = ei_ClassificationUID e, ei_EntryType = ei_EntryType e,
       ei_Amount = ei_Amount e, re_currencyID = dc_ID cur, re_classificationID = dk_ID cls,
       re_exponent = dc_Exponent cur, re_normalSide = dk_NormalSide cls\<rparr>))"

definition resolveEntries :: "db \<Rightarrow> 'd EntryInput list \<Rightarrow> 'd resolvedEntry list result" where
  "resolveEntries s entries = mapR (resolveEntry s) entries"

type_synonym balancePair = "int \<times> int"

definition pairLess :: "balancePair \<Rightarrow> balancePair \<Rightarrow> bool" where
  "pairLess a b = (if fst a \<noteq> fst b then fst a < fst b else snd a < snd b)"

definition sortedUniquePairs :: "balancePair list \<Rightarrow> balancePair list" where
  "sortedUniquePairs pairs = sort_by pairLess (dedupe pairs)"

definition balancePairsFromEntries :: "'d resolvedEntry list \<Rightarrow> balancePair list" where
  "balancePairsFromEntries entries =
     sortedUniquePairs (map (\<lambda>e. (ei_AccountHolder e, re_currencyID e)) entries)"

definition resolveEffectiveAt :: "'d env \<Rightarrow> gotime \<Rightarrow> gotime" where
  "resolveEffectiveAt E t = (if IsZeroTime t then envNow E else t)"

section \<open>Authorization of a posting\<close>

record journalAuth =
  ja_digest :: bytes
  ja_signature :: bytes
  ja_keyID :: string
  ja_status :: AuthStatus
  ja_replay :: bool

definition unsignedAuth :: "AuthStatus \<Rightarrow> journalAuth" where
  "unsignedAuth status = \<lparr>ja_digest = [], ja_signature = [], ja_keyID = [], ja_status = status,
     ja_replay = False\<rparr>"

definition attestJournal :: "'d env \<Rightarrow> db \<Rightarrow> 'd JournalInput \<Rightarrow> gotime \<Rightarrow> journalAuth result" where
  "attestJournal E s input effectiveAt =
     (case envAttestor E of
        None \<Rightarrow> Inr (unsignedAuth AuthStatusUnsignedNoAttestor)
      | Some sign \<Rightarrow>
          (case GetJournalByIdempotencyKey s (ji_IdempotencyKey input) of
             Some existing \<Rightarrow> Inr ((unsignedAuth (jr_AuthStatus existing))\<lparr>ja_replay := True\<rparr>)
           | None \<Rightarrow>
               bindR (CanonicalJournalDigest (envD E) input effectiveAt) (\<lambda>digest.
                 case sign digest of
                   Inl e \<Rightarrow> Inl (e @ [ErrAttestorUnavailable])
                 | Inr (signature, keyID) \<Rightarrow> Inr \<lparr>ja_digest = digest, ja_signature = signature,
                     ja_keyID = keyID, ja_status = AuthStatusSigned, ja_replay = False\<rparr>)))"

definition Authorize :: "'d env \<Rightarrow> db \<Rightarrow> 'd JournalInput \<Rightarrow> 'd AuthorizedJournal result" where
  "Authorize E s input =
     (if \<not> envPool E then invalid
      else andThen (JournalInput_Validate (envD E) (envJ E) (envNow E) input)
        (let effectiveAt = resolveEffectiveAt E (ji_EffectiveAt input)
         in bindR (attestJournal E s input effectiveAt) (\<lambda>auth. Inr \<lparr>
              aj_Input = input, aj_EffectiveAt = effectiveAt, aj_Digest = ja_digest auth,
              aj_Signature = ja_signature auth, aj_KeyID = ja_keyID auth, aj_Status = ja_status auth\<rparr>)))"

section \<open>Reading a journal back\<close>

definition journalFromRow :: "'d env \<Rightarrow> db \<Rightarrow> JournalRow \<Rightarrow> 'd Journal result" where
  "journalFromRow E s row =
     bindR (jtOfID s (jr_JournalTypeID row)) (\<lambda>jt.
     bindR (case jr_ReversalOf row of None \<Rightarrow> Inr []
            | Some i \<Rightarrow> orErr (GetJournalUIDByID s i) []) (\<lambda>reversalOfUID.
     bindR (case jr_EventID row of None \<Rightarrow> Inr []
            | Some i \<Rightarrow> orErr (GetEventUIDByID s i) []) (\<lambda>eventUID. Inr \<lparr>
       jn_UID = jr_UID row, jn_JournalTypeUID = dj_UID jt, jn_IdempotencyKey = jr_IdempotencyKey row,
       jn_TotalDebit = numericToDecimal E (jr_TotalDebit row),
       jn_TotalCredit = numericToDecimal E (jr_TotalCredit row), jn_Metadata = jr_Metadata row,
       jn_ActorID = jr_ActorID row, jn_Source = jr_Source row, jn_ReversalOfUID = reversalOfUID,
       jn_EventUID = eventUID, jn_EffectiveAt = jr_EffectiveAt row, jn_CreatedAt = jr_CreatedAt row,
       jn_AuthDigest = jr_AuthDigest row, jn_AuthSignature = jr_AuthSignature row,
       jn_AuthKeyID = jr_AuthKeyID row, jn_AuthStatus = jr_AuthStatus row\<rparr>)))"

section \<open>Matching a retried payload\<close>

definition totalDebit :: "'d decimal_ops \<Rightarrow> 'd EntryInput list \<Rightarrow> 'd" where
  "totalDebit D entries =
     foldl (\<lambda>total e. if ei_EntryType e = EntryTypeDebit then dAdd D total (ei_Amount e) else total)
       (dZero D) entries"

definition totalCredit :: "'d decimal_ops \<Rightarrow> 'd EntryInput list \<Rightarrow> 'd" where
  "totalCredit D entries =
     foldl (\<lambda>total e. if ei_EntryType e = EntryTypeCredit then dAdd D total (ei_Amount e) else total)
       (dZero D) entries"

record journalEntryFingerprint =
  fp_holder :: int
  fp_currencyID :: int
  fp_classificationID :: int
  fp_entryType :: string
  fp_amount :: string

definition fingerprintLess :: "journalEntryFingerprint \<Rightarrow> journalEntryFingerprint \<Rightarrow> bool" where
  "fingerprintLess f g =
     (if fp_holder f \<noteq> fp_holder g then fp_holder f < fp_holder g
      else if fp_currencyID f \<noteq> fp_currencyID g then fp_currencyID f < fp_currencyID g
      else if fp_classificationID f \<noteq> fp_classificationID g
        then fp_classificationID f < fp_classificationID g
      else if fp_entryType f \<noteq> fp_entryType g then fp_entryType f < fp_entryType g
      else fp_amount f < fp_amount g)"

definition rowFingerprint :: "'d env \<Rightarrow> EntryRow \<Rightarrow> journalEntryFingerprint" where
  "rowFingerprint E r = \<lparr>fp_holder = er_AccountHolder r, fp_currencyID = er_CurrencyID r,
     fp_classificationID = er_ClassificationID r, fp_entryType = er_EntryType r,
     fp_amount = dString (envD E) (numericToDecimal E (er_Amount r))\<rparr>"

definition inputFingerprint :: "'d env \<Rightarrow> db \<Rightarrow> 'd EntryInput \<Rightarrow> journalEntryFingerprint result" where
  "inputFingerprint E s e =
     bindR (currencyOfUID s (ei_CurrencyUID e)) (\<lambda>cur.
     bindR (classOfUID s (ei_ClassificationUID e)) (\<lambda>cls. Inr \<lparr>
       fp_holder = ei_AccountHolder e, fp_currencyID = dc_ID cur, fp_classificationID = dk_ID cls,
       fp_entryType = ei_EntryType e, fp_amount = dString (envD E) (ei_Amount e)\<rparr>))"

definition sameJournalEntries :: "'d env \<Rightarrow> db \<Rightarrow> EntryRow list \<Rightarrow> 'd EntryInput list \<Rightarrow> bool result" where
  "sameJournalEntries E s rows input =
     (if length rows \<noteq> length input then Inr False
      else bindR (mapR (inputFingerprint E s) input) (\<lambda>right.
        Inr (sort_by fingerprintLess (map (rowFingerprint E) rows) = sort_by fingerprintLess right)))"

definition ensureJournalMatchesInput ::
  "'d env \<Rightarrow> db \<Rightarrow> JournalRow \<Rightarrow> 'd JournalInput \<Rightarrow> 'd Journal result" where
  "ensureJournalMatchesInput E s existing input =
     (let D = envD E;
          effectiveAtMismatch = (\<not> IsZeroTime (ji_EffectiveAt input)
             \<and> jr_EffectiveAt existing \<noteq> TruncateTime (ji_EffectiveAt input) microsecond)
      in bindR (journalFromRow E s existing) (\<lambda>existingCore.
         if jn_JournalTypeUID existingCore \<noteq> ji_JournalTypeUID input
            \<or> jr_ActorID existing \<noteq> ji_ActorID input
            \<or> jr_Source existing \<noteq> ji_Source input
            \<or> jn_EventUID existingCore \<noteq> ji_EventUID input
            \<or> jn_ReversalOfUID existingCore \<noteq> ji_ReversalOfUID input
            \<or> effectiveAtMismatch
            \<or> \<not> dEqual D (numericToDecimal E (jr_TotalDebit existing)) (totalDebit D (ji_Entries input))
            \<or> \<not> dEqual D (numericToDecimal E (jr_TotalCredit existing)) (totalCredit D (ji_Entries input))
            \<or> metadataToJSON (jn_Metadata existingCore) \<noteq> metadataToJSON (ji_Metadata input)
         then Inl [ErrConflict]
         else bindR (sameJournalEntries E s (ListJournalEntries s (jr_ID existing)) (ji_Entries input))
           (\<lambda>same. if \<not> same then Inl [ErrConflict] else Inr existingCore)))"

section \<open>Balances\<close>

text \<open>One row of the sums: its total goes to its side.\<close>

definition sumGroup :: "'d env \<Rightarrow> 'd \<times> 'd \<Rightarrow> string \<times> int \<Rightarrow> 'd \<times> 'd" where
  "sumGroup E acc row =
     (case (acc, row) of ((debitSum, creditSum), (entryType, amount)) \<Rightarrow>
        if entryType = EntryTypeDebit then (dAdd (envD E) debitSum (numericToDecimal E amount), creditSum)
        else if entryType = EntryTypeCredit then (debitSum, dAdd (envD E) creditSum (numericToDecimal E amount))
        else (debitSum, creditSum))"

definition getBalanceWithQueries :: "'d env \<Rightarrow> db \<Rightarrow> int \<Rightarrow> int \<Rightarrow> int \<Rightarrow> 'd result" where
  "getBalanceWithQueries E s holder currencyID classificationID =
     (let D = envD E; cp = GetBalanceCheckpoint s holder currencyID classificationID;
          checkpointBalance = (case cp of None \<Rightarrow> dZero D | Some c \<Rightarrow> numericToDecimal E (cp_Balance c));
          sinceEntryID = (case cp of None \<Rightarrow> 0 | Some c \<Rightarrow> cp_LastEntryID c);
          groups = SumEntriesSinceForClassification s holder currencyID classificationID sinceEntryID;
          (debitSum, creditSum) = foldl (sumGroup E) (dZero D, dZero D) groups
      in bindR (orErr (GetClassification s classificationID) []) (\<lambda>cls.
         bindR (Delta D (cls_NormalSide cls) debitSum creditSum) (\<lambda>delta.
           Inr (dAdd D checkpointBalance delta))))"

definition GetBalance :: "'d env \<Rightarrow> db \<Rightarrow> int \<Rightarrow> string \<Rightarrow> string \<Rightarrow> 'd result" where
  "GetBalance E s holder currencyUID classificationUID =
     bindR (currencyOfUID s currencyUID) (\<lambda>cur.
     bindR (classOfUID s classificationUID) (\<lambda>cls.
       getBalanceWithQueries E s holder (dc_ID cur) (dk_ID cls)))"

section \<open>Gates before a journal is written\<close>

definition checkAmountPrecision :: "'d decimal_ops \<Rightarrow> 'd \<Rightarrow> dimCurrency \<Rightarrow> unit result" where
  "checkAmountPrecision D amount currency =
     (if dEqual D amount (dTruncate D amount (dc_Exponent currency)) then Inr ()
      else Inl [ErrPrecisionExceeded])"

definition validateEntriesPrecision :: "'d env \<Rightarrow> db \<Rightarrow> 'd resolvedEntry list \<Rightarrow> unit result" where
  "validateEntriesPrecision E s entries =
     forEach (\<lambda>e. bindR (currencyOfID s (re_currencyID e)) (\<lambda>cur.
       checkAmountPrecision (envD E) (ei_Amount e) cur)) entries"

definition assertDimsActive :: "db \<Rightarrow> int \<Rightarrow> 'd resolvedEntry list \<Rightarrow> unit result" where
  "assertDimsActive s journalTypeID entries =
     (let currencyIDs = dedupe (map re_currencyID entries);
          classIDs = dedupe (map re_classificationID entries)
      in if InactiveDims s currencyIDs classIDs [journalTypeID] = [] then Inr () else invalid)"

definition getEffectiveAccountPolicy :: "db \<Rightarrow> int \<Rightarrow> int \<Rightarrow> int \<Rightarrow> PolicyRow option" where
  "getEffectiveAccountPolicy s holder currencyID classificationID =
     GetEffectiveAccountPolicy s holder currencyID classificationID"

text \<open>
  One turn of the first loop: the net change of each dimension, and of each frozen policy in each
  currency; a closed account stops the journal at once. Looking a policy up again gives the row the
  loop's \<^verbatim>\<open>policies\<close> map holds.
\<close>

definition policyStep ::
  "'d env \<Rightarrow> db \<Rightarrow> ((int \<times> int \<times> int) \<times> 'd) list \<times> ((int \<times> int) \<times> 'd) list \<Rightarrow> 'd resolvedEntry
    \<Rightarrow> (((int \<times> int \<times> int) \<times> 'd) list \<times> ((int \<times> int) \<times> 'd) list) result" where
  "policyStep E s acc e =
     bindR (SignedAmount (envD E) (re_normalSide e) (ei_EntryType e) (ei_Amount e)) (\<lambda>delta.
       let holder = ei_AccountHolder e; currencyID = re_currencyID e;
           classificationID = re_classificationID e;
           dimensionDelta = addAt (envD E) (holder, currencyID, classificationID) delta (fst acc)
       in case getEffectiveAccountPolicy s holder currencyID classificationID of
            None \<Rightarrow> Inr (dimensionDelta, snd acc)
          | Some policy \<Rightarrow>
              if pr_Status policy = AccountPolicyStatusClosed then Inl [ErrAccountClosed]
              else if pr_Status policy = AccountPolicyStatusFrozen
                then Inr (dimensionDelta, addAt (envD E) (pr_ID policy, currencyID) delta (snd acc))
              else Inr (dimensionDelta, snd acc))"

definition checkMinBalance :: "'d env \<Rightarrow> db \<Rightarrow> (int \<times> int \<times> int) \<times> 'd \<Rightarrow> unit result" where
  "checkMinBalance E s entry =
     (case entry of ((holder, currencyID, classificationID), delta) \<Rightarrow>
        case getEffectiveAccountPolicy s holder currencyID classificationID of
          None \<Rightarrow> Inr ()
        | Some policy \<Rightarrow>
            if \<not> pr_EnforceMinBalance policy then Inr ()
            else bindR (getBalanceWithQueries E s holder currencyID classificationID) (\<lambda>prior.
              let after = dAdd (envD E) prior delta
              in if dLessThan (envD E) after (numericToDecimal E (pr_MinBalance policy))
                 then Inl [ErrInsufficientBalance] else Inr ()))"

definition enforceAccountPolicies :: "'d env \<Rightarrow> db \<Rightarrow> 'd resolvedEntry list \<Rightarrow> unit result" where
  "enforceAccountPolicies E s entries =
     bindR (foldR (policyStep E s) ([], []) entries) (\<lambda>(dimensionDelta, policyDelta).
       andThen (forEach (\<lambda>(_, netDelta).
           if dIsNegative (envD E) netDelta then Inl [ErrAccountFrozen] else Inr ()) policyDelta)
         (forEach (checkMinBalance E s) dimensionDelta))"

section \<open>The reversal gate\<close>

type_synonym entryDimKey = "int \<times> int \<times> int \<times> EntryType"

definition flipEntryType :: "EntryType \<Rightarrow> EntryType" where
  "flipEntryType t = (if t = EntryTypeCredit then EntryTypeDebit else EntryTypeCredit)"

definition rowDimKey :: "EntryRow \<Rightarrow> entryDimKey" where
  "rowDimKey e = (er_AccountHolder e, er_CurrencyID e, er_ClassificationID e, er_EntryType e)"

text \<open>A reversal row counts against the dimension of the entry it undoes.\<close>

definition undoneDimKey :: "EntryRow \<Rightarrow> entryDimKey" where
  "undoneDimKey e =
     (er_AccountHolder e, er_CurrencyID e, er_ClassificationID e, flipEntryType (er_EntryType e))"

definition entriesByDimension :: "'d env \<Rightarrow> EntryRow list \<Rightarrow> (entryDimKey \<times> 'd) list" where
  "entriesByDimension E entries =
     sumBy (envD E) rowDimKey (\<lambda>e. numericToDecimal E (er_Amount e)) entries"

definition dimKeyLess :: "entryDimKey \<Rightarrow> entryDimKey \<Rightarrow> bool" where
  "dimKeyLess a b =
     (case (a, b) of ((h, c, k, t), (h', c', k', t')) \<Rightarrow>
        if h \<noteq> h' then h < h' else if c \<noteq> c' then c < c' else if k \<noteq> k' then k < k' else t < t')"

definition sortedDimKeys :: "(entryDimKey \<times> 'd) list \<Rightarrow> entryDimKey list" where
  "sortedDimKeys m = sort_by dimKeyLess (map fst m)"

definition assertReversalChainIsWellFormed ::
  "'d env \<Rightarrow> db \<Rightarrow> JournalRow \<Rightarrow> EntryRow list \<Rightarrow> (entryDimKey \<times> 'd) list
    \<Rightarrow> (int \<Rightarrow> (entryDimKey \<times> 'd) list) \<Rightarrow> unit result" where
  "assertReversalChainIsWellFormed E s original originalEntries reversedByDim perReversal =
     (let originalByDim = entriesByDimension E originalEntries
      in andThen
        (forEach (\<lambda>r. forEach (\<lambda>key.
             if map_of originalByDim key = None then Inl [ErrConflict] else Inr ())
           (sortedDimKeys (perReversal (jr_ID r))))
         (ListReversalsByOriginalJournalID s (jr_ID original)))
        (forEach (\<lambda>key.
             if dGreaterThan (envD E) (valAt (envD E) reversedByDim key) (valAt (envD E) originalByDim key)
             then Inl [ErrConflict] else Inr ())
         (sortedDimKeys reversedByDim)))"

definition cumulativeReversedByDimension ::
  "'d env \<Rightarrow> db \<Rightarrow> JournalRow \<Rightarrow> EntryRow list \<Rightarrow> (entryDimKey \<times> 'd) list result" where
  "cumulativeReversedByDimension E s original originalEntries =
     (let rows = ListReversalEntriesByOriginal s (jr_ID original);
          amounts = sumBy (envD E) undoneDimKey (\<lambda>r. numericToDecimal E (er_Amount r));
          out = amounts rows;
          perReversal = (\<lambda>j. amounts (filter (\<lambda>r. er_JournalID r = j) rows))
      in if rows = [] then Inr out
         else andThen (assertReversalChainIsWellFormed E s original originalEntries out perReversal)
           (Inr out))"

definition newDimKey :: "'d resolvedEntry \<Rightarrow> entryDimKey" where
  "newDimKey e =
     (ei_AccountHolder e, re_currencyID e, re_classificationID e, flipEntryType (ei_EntryType e))"

definition validateReversalOfInput ::
  "'d env \<Rightarrow> db \<Rightarrow> JournalRow \<Rightarrow> 'd resolvedEntry list \<Rightarrow> unit result" where
  "validateReversalOfInput E s original resolved =
     (let D = envD E; originalEntries = ListJournalEntries s (jr_ID original)
      in if jr_ReversalOf original \<noteq> None then Inl [ErrConflict]
         else if originalEntries = [] then invalid
         else bindR (cumulativeReversedByDimension E s original originalEntries) (\<lambda>alreadyReversed.
           let originalByDim = entriesByDimension E originalEntries;
               newByDim = sumBy D newDimKey ei_Amount resolved
           in forEach (\<lambda>key.
                case map_of originalByDim key of
                  None \<Rightarrow> invalid
                | Some originalAmount \<Rightarrow>
                    if dGreaterThan D (dAdd D (valAt D alreadyReversed key) (valAt D newByDim key))
                         originalAmount
                    then Inl [ErrConflict] else Inr ()) (map fst newByDim)))"

section \<open>Writing a journal\<close>

text \<open>The event a journal claims: unclaimed, with a dimension, and about an account of the journal.\<close>

definition resolveEventLink ::
  "'d env \<Rightarrow> db \<Rightarrow> 'd JournalInput \<Rightarrow> 'd resolvedEntry list \<Rightarrow> int result" where
  "resolveEventLink E s input resolved =
     (if ji_EventUID input = [] then Inr 0
      else bindR (uidToPG E (ji_EventUID input)) (\<lambda>pgUID.
        case GetEventByUID s pgUID of
          None \<Rightarrow> Inl [ErrNotFound]
        | Some event \<Rightarrow>
            if ev_JournalID event \<noteq> None then Inl [ErrConflict]
            else bindR (if ev_BookingID event \<noteq> 0 then
                (case GetBookingForUpdate s (ev_BookingID event) of
                   None \<Rightarrow> Inl [ErrNotFound]
                 | Some booking \<Rightarrow> Inr (br_AccountHolder booking, br_CurrencyID booking))
              else Inr (ev_AccountHolder event, ev_CurrencyID event)) (\<lambda>(linkHolder, linkCurrencyID).
                if linkHolder = 0 \<or> linkCurrencyID = 0 then invalid
                else if (linkHolder, linkCurrencyID) \<notin> set (balancePairsFromEntries resolved)
                  then invalid
                else Inr (ev_ID event))))"

definition resolveReversalOf ::
  "'d env \<Rightarrow> db \<Rightarrow> 'd JournalInput \<Rightarrow> 'd resolvedEntry list \<Rightarrow> int result" where
  "resolveReversalOf E s input resolved =
     (if ji_ReversalOfUID input = [] then Inr 0
      else bindR (uidToPG E (ji_ReversalOfUID input)) (\<lambda>pgUID.
        case GetJournalForUpdateByUID s pgUID of
          None \<Rightarrow> Inl [ErrNotFound]
        | Some orig \<Rightarrow> andThen (validateReversalOfInput E s orig resolved) (Inr (jr_ID orig))))"

definition checkPeriodClose :: "db \<Rightarrow> gotime \<Rightarrow> unit result" where
  "checkPeriodClose s effectiveAt =
     (case GetActivePeriodClose s of
        None \<Rightarrow> Inr ()
      | Some activeClose \<Rightarrow>
          if effectiveAt < pd_CloseBefore activeClose then Inl [ErrPeriodClosed] else Inr ())"

text \<open>
  The insert: the columns are stored, then the CHECK constraints of the table run
  (\<^verbatim>\<open>chk_journal_balance\<close>, \<^verbatim>\<open>chk_journal_nonzero\<close>, the status list), then the unique index.
\<close>

definition InsertJournal ::
  "'d env \<Rightarrow> int \<Rightarrow> 'd JournalInput \<Rightarrow> 'd \<Rightarrow> 'd \<Rightarrow> int \<Rightarrow> int \<Rightarrow> gotime \<Rightarrow> journalAuth \<Rightarrow> db
    \<Rightarrow> (JournalRow \<times> db) result" where
  "InsertJournal E jtID input debit credit reversalOfID eventID effectiveAt auth s =
     bindR (storeNumeric (decimalToNumeric (envD E) debit)) (\<lambda>totalDebit.
     bindR (storeNumeric (decimalToNumeric (envD E) credit)) (\<lambda>totalCredit.
       let i = dbSeq s + 1;
           row = \<lparr>jr_ID = i, jr_JournalTypeID = jtID, jr_IdempotencyKey = ji_IdempotencyKey input,
             jr_TotalDebit = totalDebit, jr_TotalCredit = totalCredit,
             jr_Metadata = metadataToJSON (ji_Metadata input), jr_ActorID = ji_ActorID input,
             jr_Source = ji_Source input, jr_ReversalOf = zeroInt64ToNil reversalOfID,
             jr_CreatedAt = timestamptz (envNow E), jr_EventID = zeroInt64ToNil eventID,
             jr_EffectiveAt = timestamptz effectiveAt, jr_UID = envNewUID E i,
             jr_AuthDigest = ja_digest auth, jr_AuthSignature = ja_signature auth,
             jr_AuthKeyID = ja_keyID auth, jr_AuthStatus = ja_status auth\<rparr>
       in if totalDebit \<noteq> totalCredit then Inl [ErrUnbalancedJournal]
          else if \<not> 0 < totalDebit then invalid
          else if ja_status auth \<notin> set [AuthStatusSigned, AuthStatusUnsignedNoAttestor,
                    AuthStatusUnsignedTxMode] then invalid
          else if GetJournalByIdempotencyKey s (ji_IdempotencyKey input) \<noteq> None
            then Inl [ErrDuplicateJournal]
          else Inr (row, s\<lparr>dbJournals := dbJournals s @ [row], dbSeq := i\<rparr>)))"

definition InsertJournalEntry ::
  "'d env \<Rightarrow> int \<Rightarrow> gotime \<Rightarrow> db \<Rightarrow> 'd resolvedEntry \<Rightarrow> db result" where
  "InsertJournalEntry E journalID effectiveAt s e =
     bindR (storeNumeric (decimalToNumeric (envD E) (ei_Amount e))) (\<lambda>amount.
       let i = dbSeq s + 1
       in if ei_AccountHolder e = 0 \<or> \<not> EntryType_IsValid (ei_EntryType e) \<or> \<not> 0 < amount then invalid
          else Inr (s\<lparr>dbEntries := dbEntries s @ [\<lparr>er_ID = i, er_JournalID = journalID,
                 er_AccountHolder = ei_AccountHolder e, er_CurrencyID = re_currencyID e,
                 er_ClassificationID = re_classificationID e, er_EntryType = ei_EntryType e,
                 er_Amount = amount, er_CreatedAt = timestamptz (envNow E),
                 er_EffectiveAt = timestamptz effectiveAt\<rparr>], dbSeq := i\<rparr>))"

text \<open>The queue keys of a journal, each once.\<close>

definition rollupKeys :: "'d resolvedEntry list \<Rightarrow> (int \<times> int \<times> int) list" where
  "rollupKeys resolved =
     dedupe (map (\<lambda>e. (ei_AccountHolder e, re_currencyID e, re_classificationID e)) resolved)"

definition linkEventRow :: "int \<Rightarrow> int \<Rightarrow> db \<Rightarrow> db result" where
  "linkEventRow eventID journalID s =
     (case LinkEventJournal eventID journalID s of
        Some s' \<Rightarrow> Inr s'
      | None \<Rightarrow>
          bindR (orErr (GetEvent s eventID) []) (\<lambda>current.
            if ev_JournalID current \<noteq> Some journalID then Inl [ErrConflict] else Inr s))"

definition linkBookingRow :: "'d env \<Rightarrow> int \<Rightarrow> int \<Rightarrow> db \<Rightarrow> db result" where
  "linkBookingRow E bookingID journalID s =
     (case GetBooking s bookingID of
        None \<Rightarrow> Inl [ErrNotFound]
      | Some booking \<Rightarrow>
          if br_JournalID booking \<noteq> None \<and> br_JournalID booking \<noteq> Some journalID
          then Inl [ErrConflict]
          else (case LinkBookingJournal E bookingID journalID s of
              Some s' \<Rightarrow> Inr s'
            | None \<Rightarrow>
                bindR (orErr (GetBooking s bookingID) []) (\<lambda>current.
                  if br_JournalID current \<noteq> Some journalID then Inl [ErrConflict] else Inr s)))"

definition linkJournalToEventAndBooking :: "'d env \<Rightarrow> int \<Rightarrow> int \<Rightarrow> db \<Rightarrow> db result" where
  "linkJournalToEventAndBooking E eventID journalID s =
     (case GetEvent s eventID of
        None \<Rightarrow> Inl [ErrNotFound]
      | Some event \<Rightarrow>
          if ev_JournalID event \<noteq> None \<and> ev_JournalID event \<noteq> Some journalID then Inl [ErrConflict]
          else bindR (linkEventRow eventID journalID s) (\<lambda>s1.
            if ev_BookingID event = 0 then Inr s1
            else linkBookingRow E (ev_BookingID event) journalID s1))"

definition writeJournal ::
  "'d env \<Rightarrow> 'd JournalInput \<Rightarrow> 'd resolvedEntry list \<Rightarrow> int \<Rightarrow> int \<Rightarrow> int \<Rightarrow> gotime \<Rightarrow> journalAuth \<Rightarrow> db
    \<Rightarrow> ('d Journal \<times> db) result" where
  "writeJournal E input resolved jtID eventID reversalOfID effectiveAt auth s =
     (let (debit, credit) = Totals (envD E) input
      in case InsertJournal E jtID input debit credit reversalOfID eventID effectiveAt auth s of
           Inl e \<Rightarrow>
             (case GetJournalByIdempotencyKey s (ji_IdempotencyKey input) of
                Some existing \<Rightarrow>
                  bindR (ensureJournalMatchesInput E s existing input) (\<lambda>j. Inr (j, s))
              | None \<Rightarrow> Inl e)
         | Inr (row, s1) \<Rightarrow>
             bindR (foldR (InsertJournalEntry E (jr_ID row) effectiveAt) s1 resolved) (\<lambda>s2.
             let s3 = foldl (\<lambda>t key. EnqueueRollup E key t) s2 (rollupKeys resolved)
             in if VerifyJournalBalanced s3 (jr_ID row) \<noteq> None then Inl [ErrUnbalancedJournal]
                else bindR (if eventID \<noteq> 0 then linkJournalToEventAndBooking E eventID (jr_ID row) s3
                            else Inr s3) (\<lambda>s4.
                  bindR (journalFromRow E s4 row) (\<lambda>j. Inr (j, s4)))))"

text \<open>
  The second look for the key, after the idempotency lock, reads the state the first one read:
  transactions are serial here.
\<close>

definition postJournalWithQueries ::
  "'d env \<Rightarrow> 'd JournalInput \<Rightarrow> gotime \<Rightarrow> journalAuth \<Rightarrow> db \<Rightarrow> ('d Journal \<times> db) result" where
  "postJournalWithQueries E input effectiveAt auth s =
     andThen (JournalInput_Validate (envD E) (envJ E) (envNow E) input)
     (case GetJournalByIdempotencyKey s (ji_IdempotencyKey input) of
        Some existing \<Rightarrow> bindR (ensureJournalMatchesInput E s existing input) (\<lambda>j. Inr (j, s))
      | None \<Rightarrow>
          bindR (resolveEntries s (ji_Entries input)) (\<lambda>resolved.
          bindR (jtOfUID s (ji_JournalTypeUID input)) (\<lambda>jt.
          bindR (resolveEventLink E s input resolved) (\<lambda>eventID.
          andThen (validateEntriesPrecision E s resolved)
          (andThen (assertDimsActive s (dj_ID jt) resolved)
          (bindR (resolveReversalOf E s input resolved) (\<lambda>reversalOfID.
          andThen (checkPeriodClose s effectiveAt)
          (andThen (enforceAccountPolicies E s resolved)
          (if ja_status auth = [] then invalid
           else if ja_replay auth then Inl [ErrConflict]
           else writeJournal E input resolved (dj_ID jt) eventID reversalOfID effectiveAt auth s)))))))))"

definition PostJournal :: "'d env \<Rightarrow> 'd JournalInput \<Rightarrow> db \<Rightarrow> ('d Journal \<times> db) result" where
  "PostJournal E input s =
     andThen (JournalInput_Validate (envD E) (envJ E) (envNow E) input)
     (let effectiveAt = resolveEffectiveAt E (ji_EffectiveAt input)
      in if \<not> envPool E
         then postJournalWithQueries E input effectiveAt (unsignedAuth AuthStatusUnsignedTxMode) s
         else bindR (attestJournal E s input effectiveAt) (\<lambda>auth.
           postJournalWithQueries E input effectiveAt auth s))"

definition PostAuthorized :: "'d env \<Rightarrow> 'd AuthorizedJournal \<Rightarrow> db \<Rightarrow> ('d Journal \<times> db) result" where
  "PostAuthorized E authorized s =
     (if aj_Status authorized = [] then invalid
      else andThen (JournalInput_Validate (envD E) (envJ E) (envNow E) (aj_Input authorized))
        (postJournalWithQueries E (aj_Input authorized) (aj_EffectiveAt authorized)
          \<lparr>ja_digest = aj_Digest authorized, ja_signature = aj_Signature authorized,
           ja_keyID = aj_KeyID authorized, ja_status = aj_Status authorized, ja_replay = False\<rparr> s))"

section \<open>Templates\<close>

record 'd TemplateExecutionRequest =
  tr_TemplateCode :: string
  tr_Params :: "'d TemplateParams"

definition templateFromRow :: "db \<Rightarrow> TemplateRow \<Rightarrow> TemplateLineRow list \<Rightarrow> EntryTemplate result" where
  "templateFromRow s row lines =
     bindR (mapR (\<lambda>l. bindR (classOfID s (lr_ClassificationID l)) (\<lambda>classDim. Inr \<lparr>
         tl_ClassificationUID = dk_UID classDim, tl_EntryType = lr_EntryType l,
         tl_HolderRole = lr_HolderRole l, tl_AmountKey = lr_AmountKey l,
         tl_SortOrder = lr_SortOrder l\<rparr>)) lines) (\<lambda>coreLines.
     bindR (jtOfID s (tm_JournalTypeID row)) (\<lambda>jt. Inr \<lparr>
       tm_UID = tm_RowUID row, tm_Code = tm_RowCode row, tm_Name = tm_RowName row,
       tm_JournalTypeUID = dj_UID jt, tm_IsActive = tm_RowActive row, tm_Lines = coreLines,
       tm_CreatedAt = tm_RowCreatedAt row\<rparr>))"

definition renderTemplate :: "'d env \<Rightarrow> db \<Rightarrow> string \<Rightarrow> 'd TemplateParams \<Rightarrow> 'd JournalInput result" where
  "renderTemplate E s templateCode params =
     (case GetTemplateByCode s templateCode of
        None \<Rightarrow> Inl [ErrNotFound]
      | Some tmplRow \<Rightarrow>
          bindR (templateFromRow s tmplRow (GetTemplateLines s (tm_ID tmplRow))) (\<lambda>tmpl.
            Render (envD E) (envJ E) (envNow E) tmpl params))"

definition ExecuteTemplate ::
  "'d env \<Rightarrow> string \<Rightarrow> 'd TemplateParams \<Rightarrow> db \<Rightarrow> ('d Journal \<times> db) result" where
  "ExecuteTemplate E templateCode params s =
     bindR (renderTemplate E s templateCode params) (\<lambda>input. PostJournal E input s)"

text \<open>
  The exclusive locks a transaction requests: advisory locks on an idempotency key and on the balances
  of a holder in a currency, and row locks on a booking and on a journal.
\<close>

datatype lock = IdempotencyLock string | BookingRowLock int | JournalRowLock int | BalanceLock int int

definition preacquireBatchLocks ::
  "db \<Rightarrow> 'd JournalInput list \<Rightarrow> string list \<Rightarrow> lock list result" where
  "preacquireBatchLocks s inputs additionalIdempotencyKeys =
     andThen (forEach (\<lambda>key. if key = [] then invalid else Inr ()) additionalIdempotencyKeys)
     (let idemKeys = sort (dedupe (additionalIdempotencyKeys @ map ji_IdempotencyKey inputs))
      in bindR (mapR (\<lambda>input. resolveEntries s (ji_Entries input)) inputs) (\<lambda>resolved.
           let allPairs = concat (map balancePairsFromEntries resolved)
           in Inr (map IdempotencyLock idemKeys
                   @ map (\<lambda>p. BalanceLock (fst p) (snd p)) (sortedUniquePairs allPairs))))"

text \<open>Posting the journals of a batch one after the other in one transaction.\<close>

fun postAll ::
  "'d env \<Rightarrow> ('d JournalInput \<times> gotime \<times> journalAuth) list \<Rightarrow> db \<Rightarrow> ('d Journal list \<times> db) result" where
  "postAll E [] s = Inr ([], s)"
| "postAll E ((input, effectiveAt, auth) # rest) s =
     bindR (postJournalWithQueries E input effectiveAt auth s) (\<lambda>(j, s1).
     bindR (postAll E rest s1) (\<lambda>(js, s2). Inr (j # js, s2)))"

definition executeTemplateBatchWithQueries ::
  "'d env \<Rightarrow> 'd TemplateExecutionRequest list \<Rightarrow> db \<Rightarrow> ('d Journal list \<times> db) result" where
  "executeTemplateBatchWithQueries E requests s =
     bindR (mapR (\<lambda>req. renderTemplate E s (tr_TemplateCode req) (tr_Params req)) requests) (\<lambda>inputs.
     bindR (preacquireBatchLocks s inputs []) (\<lambda>_.
       postAll E (map (\<lambda>input. (input, resolveEffectiveAt E (ji_EffectiveAt input),
         unsignedAuth AuthStatusUnsignedTxMode)) inputs) s))"

definition ExecuteTemplateBatch ::
  "'d env \<Rightarrow> 'd TemplateExecutionRequest list \<Rightarrow> db \<Rightarrow> ('d Journal list \<times> db) result" where
  "ExecuteTemplateBatch E requests s =
     (if requests = [] then Inr ([], s)
      else if \<not> envPool E then executeTemplateBatchWithQueries E requests s
      else bindR (mapR (\<lambda>req.
          bindR (renderTemplate E s (tr_TemplateCode req) (tr_Params req)) (\<lambda>input.
            let effectiveAt = resolveEffectiveAt E (ji_EffectiveAt input)
            in bindR (attestJournal E s input effectiveAt) (\<lambda>auth. Inr (input, effectiveAt, auth))))
          requests) (\<lambda>prepared.
        bindR (preacquireBatchLocks s (map fst prepared) []) (\<lambda>_. postAll E prepared s)))"

definition LockForTemplates ::
  "'d env \<Rightarrow> 'd TemplateExecutionRequest list \<Rightarrow> string list \<Rightarrow> db \<Rightarrow> lock list result" where
  "LockForTemplates E requests additionalIdempotencyKeys s =
     (if envPool E then invalid
      else if requests = [] then invalid
      else bindR (mapR (\<lambda>req. renderTemplate E s (tr_TemplateCode req) (tr_Params req)) requests)
        (\<lambda>inputs. preacquireBatchLocks s inputs additionalIdempotencyKeys))"

end
