(* ===== verification/Store_Lemmas.thy ===== *)
theory Store_Lemmas
  imports Ledger_Store
begin

text \<open>
  What the journal store does to the tables, statement by statement: the values that survive the trip
  through a numeric column, the sums collected in Go maps, the rows the inserts append, and one lemma
  that lists every guard passed and every table changed by a journal posted under a new key. The
  locale \<open>store_env\<close> holds what the store relies on from the driver and the UUID package.
\<close>

section \<open>The environment\<close>


locale store_env = decimal_lib "envD E" for E :: "'d env" +
  assumes Numeric: "of_int (fst (envNumeric E n)) * 10 powi snd (envNumeric E n) = unit_val n"
    and NumericExp: "- 18 \<le> snd (envNumeric E n)"
    and NewUID_inj: "envNewUID E i = envNewUID E j \<longleftrightarrow> i = j"
    and NewUID_parse: "envParseUID E (envNewUID E i) = Some (envNewUID E i)"
    and ParseUID_canonical: "envParseUID E u = Some v \<Longrightarrow> envParseUID E v = Some v"
    and ParseUID_empty: "envParseUID E [] = None"
begin

lemma numericToDecimal_val: "dval (envD E) (numericToDecimal E n) = unit_val n"
  by (simp add: numericToDecimal_def Let_def New Numeric)

end

text \<open>
  An instance: decimals as coefficient and exponent, a numeric column read at its full scale, and
  uids that name the row id.
\<close>

definition ref_env :: "(int \<times> int) env" where
  "ref_env = \<lparr>envD = ref_decimal, envJ = no_json, envNumeric = (\<lambda>n. (n, - 18)), envNow = 0,
     envNewUID = (\<lambda>i. CHR ''u'' # int_String i),
     envParseUID = (\<lambda>u. if u = [] then None else Some u), envAttestor = None, envPool = True\<rparr>"

lemma store_env_update:
  assumes "store_env E"
  shows "store_env (E\<lparr>envNow := now, envAttestor := a, envPool := p\<rparr>)"
proof -
  have eq: "envD (E\<lparr>envNow := now, envAttestor := a, envPool := p\<rparr>) = envD E"
    "envNumeric (E\<lparr>envNow := now, envAttestor := a, envPool := p\<rparr>) = envNumeric E"
    "envNewUID (E\<lparr>envNow := now, envAttestor := a, envPool := p\<rparr>) = envNewUID E"
    "envParseUID (E\<lparr>envNow := now, envAttestor := a, envPool := p\<rparr>) = envParseUID E"
    by simp_all
  show ?thesis using assms unfolding store_env_def store_env_axioms_def eq .
qed

lemma ref_env_numeric: "of_int n * 10 powi - 18 = unit_val n"
proof -
  have "(10 :: rat) powi - 18 = inverse (10 ^ 18)" unfolding power_int_minus power_int_numeral ..
  then show ?thesis unfolding unit_val_def divide_inverse by (rule arg_cong)
qed

lemma decimal_lib_ref_env: "decimal_lib (envD ref_env)"
  by (simp add: ref_env_def ref.decimal_lib_axioms)

lemma store_env_axioms_ref_env: "store_env_axioms ref_env"
proof (unfold_locales)
  show "of_int (fst (envNumeric ref_env n)) * 10 powi snd (envNumeric ref_env n) = unit_val n" for n
    unfolding ref_env_def env.select_convs fst_conv snd_conv by (rule ref_env_numeric)
  show "envNewUID ref_env i = envNewUID ref_env j \<longleftrightarrow> i = j" for i j
    by (auto simp: ref_env_def dest: int_String_inj)
  show "envParseUID ref_env u = Some v \<Longrightarrow> envParseUID ref_env v = Some v" for u v
    by (simp add: ref_env_def split: if_splits)
qed (simp_all add: ref_env_def)

interpretation renv: store_env ref_env
  by (rule store_env.intro [OF decimal_lib_ref_env store_env_axioms_ref_env])

section \<open>Numeric columns\<close>

lemma unit_val_eq [simp]: "unit_val m = unit_val n \<longleftrightarrow> m = n"
  by (simp add: unit_val_def)

lemma unit_val_simps:
  "unit_val 0 = 0" "unit_val (m + n) = unit_val m + unit_val n" "unit_val (- m) = - unit_val m"
  "unit_val (m - n) = unit_val m - unit_val n"
  by (simp_all add: unit_val_def add_divide_distrib diff_divide_distrib)

lemma unit_val_order: "unit_val m < unit_val n \<longleftrightarrow> m < n" "unit_val m \<le> unit_val n \<longleftrightarrow> m \<le> n"
  by (simp_all add: unit_val_def divide_less_cancel divide_le_cancel)

lemma unit_val_sum: "unit_val (\<Sum>x\<leftarrow>xs. f x) = (\<Sum>x\<leftarrow>xs. unit_val (f x))"
  by (induction xs) (simp_all add: unit_val_simps)

definition units :: "'d decimal_ops \<Rightarrow> 'd \<Rightarrow> int" where
  "units D d = half_up_rat (dval D d * 10 ^ 18)"

lemma storeNumeric_units:
  "storeNumeric (decimalToNumeric D d) = (if \<bar>units D d\<bar> < 10 ^ 30 then Inr (units D d) else invalid)"
proof -
  have "of_int (dCoefficient D d) * 10 powi (dExponent D d + 18) = dval D d * (10 ^ 18 :: rat)"
    by (simp add: dval_def power_int_add)
  then show ?thesis by (simp add: storeNumeric_def decimalToNumeric_def Let_def units_def)
qed

lemma units_int: "dval D d * 10 ^ 18 = of_int i \<Longrightarrow> units D d = i"
  by (simp add: units_def)

lemma units_exact: "storable (dval D d) \<Longrightarrow> unit_val (units D d) = dval D d"
  by (auto simp: storable_def units_def unit_val_def field_simps)

section \<open>Sums in maps\<close>

lemma map_of_addAt:
  "map_of (addAt D k v m) l =
     (if l = k then Some (dAdd D (case map_of m k of None \<Rightarrow> dZero D | Some w \<Rightarrow> w) v) else map_of m l)"
  by (induction m) auto

lemma fst_addAt: "map fst (addAt D k v m) = (if k \<in> set (map fst m) then map fst m else map fst m @ [k])"
  by (induction m) (auto simp: rev_image_eqI)

context decimal_lib
begin

lemma dval_valAt_addAt:
  "dval D (valAt D (addAt D k v m) l) = dval D (valAt D m l) + (if l = k then dval D v else 0)"
  by (auto simp: valAt_def map_of_addAt Add Zero split: option.splits)

end

lemma sumBy_snoc: "sumBy D key amt (xs @ [x]) = addAt D (key x) (amt x) (sumBy D key amt xs)"
  by (simp add: sumBy_def)

lemma set_fst_sumBy: "set (map fst (sumBy D key amt xs)) = key ` set xs"
  by (induction xs rule: rev_induct) (auto simp: sumBy_snoc fst_addAt sumBy_def)

lemma map_of_sumBy: "map_of (sumBy D key amt xs) k = None \<longleftrightarrow> k \<notin> key ` set xs"
  using set_fst_sumBy [of D key amt xs] by (simp add: map_of_eq_None_iff)

context decimal_lib
begin

lemma sumBy_val:
  "dval D (valAt D (sumBy D key amt xs) k) = (\<Sum>x\<leftarrow>xs. if key x = k then dval D (amt x) else 0)"
proof (induction xs rule: rev_induct)
  case Nil
  then show ?case by (simp add: sumBy_def valAt_def Zero)
next
  case (snoc x xs)
  then show ?case by (auto simp: sumBy_snoc dval_valAt_addAt)
qed

end

section \<open>The rows a journal appends\<close>

definition entryRowOf :: "'d env \<Rightarrow> int \<Rightarrow> gotime \<Rightarrow> int \<Rightarrow> 'd resolvedEntry \<Rightarrow> EntryRow" where
  "entryRowOf E journalID effectiveAt i e = \<lparr>er_ID = i, er_JournalID = journalID,
     er_AccountHolder = ei_AccountHolder e, er_CurrencyID = re_currencyID e,
     er_ClassificationID = re_classificationID e, er_EntryType = ei_EntryType e,
     er_Amount = units (envD E) (ei_Amount e), er_CreatedAt = timestamptz (envNow E),
     er_EffectiveAt = timestamptz effectiveAt\<rparr>"

fun entryRowsOf :: "'d env \<Rightarrow> int \<Rightarrow> gotime \<Rightarrow> int \<Rightarrow> 'd resolvedEntry list \<Rightarrow> EntryRow list" where
  "entryRowsOf E j t n [] = []"
| "entryRowsOf E j t n (e # es) = entryRowOf E j t (n + 1) e # entryRowsOf E j t (n + 1) es"

definition entry_insertable :: "'d env \<Rightarrow> 'd resolvedEntry \<Rightarrow> bool" where
  "entry_insertable E e \<longleftrightarrow> \<bar>units (envD E) (ei_Amount e)\<bar> < 10 ^ 30 \<and> ei_AccountHolder e \<noteq> 0
     \<and> EntryType_IsValid (ei_EntryType e) \<and> 0 < units (envD E) (ei_Amount e)"

lemma InsertJournalEntry_Inr:
  "InsertJournalEntry E j t s e = Inr s' \<longleftrightarrow> entry_insertable E e
     \<and> s' = s\<lparr>dbEntries := dbEntries s @ [entryRowOf E j t (dbSeq s + 1) e], dbSeq := dbSeq s + 1\<rparr>"
  by (auto simp: InsertJournalEntry_def storeNumeric_units entry_insertable_def entryRowOf_def Let_def)

lemma insertEntries_Inr:
  "foldR (InsertJournalEntry E j t) s es = Inr s' \<longleftrightarrow> (\<forall>e\<in>set es. entry_insertable E e)
     \<and> s' = s\<lparr>dbEntries := dbEntries s @ entryRowsOf E j t (dbSeq s) es,
           dbSeq := dbSeq s + int (length es)\<rparr>"
proof (induction es arbitrary: s)
  case Nil
  then show ?case by auto
next
  case (Cons e es)
  then show ?case by (auto simp: InsertJournalEntry_Inr add_ac)
qed

text \<open>A step that only touches the rollup queue and the sequence.\<close>

definition queue_only :: "db \<Rightarrow> db \<Rightarrow> bool" where
  "queue_only s t \<longleftrightarrow> s\<lparr>dbQueue := [], dbSeq := 0\<rparr> = t\<lparr>dbQueue := [], dbSeq := 0\<rparr> \<and> dbSeq s \<le> dbSeq t"

lemma queue_only_enqueue: "queue_only s (EnqueueRollup E key s)"
  by (cases key) (auto simp: queue_only_def EnqueueRollup_def Let_def)

lemma queue_only_enqueueAll: "queue_only s (foldl (\<lambda>t key. EnqueueRollup E key t) s keys)"
proof (induction keys arbitrary: s)
  case Nil
  show ?case by (simp add: queue_only_def)
next
  case (Cons k ks)
  show ?case
    using Cons.IH [of "EnqueueRollup E k s"] queue_only_enqueue [of s E k]
    by (simp add: queue_only_def)
qed

text \<open>The tables posting never writes.\<close>

definition same_config :: "db \<Rightarrow> db \<Rightarrow> bool" where
  "same_config s t \<longleftrightarrow>
     dbCurrencies t = dbCurrencies s \<and> dbClassifications t = dbClassifications s
     \<and> dbJournalTypes t = dbJournalTypes s \<and> dbTemplates t = dbTemplates s
     \<and> dbTemplateLines t = dbTemplateLines s \<and> dbCheckpoints t = dbCheckpoints s
     \<and> dbPolicies t = dbPolicies s \<and> dbPeriods t = dbPeriods s
     \<and> dbReservations t = dbReservations s \<and> dbReceipts t = dbReceipts s \<and> dbLegs t = dbLegs s
     \<and> dbTransitionReceipts t = dbTransitionReceipts s
     \<and> dbEntryAttestations t = dbEntryAttestations s \<and> dbRebuilds t = dbRebuilds s"

lemma queue_only_fields:
  assumes "queue_only s t"
  shows "same_config s t" "dbJournals t = dbJournals s" "dbEntries t = dbEntries s"
    "dbEvents t = dbEvents s" "dbBookings t = dbBookings s" "dbSeq s \<le> dbSeq t"
  using assms by (cases s, cases t, simp add: queue_only_def same_config_def)+

definition linkEvent :: "int \<Rightarrow> int \<Rightarrow> EventRow \<Rightarrow> EventRow" where
  "linkEvent i j r = (if ev_ID r = i \<and> ev_JournalID r = None then r\<lparr>ev_JournalID := Some j\<rparr> else r)"

lemma LinkEventJournal_eq:
  "s\<lparr>dbEvents := map (linkEvent i j) (dbEvents s)\<rparr>
     = (case LinkEventJournal i j s of Some t \<Rightarrow> t | None \<Rightarrow> s)"
proof (cases "\<exists>r\<in>set (dbEvents s). ev_ID r = i \<and> ev_JournalID r = None")
  case True
  then show ?thesis by (simp add: LinkEventJournal_def linkEvent_def)
next
  case False
  then have "map (linkEvent i j) (dbEvents s) = dbEvents s"
    by (intro map_idI) (auto simp: linkEvent_def)
  with False show ?thesis by (auto simp: LinkEventJournal_def)
qed

lemma linkEventRow_Inr:
  "linkEventRow i j s = Inr t \<Longrightarrow> t = s\<lparr>dbEvents := map (linkEvent i j) (dbEvents s)\<rparr>"
  unfolding LinkEventJournal_eq linkEventRow_def by (auto split: option.splits)

lemma linkBookingRow_Inr: "linkBookingRow E b j s = Inr t \<Longrightarrow> \<exists>bs. t = s\<lparr>dbBookings := bs\<rparr>"
  by (auto simp: linkBookingRow_def LinkBookingJournal_def split: option.splits if_splits
      intro: exI [of _ "dbBookings s"])

lemma link_Inr:
  assumes "linkJournalToEventAndBooking E i j s = Inr t"
  obtains event bs where "GetEvent s i = Some event"
    "ev_JournalID event = None \<or> ev_JournalID event = Some j"
    "t = s\<lparr>dbEvents := map (linkEvent i j) (dbEvents s), dbBookings := bs\<rparr>"
proof -
  obtain event s1 where ev: "GetEvent s i = Some event"
    "ev_JournalID event = None \<or> ev_JournalID event = Some j" and s1: "linkEventRow i j s = Inr s1"
    and t: "t = s1 \<or> linkBookingRow E (ev_BookingID event) j s1 = Inr t"
    using assms by (auto simp: linkJournalToEventAndBooking_def split: option.splits if_splits)
  from t linkBookingRow_Inr have "\<exists>bs. t = s1\<lparr>dbBookings := bs\<rparr>"
    by (auto intro: exI [of _ "dbBookings s1"])
  with linkEventRow_Inr [OF s1] ev that show ?thesis by auto
qed


section \<open>Posting under a new key\<close>

lemma InsertJournal_Inr:
  assumes "InsertJournal E jtID input debit credit r i t auth s = Inr (row, s1)"
  shows "s1 = s\<lparr>dbJournals := dbJournals s @ [row], dbSeq := dbSeq s + 1\<rparr>"
    "row = \<lparr>jr_ID = dbSeq s + 1, jr_JournalTypeID = jtID, jr_IdempotencyKey = ji_IdempotencyKey input,
       jr_TotalDebit = units (envD E) debit, jr_TotalCredit = units (envD E) credit,
       jr_Metadata = metadataToJSON (ji_Metadata input), jr_ActorID = ji_ActorID input,
       jr_Source = ji_Source input, jr_ReversalOf = zeroInt64ToNil r,
       jr_CreatedAt = timestamptz (envNow E), jr_EventID = zeroInt64ToNil i,
       jr_EffectiveAt = timestamptz t, jr_UID = envNewUID E (dbSeq s + 1),
       jr_AuthDigest = ja_digest auth, jr_AuthSignature = ja_signature auth,
       jr_AuthKeyID = ja_keyID auth, jr_AuthStatus = ja_status auth\<rparr>"
    "units (envD E) debit = units (envD E) credit" "0 < units (envD E) debit"
    "GetJournalByIdempotencyKey s (ji_IdempotencyKey input) = None"
  using assms by (auto simp: InsertJournal_def storeNumeric_units Let_def split: if_splits)

text \<open>The tables before and after the write of one journal.\<close>

definition posting ::
  "'d env \<Rightarrow> 'd JournalInput \<Rightarrow> 'd resolvedEntry list \<Rightarrow> int \<Rightarrow> int \<Rightarrow> int \<Rightarrow> gotime \<Rightarrow> journalAuth \<Rightarrow> db
    \<Rightarrow> JournalRow \<Rightarrow> db \<Rightarrow> bool" where
  "posting E input resolved jtID eventID reversalOfID effectiveAt auth s row t \<longleftrightarrow>
     (\<exists>s1. InsertJournal E jtID input (fst (Totals (envD E) input)) (snd (Totals (envD E) input))
        reversalOfID eventID effectiveAt auth s = Inr (row, s1))
     \<and> same_config s t
     \<and> dbJournals t = dbJournals s @ [row]
     \<and> dbEntries t = dbEntries s @ entryRowsOf E (dbSeq s + 1) effectiveAt (dbSeq s + 1) resolved
     \<and> (\<forall>e\<in>set resolved. entry_insertable E e)
     \<and> dbSeq s + 1 + int (length resolved) \<le> dbSeq t
     \<and> dbEvents t = (if eventID = 0 then dbEvents s
          else map (linkEvent eventID (dbSeq s + 1)) (dbEvents s))
     \<and> VerifyJournalBalanced t (dbSeq s + 1) = None"

lemma VerifyJournalBalanced_cong:
  "dbEntries s = dbEntries t \<Longrightarrow> VerifyJournalBalanced s j = VerifyJournalBalanced t j"
  by (simp add: VerifyJournalBalanced_def)

lemma same_config_trans: "same_config s t \<Longrightarrow> same_config t u \<Longrightarrow> same_config s u"
  by (simp add: same_config_def)

lemma writeJournal_Inr:
  assumes "writeJournal E input resolved jtID eventID reversalOfID effectiveAt auth s = Inr (j, t)"
    and "GetJournalByIdempotencyKey s (ji_IdempotencyKey input) = None"
  obtains row where "posting E input resolved jtID eventID reversalOfID effectiveAt auth s row t"
    "journalFromRow E t row = Inr j"
proof -
  obtain row s1 where ins: "InsertJournal E jtID input (fst (Totals (envD E) input))
      (snd (Totals (envD E) input)) reversalOfID eventID effectiveAt auth s = Inr (row, s1)"
    and rest: "bindR (foldR (InsertJournalEntry E (jr_ID row) effectiveAt) s1 resolved) (\<lambda>s2.
             let s3 = foldl (\<lambda>t key. EnqueueRollup E key t) s2 (rollupKeys resolved)
             in if VerifyJournalBalanced s3 (jr_ID row) \<noteq> None then Inl [ErrUnbalancedJournal]
                else bindR (if eventID \<noteq> 0 then linkJournalToEventAndBooking E eventID (jr_ID row) s3
                            else Inr s3) (\<lambda>s4.
                  bindR (journalFromRow E s4 row) (\<lambda>j. Inr (j, s4)))) = Inr (j, t)"
    using assms by (auto simp: writeJournal_def split: prod.splits sum.splits)
  note row = InsertJournal_Inr [OF ins]
  have id: "jr_ID row = dbSeq s + 1" using row(2) by simp
  from rest obtain s2 where s2: "foldR (InsertJournalEntry E (jr_ID row) effectiveAt) s1 resolved = Inr s2"
    and v: "VerifyJournalBalanced (foldl (\<lambda>t key. EnqueueRollup E key t) s2 (rollupKeys resolved))
        (jr_ID row) = None"
    and link: "(if eventID \<noteq> 0 then linkJournalToEventAndBooking E eventID (jr_ID row)
         (foldl (\<lambda>t key. EnqueueRollup E key t) s2 (rollupKeys resolved))
       else Inr (foldl (\<lambda>t key. EnqueueRollup E key t) s2 (rollupKeys resolved))) = Inr t"
    and j: "journalFromRow E t row = Inr j"
    by (auto simp: Let_def)
  define s3 where "s3 = foldl (\<lambda>t key. EnqueueRollup E key t) s2 (rollupKeys resolved)"
  have q: "queue_only s2 s3" unfolding s3_def by (rule queue_only_enqueueAll)
  have e2: "\<forall>e\<in>set resolved. entry_insertable E e" "s2 = s\<lparr>dbJournals := dbJournals s @ [row],
      dbEntries := dbEntries s @ entryRowsOf E (dbSeq s + 1) effectiveAt (dbSeq s + 1) resolved,
      dbSeq := dbSeq s + 1 + int (length resolved)\<rparr>"
    using s2 unfolding insertEntries_Inr row(1) id by simp_all
  have c2: "same_config s s2" by (simp add: e2(2) same_config_def)
  have t: "same_config s3 t" "dbJournals t = dbJournals s3" "dbEntries t = dbEntries s3"
    "dbSeq t = dbSeq s3"
    "dbEvents t = (if eventID = 0 then dbEvents s3 else map (linkEvent eventID (jr_ID row)) (dbEvents s3))"
    using link unfolding s3_def [symmetric]
    by (auto simp: same_config_def split: if_splits elim!: link_Inr)
  have v3: "VerifyJournalBalanced t (dbSeq s + 1) = None"
    using v VerifyJournalBalanced_cong [OF t(3)] id by (simp add: s3_def [symmetric])
  have sc: "same_config s t"
    using same_config_trans [OF same_config_trans [OF c2 queue_only_fields(1) [OF q]] t(1)] .
  have "posting E input resolved jtID eventID reversalOfID effectiveAt auth s row t"
    unfolding posting_def
    using ins e2(1) sc v3 t(2-5) queue_only_fields [OF q] id by (simp add: e2(2))
  with j that show ?thesis by blast
qed


lemma post_new:
  assumes "postJournalWithQueries E input effectiveAt auth s = Inr (j, t)"
    and "GetJournalByIdempotencyKey s (ji_IdempotencyKey input) = None"
  obtains resolved jt eventID reversalOfID row where
    "JournalInput_Validate (envD E) (envJ E) (envNow E) input = Inr ()"
    "resolveEntries s (ji_Entries input) = Inr resolved"
    "jtOfUID s (ji_JournalTypeUID input) = Inr jt"
    "resolveEventLink E s input resolved = Inr eventID"
    "validateEntriesPrecision E s resolved = Inr ()"
    "assertDimsActive s (dj_ID jt) resolved = Inr ()"
    "resolveReversalOf E s input resolved = Inr reversalOfID"
    "checkPeriodClose s effectiveAt = Inr ()"
    "enforceAccountPolicies E s resolved = Inr ()"
    "ja_status auth \<noteq> []" "\<not> ja_replay auth"
    "posting E input resolved (dj_ID jt) eventID reversalOfID effectiveAt auth s row t"
    "journalFromRow E t row = Inr j"
proof -
  obtain resolved jt eventID reversalOfID where
    p: "JournalInput_Validate (envD E) (envJ E) (envNow E) input = Inr ()"
    "resolveEntries s (ji_Entries input) = Inr resolved"
    "jtOfUID s (ji_JournalTypeUID input) = Inr jt"
    "resolveEventLink E s input resolved = Inr eventID"
    "validateEntriesPrecision E s resolved = Inr ()"
    "assertDimsActive s (dj_ID jt) resolved = Inr ()"
    "resolveReversalOf E s input resolved = Inr reversalOfID"
    "checkPeriodClose s effectiveAt = Inr ()"
    "enforceAccountPolicies E s resolved = Inr ()"
    "ja_status auth \<noteq> []" "\<not> ja_replay auth"
    and w: "writeJournal E input resolved (dj_ID jt) eventID reversalOfID effectiveAt auth s = Inr (j, t)"
    using assms by (auto simp: postJournalWithQueries_def)
  obtain row where "posting E input resolved (dj_ID jt) eventID reversalOfID effectiveAt auth s row t"
    "journalFromRow E t row = Inr j"
    by (rule writeJournal_Inr [OF w assms(2)])
  from that [OF p this] show ?thesis .
qed

lemma post_existing:
  assumes "postJournalWithQueries E input effectiveAt auth s = Inr (j, t)"
    and "GetJournalByIdempotencyKey s (ji_IdempotencyKey input) = Some existing"
  shows "t = s" "ensureJournalMatchesInput E s existing input = Inr j"
  using assms by (auto simp: postJournalWithQueries_def)

end
