(* ===== verification/Ledger_Invariant.thy ===== *)
theory Ledger_Invariant
  imports Store_Lemmas
begin

text \<open>
  What the tables of the ledger always satisfy, and that posting a journal keeps it: unique ids, keys
  and uids; entries that belong to a journal and to known dimensions, with a side and a positive
  amount; every journal balanced in every currency, with its totals; reversal chains that never undo
  more than was posted; journals and events linked both ways; checkpoints that agree with the entries
  they cover.
\<close>

section \<open>The invariant\<close>

definition signed_entry :: "NormalSide \<Rightarrow> EntryRow \<Rightarrow> int" where
  "signed_entry n e = (if er_EntryType e = n then er_Amount e else - er_Amount e)"

definition normal_side_of :: "db \<Rightarrow> int \<Rightarrow> NormalSide" where
  "normal_side_of s k = (case GetClassification s k of None \<Rightarrow> [] | Some c \<Rightarrow> cls_NormalSide c)"

text \<open>The balance of a dimension: all its entries, signed by the normal side of the classification.\<close>

definition ledger_balance :: "db \<Rightarrow> int \<Rightarrow> int \<Rightarrow> int \<Rightarrow> int" where
  "ledger_balance s h c k =
     (\<Sum>e\<leftarrow>filter (on_dim h c k) (dbEntries s). signed_entry (normal_side_of s k) e)"

definition ids_ok :: "db \<Rightarrow> bool" where
  "ids_ok s \<longleftrightarrow>
     (\<forall>r\<in>set (dbJournals s). 0 < jr_ID r \<and> jr_ID r \<le> dbSeq s)
     \<and> distinct (map jr_ID (dbJournals s)) \<and> distinct (map jr_IdempotencyKey (dbJournals s))
     \<and> (\<forall>e\<in>set (dbEntries s). 0 < er_ID e \<and> er_ID e \<le> dbSeq s)
     \<and> sorted_wrt (<) (map er_ID (dbEntries s))
     \<and> (\<forall>v\<in>set (dbEvents s). 0 < ev_ID v) \<and> distinct (map ev_ID (dbEvents s))
     \<and> distinct (map ev_UID (dbEvents s)) \<and> 0 \<le> dbSeq s"

text \<open>A generated uid names its row.\<close>

definition uids_ok :: "'d env \<Rightarrow> db \<Rightarrow> bool" where
  "uids_ok E s \<longleftrightarrow> (\<forall>r\<in>set (dbJournals s). jr_UID r = envNewUID E (jr_ID r))"

definition dims_ok :: "db \<Rightarrow> bool" where
  "dims_ok s \<longleftrightarrow> dims_unique s
     \<and> (\<forall>c\<in>set (dbCurrencies s). 0 \<le> cur_Exponent c \<and> cur_Exponent c \<le> 18 \<and> cur_ID c \<noteq> 0)
     \<and> (\<forall>c\<in>set (dbClassifications s). NormalSide_IsValid (cls_NormalSide c) \<and> cls_ID c \<noteq> 0)"

definition entry_ok :: "db \<Rightarrow> EntryRow \<Rightarrow> bool" where
  "entry_ok s e \<longleftrightarrow>
     er_JournalID e \<in> jr_ID ` set (dbJournals s) \<and> EntryType_IsValid (er_EntryType e)
     \<and> 0 < er_Amount e \<and> er_AccountHolder e \<noteq> 0
     \<and> er_CurrencyID e \<in> cur_ID ` set (dbCurrencies s)
     \<and> er_ClassificationID e \<in> cls_ID ` set (dbClassifications s)"

definition journal_net :: "db \<Rightarrow> int \<Rightarrow> int \<Rightarrow> int" where
  "journal_net s j c =
     (\<Sum>e\<leftarrow>filter (\<lambda>e. er_CurrencyID e = c) (ListJournalEntries s j). entry_net e)"

definition side_total :: "EntryType \<Rightarrow> EntryRow list \<Rightarrow> int" where
  "side_total t es = (\<Sum>e\<leftarrow>filter (\<lambda>e. er_EntryType e = t) es. er_Amount e)"

definition balanced_ok :: "db \<Rightarrow> bool" where
  "balanced_ok s \<longleftrightarrow>
     (\<forall>r\<in>set (dbJournals s). (\<forall>c. journal_net s (jr_ID r) c = 0)
        \<and> jr_TotalDebit r = side_total EntryTypeDebit (ListJournalEntries s (jr_ID r))
        \<and> jr_TotalCredit r = side_total EntryTypeCredit (ListJournalEntries s (jr_ID r)))"

definition posted_amount :: "db \<Rightarrow> int \<Rightarrow> entryDimKey \<Rightarrow> int" where
  "posted_amount s j key =
     (\<Sum>e\<leftarrow>filter (\<lambda>e. rowDimKey e = key) (ListJournalEntries s j). er_Amount e)"

definition reversed_amount :: "db \<Rightarrow> int \<Rightarrow> entryDimKey \<Rightarrow> int" where
  "reversed_amount s j key =
     (\<Sum>e\<leftarrow>filter (\<lambda>e. undoneDimKey e = key) (ListReversalEntriesByOriginal s j). er_Amount e)"

definition reversals_ok :: "db \<Rightarrow> bool" where
  "reversals_ok s \<longleftrightarrow>
     (\<forall>r\<in>set (dbJournals s). \<forall>j. jr_ReversalOf r = Some j \<longrightarrow>
        (\<exists>orig\<in>set (dbJournals s). jr_ID orig = j \<and> jr_ReversalOf orig = None))
     \<and> (\<forall>j key. reversed_amount s j key \<le> posted_amount s j key)"

definition events_ok :: "db \<Rightarrow> bool" where
  "events_ok s \<longleftrightarrow>
     (\<forall>r\<in>set (dbJournals s). \<forall>i. jr_EventID r = Some i \<longrightarrow>
        (\<exists>v\<in>set (dbEvents s). ev_ID v = i \<and> ev_JournalID v = Some (jr_ID r)))"

definition checkpoint_ok :: "db \<Rightarrow> CheckpointRow \<Rightarrow> bool" where
  "checkpoint_ok s cp \<longleftrightarrow>
     cp_LastEntryID cp \<le> dbSeq s
     \<and> cp_Balance cp = (\<Sum>e\<leftarrow>filter (\<lambda>e. on_dim (cp_AccountHolder cp) (cp_CurrencyID cp)
            (cp_ClassificationID cp) e \<and> er_ID e \<le> cp_LastEntryID cp) (dbEntries s).
          signed_entry (normal_side_of s (cp_ClassificationID cp)) e)"

definition ledger_ok :: "'d env \<Rightarrow> db \<Rightarrow> bool" where
  "ledger_ok E s \<longleftrightarrow> ids_ok s \<and> uids_ok E s \<and> dims_ok s \<and> (\<forall>e\<in>set (dbEntries s). entry_ok s e)
     \<and> balanced_ok s \<and> reversals_ok s \<and> events_ok s
     \<and> (\<forall>cp\<in>set (dbCheckpoints s). checkpoint_ok s cp)"

section \<open>Lookups\<close>

lemma currencyOfUID_Inr:
  "currencyOfUID s uid = Inr d \<Longrightarrow> d \<in> set (ListCurrencyDims s) \<and> dc_UID d = uid"
  by (auto simp: currencyOfUID_def orErr_def split: option.splits dest: find_Some_mem)

lemma currencyOfID_Inr:
  "currencyOfID s i = Inr d \<Longrightarrow> d \<in> set (ListCurrencyDims s) \<and> dc_ID d = i"
  by (auto simp: currencyOfID_def orErr_def split: option.splits dest: find_Some_mem)

lemma classOfUID_Inr:
  "classOfUID s uid = Inr d \<Longrightarrow> d \<in> set (ListClassificationDims s) \<and> dk_UID d = uid"
  by (auto simp: classOfUID_def orErr_def split: option.splits dest: find_Some_mem)

lemma jtOfUID_Inr: "jtOfUID s uid = Inr d \<Longrightarrow> d \<in> set (ListJournalTypeDims s) \<and> dj_UID d = uid"
  by (auto simp: jtOfUID_def orErr_def split: option.splits dest: find_Some_mem)

lemma dims_unique_find:
  assumes "dims_unique s"
  shows "d \<in> set (ListCurrencyDims s) \<Longrightarrow> currencyOfUID s (dc_UID d) = Inr d"
    "d \<in> set (ListCurrencyDims s) \<Longrightarrow> currencyOfID s (dc_ID d) = Inr d"
    "c \<in> set (ListClassificationDims s) \<Longrightarrow> classOfUID s (dk_UID c) = Inr c"
    "c \<in> set (ListClassificationDims s) \<Longrightarrow> classOfID s (dk_ID c) = Inr c"
    "t \<in> set (ListJournalTypeDims s) \<Longrightarrow> jtOfUID s (dj_UID t) = Inr t"
    "t \<in> set (ListJournalTypeDims s) \<Longrightarrow> jtOfID s (dj_ID t) = Inr t"
  using assms
  by (simp_all add: dims_unique_def find_unique orErr_def currencyOfUID_def currencyOfID_def
      classOfUID_def classOfID_def jtOfUID_def jtOfID_def)

lemma normal_side_of_class:
  assumes "dims_unique s" "d \<in> set (ListClassificationDims s)"
  shows "normal_side_of s (dk_ID d) = dk_NormalSide d"
proof -
  from assms(2) obtain r where r: "r \<in> set (dbClassifications s)" "d = classDim r"
    by (auto simp: ListClassificationDims_def)
  have "distinct (map cls_ID (dbClassifications s))"
    using assms(1) by (simp add: dims_unique_def ListClassificationDims_def comp_def classDim_def)
  from find_unique [OF this r(1)] show ?thesis
    by (simp add: normal_side_of_def GetClassification_def r(2) classDim_def)
qed

lemma resolveEntry_Inr:
  assumes "resolveEntry s e = Inr r"
  obtains cur cls where "cur \<in> set (ListCurrencyDims s)" "dc_UID cur = ei_CurrencyUID e"
    "cls \<in> set (ListClassificationDims s)" "dk_UID cls = ei_ClassificationUID e"
    "r = \<lparr>ei_AccountHolder = ei_AccountHolder e, ei_CurrencyUID = ei_CurrencyUID e,
       ei_ClassificationUID = ei_ClassificationUID e, ei_EntryType = ei_EntryType e,
       ei_Amount = ei_Amount e, re_currencyID = dc_ID cur, re_classificationID = dk_ID cls,
       re_exponent = dc_Exponent cur, re_normalSide = dk_NormalSide cls\<rparr>"
  using assms by (auto simp: resolveEntry_def dest!: currencyOfUID_Inr classOfUID_Inr)

text \<open>What a resolved entry says about its input entry and the tables.\<close>

definition resolved_ok :: "db \<Rightarrow> 'd EntryInput \<Rightarrow> 'd resolvedEntry \<Rightarrow> bool" where
  "resolved_ok s e r \<longleftrightarrow>
     ei_AccountHolder r = ei_AccountHolder e \<and> ei_EntryType r = ei_EntryType e
     \<and> ei_Amount r = ei_Amount e \<and> re_currencyID r \<in> cur_ID ` set (dbCurrencies s)
     \<and> re_classificationID r \<in> cls_ID ` set (dbClassifications s)
     \<and> re_normalSide r = normal_side_of s (re_classificationID r)"

lemma resolveEntries_ok:
  assumes "resolveEntries s es = Inr rs" "dims_unique s"
  shows "list_all2 (resolved_ok s) es rs"
proof -
  have "list_all2 (\<lambda>e r. resolveEntry s e = Inr r) es rs"
    using assms(1) by (simp add: resolveEntries_def mapR_Inr)
  then show ?thesis
  proof (rule list_all2_mono)
    fix e r
    assume "resolveEntry s e = Inr r"
    then show "resolved_ok s e r"
      by (rule resolveEntry_Inr)
        (auto simp: resolved_ok_def normal_side_of_class assms(2) ListCurrencyDims_def
          ListClassificationDims_def currencyDim_def classDim_def)
  qed
qed

section \<open>Sums over appended rows\<close>

lemma entryRowsOf_journal: "e \<in> set (entryRowsOf E j t n rs) \<Longrightarrow> er_JournalID e = j"
  by (induction rs arbitrary: n) (auto simp: entryRowOf_def)

lemma entryRowsOf_ids: "e \<in> set (entryRowsOf E j t n rs) \<Longrightarrow> n < er_ID e \<and> er_ID e \<le> n + int (length rs)"
  by (induction rs arbitrary: n) (force simp: entryRowOf_def)+

lemma entryRowsOf_sorted: "sorted_wrt (<) (map er_ID (entryRowsOf E j t n rs))"
  by (induction rs arbitrary: n) (auto simp: entryRowOf_def dest: entryRowsOf_ids)

lemma entryRowsOf_mem:
  "e \<in> set (entryRowsOf E j t n rs) \<Longrightarrow> \<exists>i. \<exists>r\<in>set rs. e = entryRowOf E j t i r"
  by (induction rs arbitrary: n) fastforce+

lemma ListJournalEntries_new:
  assumes "dbEntries t = dbEntries s @ entryRowsOf E j u n rs" "\<forall>e\<in>set (dbEntries s). er_JournalID e \<noteq> j"
  shows "ListJournalEntries t j = entryRowsOf E j u n rs"
    "i \<noteq> j \<Longrightarrow> ListJournalEntries t i = ListJournalEntries s i"
  using assms(2) by (auto simp: ListJournalEntries_def assms(1) filter_empty_conv filter_id_conv
      dest: entryRowsOf_journal)


lemma entryRowsOf_sum:
  assumes "\<And>i r. f (entryRowOf E j t i r) = g r"
  shows "(\<Sum>e\<leftarrow>entryRowsOf E j t n rs. f e) = (\<Sum>r\<leftarrow>rs. g r)"
  by (induction rs arbitrary: n) (simp_all add: assms)

lemma sum_filter_if:
  fixes f :: "'a \<Rightarrow> 'b::comm_monoid_add"
  shows "(\<Sum>x\<leftarrow>filter P xs. f x) = (\<Sum>x\<leftarrow>xs. if P x then f x else 0)"
  by (induction xs) auto

lemma side_total_entryRowsOf:
  "side_total side (entryRowsOf E j t n rs)
     = (\<Sum>r\<leftarrow>rs. if ei_EntryType r = side then units (envD E) (ei_Amount r) else 0)"
  unfolding side_total_def sum_filter_if by (rule entryRowsOf_sum) (simp add: entryRowOf_def)

lemma unit_val_units: "dval D d = unit_val n \<Longrightarrow> units D d = n"
  by (rule units_int) (simp add: unit_val_def)

lemma resolved_sum:
  assumes "list_all2 (resolved_ok s) es rs"
  shows "(\<Sum>r\<leftarrow>rs. if ei_EntryType r = side then units D (ei_Amount r) else 0)
     = (\<Sum>e\<leftarrow>es. if ei_EntryType e = side then units D (ei_Amount e) else 0)"
  using assms by (induction rule: list_all2_induct) (auto simp: resolved_ok_def)

context decimal_lib
begin

lemma Totals_val:
  "dval D (fst (Totals D input))
     = (\<Sum>e\<leftarrow>ji_Entries input. if ei_EntryType e = EntryTypeDebit then dval D (ei_Amount e) else 0)"
  "dval D (snd (Totals D input))
     = (\<Sum>e\<leftarrow>ji_Entries input. if ei_EntryType e = EntryTypeCredit then dval D (ei_Amount e) else 0)"
proof -
  have "dval D (ct_debit (fold (\<lambda>e cur. addSide D cur e) es t)) = dval D (ct_debit t)
        + (\<Sum>e\<leftarrow>es. if ei_EntryType e = EntryTypeDebit then dval D (ei_Amount e) else 0)"
    "dval D (ct_credit (fold (\<lambda>e cur. addSide D cur e) es t)) = dval D (ct_credit t)
        + (\<Sum>e\<leftarrow>es. if ei_EntryType e = EntryTypeCredit then dval D (ei_Amount e) else 0)" for es t
    by (induction es arbitrary: t) (simp_all add: addSide_val)
  then show "dval D (fst (Totals D input))
     = (\<Sum>e\<leftarrow>ji_Entries input. if ei_EntryType e = EntryTypeDebit then dval D (ei_Amount e) else 0)"
  "dval D (snd (Totals D input))
     = (\<Sum>e\<leftarrow>ji_Entries input. if ei_EntryType e = EntryTypeCredit then dval D (ei_Amount e) else 0)"
    by (simp_all add: Totals_def Let_def zeroTotals_def Zero)
qed

lemma valid_units:
  assumes "JournalInput_Validate D J now input = Inr ()" "e \<in> set (ji_Entries input)"
  shows "dval D (ei_Amount e) = unit_val (units D (ei_Amount e))" "0 < units D (ei_Amount e)"
proof -
  have v: "validateEntry D e = Inr ()"
    using assms by (simp add: JournalInput_Validate_Inr well_formed_def)
  then show val: "dval D (ei_Amount e) = unit_val (units D (ei_Amount e))"
    by (simp add: validateEntry_def units_exact ValidateAmountMagnitude_storable)
  have "0 < dval D (ei_Amount e)" using v by (simp add: validateEntry_Inr)
  then show "0 < units D (ei_Amount e)"
    unfolding val using unit_val_order(1) [of 0] by (simp add: unit_val_simps)
qed

lemma valid_sum_units:
  assumes "JournalInput_Validate D J now input = Inr ()"
  shows "(\<Sum>e\<leftarrow>ji_Entries input. if P e then dval D (ei_Amount e) else 0)
     = unit_val (\<Sum>e\<leftarrow>ji_Entries input. if P e then units D (ei_Amount e) else 0)"
  unfolding unit_val_sum
  by (rule arg_cong [of _ _ sum_list], rule map_cong)
    (simp_all add: valid_units(1) [OF assms] unit_val_simps)

lemma Totals_units:
  assumes "JournalInput_Validate D J now input = Inr ()"
  shows "units D (fst (Totals D input))
      = (\<Sum>e\<leftarrow>ji_Entries input. if ei_EntryType e = EntryTypeDebit then units D (ei_Amount e) else 0)"
    "units D (snd (Totals D input))
      = (\<Sum>e\<leftarrow>ji_Entries input. if ei_EntryType e = EntryTypeCredit then units D (ei_Amount e) else 0)"
  using valid_sum_units [OF assms] by (simp_all add: unit_val_units Totals_val)

end


section \<open>Posting keeps the invariant\<close>

lemma posting_row:
  assumes "posting E input rs jtID eventID undo t auth s row u"
  shows "jr_ID row = dbSeq s + 1" "jr_IdempotencyKey row = ji_IdempotencyKey input"
    "jr_UID row = envNewUID E (dbSeq s + 1)" "jr_ReversalOf row = zeroInt64ToNil undo"
    "jr_EventID row = zeroInt64ToNil eventID" "jr_JournalTypeID row = jtID"
    "jr_TotalDebit row = units (envD E) (fst (Totals (envD E) input))"
    "jr_TotalCredit row = units (envD E) (snd (Totals (envD E) input))"
    "jr_EffectiveAt row = timestamptz t" "jr_Metadata row = metadataToJSON (ji_Metadata input)"
    "jr_ActorID row = ji_ActorID input" "jr_Source row = ji_Source input"
    "GetJournalByIdempotencyKey s (ji_IdempotencyKey input) = None"
proof -
  obtain s1 where ins: "InsertJournal E jtID input (fst (Totals (envD E) input))
      (snd (Totals (envD E) input)) undo eventID t auth s = Inr (row, s1)"
    using assms by (auto simp: posting_def)
  show "jr_ID row = dbSeq s + 1" "jr_IdempotencyKey row = ji_IdempotencyKey input"
    "jr_UID row = envNewUID E (dbSeq s + 1)" "jr_ReversalOf row = zeroInt64ToNil undo"
    "jr_EventID row = zeroInt64ToNil eventID" "jr_JournalTypeID row = jtID"
    "jr_TotalDebit row = units (envD E) (fst (Totals (envD E) input))"
    "jr_TotalCredit row = units (envD E) (snd (Totals (envD E) input))"
    "jr_EffectiveAt row = timestamptz t" "jr_Metadata row = metadataToJSON (ji_Metadata input)"
    "jr_ActorID row = ji_ActorID input" "jr_Source row = ji_Source input"
    "GetJournalByIdempotencyKey s (ji_IdempotencyKey input) = None"
    using InsertJournal_Inr(2,5) [OF ins] by simp_all
qed

lemma posting_tables:
  assumes "posting E input rs jtID eventID undo t auth s row u"
  shows "same_config s u" "dbJournals u = dbJournals s @ [row]"
    "dbEntries u = dbEntries s @ entryRowsOf E (dbSeq s + 1) t (dbSeq s + 1) rs"
    "dbSeq s + 1 + int (length rs) \<le> dbSeq u"
    "dbEvents u = (if eventID = 0 then dbEvents s else map (linkEvent eventID (dbSeq s + 1)) (dbEvents s))"
    "VerifyJournalBalanced u (dbSeq s + 1) = None" "\<forall>r\<in>set rs. entry_insertable E r"
  using assms by (auto simp: posting_def)

lemma same_config_lookups:
  assumes "same_config s u"
  shows "normal_side_of u = normal_side_of s" "dims_ok u = dims_ok s" "dims_unique u = dims_unique s"
    "ListCurrencyDims u = ListCurrencyDims s" "ListClassificationDims u = ListClassificationDims s"
    "ListJournalTypeDims u = ListJournalTypeDims s"
    "currencyOfUID u = currencyOfUID s" "classOfUID u = classOfUID s" "jtOfUID u = jtOfUID s"
    "currencyOfID u = currencyOfID s" "classOfID u = classOfID s" "jtOfID u = jtOfID s"
  using assms
  by (auto simp: same_config_def normal_side_of_def GetClassification_def dims_ok_def dims_unique_def
      ListCurrencyDims_def ListClassificationDims_def ListJournalTypeDims_def currencyOfUID_def
      classOfUID_def jtOfUID_def currencyOfID_def classOfID_def jtOfID_def fun_eq_iff)

lemma old_journal_ids:
  assumes "ids_ok s" "\<forall>e\<in>set (dbEntries s). entry_ok s e"
  shows "\<forall>e\<in>set (dbEntries s). er_JournalID e \<noteq> dbSeq s + 1"
    "\<forall>r\<in>set (dbJournals s). jr_ID r \<noteq> dbSeq s + 1"
  using assms by (force simp: ids_ok_def entry_ok_def)+

lemma linkEvent_simps [simp]: "ev_ID (linkEvent i j v) = ev_ID v" "ev_UID (linkEvent i j v) = ev_UID v"
  by (simp_all add: linkEvent_def)

lemma posting_ids_ok:
  assumes "posting E input rs jtID eventID undo t auth s row u" "ids_ok s"
  shows "ids_ok u"
proof -
  note p = posting_tables [OF assms(1)] posting_row [OF assms(1)]
  have key: "ji_IdempotencyKey input \<notin> jr_IdempotencyKey ` set (dbJournals s)"
    using p(20) by (auto simp: GetJournalByIdempotencyKey_def find_None_iff)
  have ev: "map ev_ID (dbEvents u) = map ev_ID (dbEvents s)" "map ev_UID (dbEvents u) = map ev_UID (dbEvents s)"
    by (simp_all add: p(5) comp_def)
  have evp: "\<forall>v\<in>set (dbEvents u). 0 < ev_ID v" using assms(2) by (auto simp: p(5) ids_ok_def)
  have rows: "dbSeq s + 1 < er_ID e \<and> er_ID e \<le> dbSeq s + 1 + int (length rs)"
    if "e \<in> set (entryRowsOf E (dbSeq s + 1) t (dbSeq s + 1) rs)" for e
    using entryRowsOf_ids [OF that] .
  have old: "0 < er_ID e \<and> er_ID e \<le> dbSeq s" if "e \<in> set (dbEntries s)" for e
    using assms(2) that by (simp add: ids_ok_def)
  have ent: "sorted_wrt (<) (map er_ID (dbEntries u))"
    using assms(2) rows old by (fastforce simp: p(3) ids_ok_def sorted_wrt_append entryRowsOf_sorted)
  have entb: "0 < er_ID e \<and> er_ID e \<le> dbSeq u" if "e \<in> set (dbEntries u)" for e
    using that rows [of e] old [of e] p(4) assms(2) by (fastforce simp: p(3) ids_ok_def)
  have jn: "0 < jr_ID r \<and> jr_ID r \<le> dbSeq u" if "r \<in> set (dbJournals u)" for r
    using that p(4,8) assms(2) by (fastforce simp: p(2) ids_ok_def)
  have dj: "distinct (map jr_ID (dbJournals u))" "distinct (map jr_IdempotencyKey (dbJournals u))"
    using assms(2) key p(8,9) by (force simp: p(2) ids_ok_def)+
  show ?thesis
    using assms(2) p(4) ev evp ent entb jn dj unfolding ids_ok_def by simp
qed

lemma posting_entries_ok:
  assumes "posting E input rs jtID eventID undo t auth s row u" "\<forall>e\<in>set (dbEntries s). entry_ok s e"
    and "list_all2 (resolved_ok s) es rs"
  shows "\<forall>e\<in>set (dbEntries u). entry_ok u e"
proof
  note p = posting_tables [OF assms(1)] posting_row [OF assms(1)]
  fix e
  assume "e \<in> set (dbEntries u)"
  then consider "e \<in> set (dbEntries s)" | i r where "r \<in> set rs" "e = entryRowOf E (dbSeq s + 1) t i r"
    using entryRowsOf_mem by (fastforce simp: p(3))
  then show "entry_ok u e"
  proof cases
    case 1
    then show ?thesis using assms(2) p(1) by (auto simp: entry_ok_def p(2) same_config_def)
  next
    case 2
    obtain e' where "resolved_ok s e' r"
      using assms(3) 2(1) by (metis in_set_conv_nth list_all2_conv_all_nth)
    then show ?thesis
      using 2 p(1,7,8) by (auto simp: entry_ok_def p(2) same_config_def entryRowOf_def resolved_ok_def
          entry_insertable_def)
  qed
qed

lemma posting_events_ok:
  assumes "posting E input rs jtID eventID undo t auth s row u" "events_ok s"
    and "resolveEventLink E s input rs = Inr eventID"
  shows "events_ok u"
  unfolding events_ok_def
proof (intro ballI allI impI)
  note p = posting_tables [OF assms(1)] posting_row [OF assms(1)]
  fix r i
  assume r: "r \<in> set (dbJournals u)" "jr_EventID r = Some i"
  show "\<exists>v\<in>set (dbEvents u). ev_ID v = i \<and> ev_JournalID v = Some (jr_ID r)"
  proof (cases "r \<in> set (dbJournals s)")
    case True
    then obtain v where v: "v \<in> set (dbEvents s)" "ev_ID v = i" "ev_JournalID v = Some (jr_ID r)"
      using assms(2) r(2) by (auto simp: events_ok_def)
    then have "linkEvent eventID (dbSeq s + 1) v = v" by (simp add: linkEvent_def)
    with v show ?thesis by (auto simp: p(5) image_iff intro: bexI [of _ v])
  next
    case False
    then have row: "r = row" using r(1) by (simp add: p(2))
    then have i: "eventID = i" "eventID \<noteq> 0"
      using r(2) p(12) by (auto simp: zeroInt64ToNil_def split: if_splits)
    obtain v where v: "v \<in> set (dbEvents s)" "ev_ID v = i" "ev_JournalID v = None"
      using assms(3) i by (auto simp: resolveEventLink_def GetEventByUID_def split: option.splits if_splits
          dest!: find_Some_mem)
    then have "ev_JournalID (linkEvent eventID (dbSeq s + 1) v) = Some (jr_ID r)"
      using i p(8) row by (simp add: linkEvent_def)
    with v i show ?thesis by (auto simp: p(5) intro!: bexI [of _ v])
  qed
qed

lemma posting_checkpoints_ok:
  assumes "posting E input rs jtID eventID undo t auth s row u"
    and "\<forall>cp\<in>set (dbCheckpoints s). checkpoint_ok s cp"
  shows "\<forall>cp\<in>set (dbCheckpoints u). checkpoint_ok u cp"
proof
  note p = posting_tables [OF assms(1)]
  fix cp
  assume "cp \<in> set (dbCheckpoints u)"
  then have ok: "checkpoint_ok s cp" using assms(2) p(1) by (simp add: same_config_def)
  have "filter (\<lambda>e. on_dim (cp_AccountHolder cp) (cp_CurrencyID cp) (cp_ClassificationID cp) e
      \<and> er_ID e \<le> cp_LastEntryID cp) (entryRowsOf E (dbSeq s + 1) t (dbSeq s + 1) rs) = []"
    using ok entryRowsOf_ids by (fastforce simp: filter_empty_conv checkpoint_ok_def)
  then show "checkpoint_ok u cp"
    using ok p(4) by (simp add: checkpoint_ok_def p(3) same_config_lookups(1) [OF p(1)])
qed


lemma VerifyJournalBalanced_None:
  assumes "VerifyJournalBalanced s j = None"
  shows "journal_net s j c = 0"
proof (cases "c \<in> er_CurrencyID ` set (ListJournalEntries s j)")
  case True
  then show ?thesis
    using assms by (auto simp: VerifyJournalBalanced_def ListJournalEntries_def journal_net_def Let_def
        find_None_iff)
next
  case False
  then have "filter (\<lambda>e. er_CurrencyID e = c) (ListJournalEntries s j) = []"
    by (auto simp: filter_empty_conv)
  then show ?thesis by (simp add: journal_net_def)
qed

lemma posting_lists:
  assumes "posting E input rs jtID eventID undo t auth s row u"
    and "ids_ok s" "\<forall>e\<in>set (dbEntries s). entry_ok s e"
  shows "ListJournalEntries u (dbSeq s + 1) = entryRowsOf E (dbSeq s + 1) t (dbSeq s + 1) rs"
    "j \<noteq> dbSeq s + 1 \<Longrightarrow> ListJournalEntries u j = ListJournalEntries s j"
  using ListJournalEntries_new [OF posting_tables(3) [OF assms(1)] old_journal_ids(1) [OF assms(2,3)]]
  by simp_all

lemma posting_balanced_ok:
  assumes "decimal_lib (envD E)" "posting E input rs jtID eventID undo t auth s row u" "ids_ok s"
    and "\<forall>e\<in>set (dbEntries s). entry_ok s e" "balanced_ok s"
    and "list_all2 (resolved_ok s) (ji_Entries input) rs"
    and "JournalInput_Validate (envD E) J now input = Inr ()"
  shows "balanced_ok u"
proof -
  note p = posting_tables [OF assms(2)] posting_row [OF assms(2)]
  note l = posting_lists [OF assms(2-4)]
  have new: "journal_net u (jr_ID row) c = 0"
    "jr_TotalDebit row = side_total EntryTypeDebit (ListJournalEntries u (jr_ID row))"
    "jr_TotalCredit row = side_total EntryTypeCredit (ListJournalEntries u (jr_ID row))" for c
    using VerifyJournalBalanced_None [OF p(6)] decimal_lib.Totals_units [OF assms(1,7)]
    by (simp_all add: p(8,14,15) l(1) side_total_entryRowsOf resolved_sum [OF assms(6)])
  have old: "jr_ID r \<noteq> dbSeq s + 1" if "r \<in> set (dbJournals s)" for r
    using old_journal_ids(2) [OF assms(3,4)] that by blast
  have "journal_net u (jr_ID r) c = journal_net s (jr_ID r) c"
    "ListJournalEntries u (jr_ID r) = ListJournalEntries s (jr_ID r)" if "r \<in> set (dbJournals s)" for r c
    using l(2) [OF old [OF that]] by (simp_all add: journal_net_def)
  then show ?thesis
    using assms(5) new unfolding balanced_ok_def by (simp add: p(2))
qed


section \<open>Reversal chains\<close>

context store_env
begin

lemma sumBy_rows_val:
  "dval (envD E) (valAt (envD E) (sumBy (envD E) key (\<lambda>e. numericToDecimal E (er_Amount e)) rows) k)
     = unit_val (\<Sum>e\<leftarrow>filter (\<lambda>e. key e = k) rows. er_Amount e)"
  unfolding sum_filter_if unit_val_sum sumBy_val numericToDecimal_val
  by (rule arg_cong [of _ _ sum_list], rule map_cong) (simp_all add: unit_val_simps)

lemma cumulativeReversed_val:
  assumes "cumulativeReversedByDimension E s orig es = Inr m"
  shows "dval (envD E) (valAt (envD E) m key) = unit_val (reversed_amount s (jr_ID orig) key)"
proof -
  have "m = sumBy (envD E) undoneDimKey (\<lambda>r. numericToDecimal E (er_Amount r))
      (ListReversalEntriesByOriginal s (jr_ID orig))"
    using assms by (auto simp: cumulativeReversedByDimension_def Let_def split: if_splits)
  then show ?thesis by (simp add: sumBy_rows_val reversed_amount_def)
qed

lemma validateReversalOfInput_Inr:
  assumes "validateReversalOfInput E s orig rs = Inr ()"
    and "\<forall>r\<in>set rs. dval (envD E) (ei_Amount r) = unit_val (units (envD E) (ei_Amount r))"
  shows "jr_ReversalOf orig = None"
    and "key \<in> newDimKey ` set rs \<Longrightarrow> reversed_amount s (jr_ID orig) key
       + (\<Sum>r\<leftarrow>rs. if newDimKey r = key then units (envD E) (ei_Amount r) else 0)
       \<le> posted_amount s (jr_ID orig) key"
proof -
  let ?D = "envD E" and ?es = "ListJournalEntries s (jr_ID orig)"
  let ?new = "sumBy (envD E) newDimKey ei_Amount rs"
  obtain m where m: "cumulativeReversedByDimension E s orig ?es = Inr m"
    and all: "\<forall>key\<in>set (map fst ?new). (case map_of (entriesByDimension E ?es) key of None \<Rightarrow> invalid
        | Some a \<Rightarrow> if dGreaterThan ?D (dAdd ?D (valAt ?D m key) (valAt ?D ?new key)) a
             then Inl [ErrConflict] else Inr ()) = Inr ()"
    using assms(1) by (auto simp: validateReversalOfInput_def Let_def split: if_splits)
  show "jr_ReversalOf orig = None"
    using assms(1) by (auto simp: validateReversalOfInput_def Let_def split: if_splits)
  assume "key \<in> newDimKey ` set rs"
  then have "key \<in> set (map fst ?new)" unfolding set_fst_sumBy .
  then obtain a where a: "map_of (entriesByDimension E ?es) key = Some a"
    and le: "\<not> dGreaterThan ?D (dAdd ?D (valAt ?D m key) (valAt ?D ?new key)) a"
    using all by (fastforce split: option.splits if_splits)
  have "dval ?D a = unit_val (posted_amount s (jr_ID orig) key)"
    using sumBy_rows_val [of rowDimKey ?es key] a
    by (simp add: entriesByDimension_def valAt_def posted_amount_def)
  moreover have "dval ?D (valAt ?D ?new key)
      = unit_val (\<Sum>r\<leftarrow>rs. if newDimKey r = key then units ?D (ei_Amount r) else 0)"
    unfolding sumBy_val unit_val_sum using assms(2)
    by (intro arg_cong [of _ _ sum_list] map_cong) (simp_all add: unit_val_simps)
  ultimately show "reversed_amount s (jr_ID orig) key
       + (\<Sum>r\<leftarrow>rs. if newDimKey r = key then units (envD E) (ei_Amount r) else 0)
       \<le> posted_amount s (jr_ID orig) key"
    using le by (simp add: GreaterThan Add cumulativeReversed_val [OF m] unit_val_simps(2) [symmetric]
        unit_val_order not_less)
qed

end

lemma posting_reversal_rows:
  assumes "posting E input rs jtID eventID undo t auth s row u"
    and "ids_ok s" "\<forall>e\<in>set (dbEntries s). entry_ok s e"
  shows "ListReversalEntriesByOriginal u j = ListReversalEntriesByOriginal s j
    @ (if undo = j \<and> j \<noteq> 0 then entryRowsOf E (dbSeq s + 1) t (dbSeq s + 1) rs else [])"
proof -
  note p = posting_tables [OF assms(1)] posting_row [OF assms(1)]
  let ?ids = "\<lambda>s. set (map jr_ID (ListReversalsByOriginalJournalID s j))"
  let ?new = "entryRowsOf E (dbSeq s + 1) t (dbSeq s + 1) rs"
  have ids: "?ids u = ?ids s \<union> (if undo = j \<and> j \<noteq> 0 then {dbSeq s + 1} else {})"
    by (auto simp: ListReversalsByOriginalJournalID_def p(2,8,11) zeroInt64ToNil_def)
  have n: "dbSeq s + 1 \<notin> ?ids s"
    using old_journal_ids(2) [OF assms(2,3)] by (auto simp: ListReversalsByOriginalJournalID_def)
  have "filter (\<lambda>e. er_JournalID e \<in> ?ids u) (dbEntries s) = filter (\<lambda>e. er_JournalID e \<in> ?ids s) (dbEntries s)"
    using old_journal_ids(1) [OF assms(2,3)] unfolding ids by (intro filter_cong) auto
  moreover have "filter (\<lambda>e. er_JournalID e \<in> ?ids u) ?new = (if undo = j \<and> j \<noteq> 0 then ?new else [])"
    using n unfolding ids
    by (fastforce simp: filter_id_conv filter_empty_conv simp del: set_map dest!: entryRowsOf_journal)
  ultimately show ?thesis by (simp only: ListReversalEntriesByOriginal_def p(3) filter_append)
qed

lemma entryRowsOf_undone_sum:
  "(\<Sum>e\<leftarrow>filter (\<lambda>e. undoneDimKey e = key) (entryRowsOf E j t n rs). er_Amount e)
     = (\<Sum>r\<leftarrow>rs. if newDimKey r = key then units (envD E) (ei_Amount r) else 0)"
  unfolding sum_filter_if
  by (rule entryRowsOf_sum) (simp add: entryRowOf_def undoneDimKey_def newDimKey_def)

lemma posted_amount_nonneg:
  assumes "\<forall>e\<in>set (dbEntries s). entry_ok s e"
  shows "0 \<le> posted_amount s j key"
  unfolding posted_amount_def using assms
  by (intro sum_list_nonneg) (auto simp: ListJournalEntries_def entry_ok_def)


lemma resolveReversalOf_Inr:
  assumes "resolveReversalOf E s input rs = Inr undo"
  shows "ji_ReversalOfUID input = [] \<and> undo = 0
    \<or> (\<exists>u orig. ji_ReversalOfUID input \<noteq> [] \<and> envParseUID E (ji_ReversalOfUID input) = Some u
        \<and> GetJournalByUID s u = Some orig \<and> jr_ID orig = undo \<and> validateReversalOfInput E s orig rs = Inr ())"
  using assms
  by (auto simp: resolveReversalOf_def uidToPG_def GetJournalForUpdateByUID_def split: if_splits option.splits)

lemma posting_reversals_ok:
  assumes "store_env E" "posting E input rs jtID eventID undo t auth s row u"
    and "ids_ok s" "\<forall>e\<in>set (dbEntries s). entry_ok s e" "reversals_ok s"
    and "\<forall>e\<in>set (dbEntries u). entry_ok u e"
    and "resolveReversalOf E s input rs = Inr undo"
    and "\<forall>r\<in>set rs. dval (envD E) (ei_Amount r) = unit_val (units (envD E) (ei_Amount r))"
  shows "reversals_ok u"
proof -
  note p = posting_tables [OF assms(2)] posting_row [OF assms(2)]
  note l = posting_lists [OF assms(2-4)]
  have undo: "undo = 0 \<or> (\<exists>orig\<in>set (dbJournals s). jr_ID orig = undo
      \<and> validateReversalOfInput E s orig rs = Inr ())"
    using resolveReversalOf_Inr [OF assms(7)] by (auto simp: GetJournalByUID_def dest!: find_Some_mem)
  have refs: "\<exists>orig\<in>set (dbJournals u). jr_ID orig = j \<and> jr_ReversalOf orig = None"
    if "r \<in> set (dbJournals u)" "jr_ReversalOf r = Some j" for r j
  proof (cases "r \<in> set (dbJournals s)")
    case True
    then show ?thesis using assms(5) that(2) by (auto simp: reversals_ok_def p(2))
  next
    case False
    then have "undo = j" "undo \<noteq> 0"
      using that p(11) by (auto simp: p(2) zeroInt64ToNil_def split: if_splits)
    with undo store_env.validateReversalOfInput_Inr(1) [OF assms(1) _ assms(8)] show ?thesis
      by (auto simp: p(2))
  qed
  have "reversed_amount u j key \<le> posted_amount u j key" for j key
  proof (cases "j = dbSeq s + 1")
    case True
    have "ListReversalsByOriginalJournalID s j = []"
      using assms(5) old_journal_ids(2) [OF assms(3,4)] True
      by (fastforce simp: reversals_ok_def ListReversalsByOriginalJournalID_def filter_empty_conv)
    moreover have "undo \<noteq> j \<or> j = 0" using undo old_journal_ids(2) [OF assms(3,4)] True by auto
    ultimately have "ListReversalEntriesByOriginal u j = []"
      unfolding posting_reversal_rows [OF assms(2-4)] by (auto simp: ListReversalEntriesByOriginal_def)
    then have "reversed_amount u j key = 0" by (simp add: reversed_amount_def)
    then show ?thesis using posted_amount_nonneg [OF assms(6)] by simp
  next
    case False
    then have po: "posted_amount u j key = posted_amount s j key" by (simp add: posted_amount_def l(2))
    have le: "reversed_amount s j key \<le> posted_amount s j key" using assms(5) unfolding reversals_ok_def by blast
    let ?d = "\<Sum>r\<leftarrow>rs. if newDimKey r = key then units (envD E) (ei_Amount r) else 0"
    have re: "reversed_amount u j key = reversed_amount s j key + (if undo = j \<and> j \<noteq> 0 then ?d else 0)"
      by (simp add: reversed_amount_def posting_reversal_rows [OF assms(2-4)] entryRowsOf_undone_sum)
    show ?thesis
    proof (cases "undo = j \<and> j \<noteq> 0 \<and> key \<in> newDimKey ` set rs")
      case True
      then obtain orig where "jr_ID orig = j" "validateReversalOfInput E s orig rs = Inr ()" using undo by auto
      with store_env.validateReversalOfInput_Inr(2) [OF assms(1) _ assms(8), of s orig key] True po re
      show ?thesis by simp
    next
      case False
      moreover have "?d = 0" if "key \<notin> newDimKey ` set rs" using that by (induction rs) auto
      ultimately show ?thesis using po re le by auto
    qed
  qed
  with refs show ?thesis unfolding reversals_ok_def by blast
qed

lemma posting_ledger_ok:
  assumes "store_env E" "ledger_ok E s" "postJournalWithQueries E input t auth s = Inr (j, u)"
  shows "ledger_ok E u"
proof (cases "GetJournalByIdempotencyKey s (ji_IdempotencyKey input)")
  case (Some existing)
  with post_existing(1) [OF assms(3)] assms(2) show ?thesis by simp
next
  case None
  have D: "decimal_lib (envD E)" using assms(1) by (simp add: store_env_def)
  note ok = assms(2) [unfolded ledger_ok_def]
  obtain rs jtID eventID undo row where
    v: "JournalInput_Validate (envD E) (envJ E) (envNow E) input = Inr ()"
    and r: "resolveEntries s (ji_Entries input) = Inr rs"
    and ev: "resolveEventLink E s input rs = Inr eventID"
    and un: "resolveReversalOf E s input rs = Inr undo"
    and p: "posting E input rs jtID eventID undo t auth s row u"
    by (rule post_new [OF assms(3) None], rule that)
  have rs: "list_all2 (resolved_ok s) (ji_Entries input) rs"
    using resolveEntries_ok [OF r] ok by (simp add: dims_ok_def)
  have vals: "\<forall>r\<in>set rs. dval (envD E) (ei_Amount r) = unit_val (units (envD E) (ei_Amount r))"
  proof
    fix r
    assume "r \<in> set rs"
    then obtain e where "e \<in> set (ji_Entries input)" "resolved_ok s e r"
      using rs by (metis in_set_conv_nth list_all2_conv_all_nth)
    with decimal_lib.valid_units(1) [OF D v, of e] show "dval (envD E) (ei_Amount r)
        = unit_val (units (envD E) (ei_Amount r))"
      by (simp add: resolved_ok_def)
  qed
  have ids: "ids_ok s" and ent: "\<forall>e\<in>set (dbEntries s). entry_ok s e" using ok by blast+
  have entu: "\<forall>e\<in>set (dbEntries u). entry_ok u e" by (rule posting_entries_ok [OF p ent rs])
  have "uids_ok E u" using ok posting_row(1,3) [OF p] by (auto simp: uids_ok_def posting_tables(2) [OF p])
  moreover have "dims_ok u" using ok same_config_lookups(2) [OF posting_tables(1) [OF p]] by simp
  moreover have "balanced_ok u" using posting_balanced_ok [OF D p ids ent _ rs v] ok by simp
  moreover have "reversals_ok u" using posting_reversals_ok [OF assms(1) p ids ent _ entu un vals] ok by simp
  moreover have "events_ok u" using posting_events_ok [OF p _ ev] ok by simp
  ultimately show ?thesis
    using posting_ids_ok [OF p ids] entu posting_checkpoints_ok [OF p] ok by (simp add: ledger_ok_def)
qed

end
