(* ===== verification/Posting.thy ===== *)
theory Posting
  imports Ledger_Invariant
begin

text \<open>
  What posting a journal does (\<^verbatim>\<open>postgres/ledger_store.go\<close>): its exact effect on the tables and on
  every balance, what a second request under a used idempotency key gets, the gates an accepted
  journal has passed (period close, active dimensions, account policies), and when posting succeeds.
\<close>

section \<open>A ledger to evaluate on\<close>

definition base_ledger :: db where
  "base_ledger = \<lparr>
     dbCurrencies = [\<lparr>cur_UID = ''c1'', cur_Code = ''USD'', cur_Name = ''dollar'', cur_IsActive = True,
        cur_Exponent = 2, cur_ID = 1\<rparr>],
     dbClassifications =
       [\<lparr>cls_UID = ''k1'', cls_Code = ''wallet'', cls_Name = ''wallet'', cls_NormalSide = NormalSideCredit,
          cls_IsSystem = False, cls_IsActive = True, cls_DisplayLabel = [],
          cls_BalanceRole = BalanceRoleAvailable, cls_Lifecycle = None, cls_CreatedAt = 0, cls_ID = 2\<rparr>,
        \<lparr>cls_UID = ''k2'', cls_Code = ''custody'', cls_Name = ''custody'', cls_NormalSide = NormalSideDebit,
          cls_IsSystem = True, cls_IsActive = True, cls_DisplayLabel = [],
          cls_BalanceRole = BalanceRoleNone, cls_Lifecycle = None, cls_CreatedAt = 0, cls_ID = 3\<rparr>],
     dbJournalTypes = [\<lparr>jt_UID = ''t1'', jt_Code = ''deposit'', jt_Name = ''deposit'', jt_IsActive = True,
        jt_DisplayLabel = [], jt_HolderKind = [], jt_CreatedAt = 0, jt_ID = 4\<rparr>],
     dbTemplates = [], dbTemplateLines = [], dbJournals = [], dbEntries = [], dbEvents = [],
     dbBookings = [], dbCheckpoints = [], dbQueue = [], dbPolicies = [], dbPeriods = [],
     dbReservations = [], dbReceipts = [], dbLegs = [], dbTransitionReceipts = [],
     dbEntryAttestations = [], dbRebuilds = [], dbSeq = 4\<rparr>"

text \<open>A deposit of \<open>n\<close> cents to a holder, out of the custody account of the mirror holder.\<close>

definition deposit :: "string \<Rightarrow> int \<Rightarrow> int \<Rightarrow> (int \<times> int) JournalInput" where
  "deposit key h n = \<lparr>ji_JournalTypeUID = ''t1'', ji_IdempotencyKey = key,
     ji_Entries = [\<lparr>ei_AccountHolder = - h, ei_CurrencyUID = ''c1'', ei_ClassificationUID = ''k2'',
         ei_EntryType = EntryTypeDebit, ei_Amount = (n, - 2)\<rparr>,
       \<lparr>ei_AccountHolder = h, ei_CurrencyUID = ''c1'', ei_ClassificationUID = ''k1'',
         ei_EntryType = EntryTypeCredit, ei_Amount = (n, - 2)\<rparr>],
     ji_Metadata = [], ji_ActorID = 1, ji_Source = ''api'', ji_ReversalOfUID = [], ji_EventUID = [],
     ji_EffectiveAt = 0\<rparr>"

definition posted_journal :: "(int \<times> int) Journal" where
  "posted_journal = \<lparr>jn_UID = ''u5'', jn_JournalTypeUID = ''t1'', jn_IdempotencyKey = ''d1'',
     jn_TotalDebit = (10500000000000000000, - 18), jn_TotalCredit = (10500000000000000000, - 18),
     jn_Metadata = [], jn_ActorID = 1, jn_Source = ''api'', jn_ReversalOfUID = [], jn_EventUID = [],
     jn_EffectiveAt = 0, jn_CreatedAt = 0, jn_AuthDigest = [], jn_AuthSignature = [],
     jn_AuthKeyID = [], jn_AuthStatus = AuthStatusUnsignedNoAttestor\<rparr>"

definition posted_ledger :: db where
  "posted_ledger = base_ledger\<lparr>
     dbJournals := [\<lparr>jr_ID = 5, jr_JournalTypeID = 4, jr_IdempotencyKey = ''d1'',
        jr_TotalDebit = 10500000000000000000, jr_TotalCredit = 10500000000000000000, jr_Metadata = [],
        jr_ActorID = 1, jr_Source = ''api'', jr_ReversalOf = None, jr_CreatedAt = 0, jr_EventID = None,
        jr_EffectiveAt = 0, jr_UID = ''u5'', jr_AuthDigest = [], jr_AuthSignature = [],
        jr_AuthKeyID = [], jr_AuthStatus = AuthStatusUnsignedNoAttestor\<rparr>],
     dbEntries := [\<lparr>er_ID = 6, er_JournalID = 5, er_AccountHolder = - 7, er_CurrencyID = 1,
         er_ClassificationID = 3, er_EntryType = EntryTypeDebit, er_Amount = 10500000000000000000,
         er_CreatedAt = 0, er_EffectiveAt = 0\<rparr>,
       \<lparr>er_ID = 7, er_JournalID = 5, er_AccountHolder = 7, er_CurrencyID = 1,
         er_ClassificationID = 2, er_EntryType = EntryTypeCredit, er_Amount = 10500000000000000000,
         er_CreatedAt = 0, er_EffectiveAt = 0\<rparr>],
     dbQueue := [\<lparr>rq_ID = 8, rq_AccountHolder = - 7, rq_CurrencyID = 1, rq_ClassificationID = 3,
         rq_ClaimedUntil = None, rq_ProcessedAt = None, rq_CreatedAt = 0, rq_FailedAttempts = 0\<rparr>,
       \<lparr>rq_ID = 9, rq_AccountHolder = 7, rq_CurrencyID = 1, rq_ClassificationID = 2,
         rq_ClaimedUntil = None, rq_ProcessedAt = None, rq_CreatedAt = 0, rq_FailedAttempts = 0\<rparr>],
     dbSeq := 9\<rparr>"

lemma posted_run: "PostJournal ref_env (deposit ''d1'' 7 1050) base_ledger = Inr (posted_journal, posted_ledger)"
  by code_simp

lemma ledger_ok_base: "ledger_ok E base_ledger"
  by (auto simp: ledger_ok_def base_ledger_def ids_ok_def uids_ok_def dims_ok_def dims_unique_def balanced_ok_def
      reversals_ok_def events_ok_def ListCurrencyDims_def ListClassificationDims_def ListJournalTypeDims_def
      currencyDim_def classDim_def jtDim_def NormalSide_IsValid_def reversed_amount_def posted_amount_def
      ListReversalEntriesByOriginal_def ListJournalEntries_def)

section \<open>The operations that post\<close>

lemma PostJournal_Inr:
  assumes "PostJournal E input s = Inr (j, t)"
  obtains auth where "postJournalWithQueries E input (resolveEffectiveAt E (ji_EffectiveAt input)) auth s = Inr (j, t)"
  using assms by (auto simp: PostJournal_def Let_def split: if_splits)

lemma PostJournal_ledger_ok:
  assumes "store_env E" "ledger_ok E s" "PostJournal E input s = Inr (j, t)"
  shows "ledger_ok E t"
  by (rule PostJournal_Inr [OF assms(3)]) (rule posting_ledger_ok [OF assms(1,2)])

lemma PostAuthorized_ledger_ok:
  assumes "store_env E" "ledger_ok E s" "PostAuthorized E a s = Inr (j, t)"
  shows "ledger_ok E t"
  using assms(3) by (auto simp: PostAuthorized_def split: if_splits intro: posting_ledger_ok [OF assms(1,2)])

lemma ExecuteTemplate_ledger_ok:
  assumes "store_env E" "ledger_ok E s" "ExecuteTemplate E code params s = Inr (j, t)"
  shows "ledger_ok E t"
  using assms(3) by (auto simp: ExecuteTemplate_def intro: PostJournal_ledger_ok [OF assms(1,2)])

lemma postAll_ledger_ok:
  "store_env E \<Longrightarrow> ledger_ok E s \<Longrightarrow> postAll E ps s = Inr (js, t) \<Longrightarrow> ledger_ok E t"
  by (induction E ps s arbitrary: js rule: postAll.induct) (auto dest: posting_ledger_ok)

lemma ExecuteTemplateBatch_ledger_ok:
  assumes "store_env E" "ledger_ok E s" "ExecuteTemplateBatch E rs s = Inr (js, t)"
  shows "ledger_ok E t"
  using assms(2,3) by (auto simp: ExecuteTemplateBatch_def executeTemplateBatchWithQueries_def
      split: if_splits intro: postAll_ledger_ok [OF assms(1,2)])

lemma ledger_ok_posted: "ledger_ok ref_env posted_ledger"
  by (rule PostJournal_ledger_ok [OF renv.store_env_axioms ledger_ok_base posted_run])

section \<open>The effect on balances\<close>

text \<open>What one resolved entry adds to the balance of a dimension.\<close>

definition entry_effect :: "'d env \<Rightarrow> db \<Rightarrow> int \<Rightarrow> int \<Rightarrow> int \<Rightarrow> 'd resolvedEntry \<Rightarrow> int" where
  "entry_effect E s h c k r =
     (if ei_AccountHolder r = h \<and> re_currencyID r = c \<and> re_classificationID r = k
      then (if ei_EntryType r = normal_side_of s k then units (envD E) (ei_Amount r)
            else - units (envD E) (ei_Amount r))
      else 0)"

lemma posting_balance:
  assumes "posting E input rs jtID eventID undo t auth s row u"
  shows "ledger_balance u h c k = ledger_balance s h c k + (\<Sum>r\<leftarrow>rs. entry_effect E s h c k r)"
proof -
  note p = posting_tables [OF assms]
  have "(\<Sum>e\<leftarrow>filter (on_dim h c k) (entryRowsOf E j t n rs). signed_entry (normal_side_of s k) e)
      = (\<Sum>r\<leftarrow>rs. entry_effect E s h c k r)" for j n
    unfolding sum_filter_if
    by (rule entryRowsOf_sum) (simp add: entryRowOf_def on_dim_def signed_entry_def entry_effect_def)
  then show ?thesis
    by (simp add: ledger_balance_def p(3) same_config_lookups(1) [OF p(1)])
qed



section \<open>A second request under a used key\<close>

text \<open>Later states of the books: rows of the dimensions and journals stay, with the entries of a
  journal, and events keep their ids and uids.\<close>

definition ledger_extends :: "db \<Rightarrow> db \<Rightarrow> bool" where
  "ledger_extends t u \<longleftrightarrow> dims_grow t u \<and> set (dbJournals t) \<subseteq> set (dbJournals u)
     \<and> (\<forall>r\<in>set (dbJournals t). ListJournalEntries u (jr_ID r) = ListJournalEntries t (jr_ID r))
     \<and> (\<lambda>v. (ev_ID v, ev_UID v)) ` set (dbEvents t) \<subseteq> (\<lambda>v. (ev_ID v, ev_UID v)) ` set (dbEvents u)"

lemma find_image_unique:
  assumes "distinct (map f xs)" "d \<in> set xs" "f d = k"
  shows "List.find (\<lambda>x. f x = k) xs = Some d"
  using find_unique [OF assms(1,2)] assms(3) by simp

lemma jtOfID_Inr: "jtOfID s i = Inr d \<Longrightarrow> d \<in> set (ListJournalTypeDims s) \<and> dj_ID d = i"
  by (auto simp: jtOfID_def orErr_def split: option.splits dest: find_Some_mem)

lemma lookups_grow:
  assumes "dims_grow t u" "dims_unique u"
  shows "currencyOfUID t uid = Inr c \<Longrightarrow> currencyOfUID u uid = Inr c"
    "classOfUID t uid = Inr k \<Longrightarrow> classOfUID u uid = Inr k" "jtOfID t i = Inr jt \<Longrightarrow> jtOfID u i = Inr jt"
proof -
  show "currencyOfUID t uid = Inr c \<Longrightarrow> currencyOfUID u uid = Inr c"
    using assms(1) dims_unique_find(1) [OF assms(2), of c] by (auto simp: dims_grow_def dest!: currencyOfUID_Inr)
  show "classOfUID t uid = Inr k \<Longrightarrow> classOfUID u uid = Inr k"
    using assms(1) dims_unique_find(3) [OF assms(2), of k] by (auto simp: dims_grow_def dest!: classOfUID_Inr)
  show "jtOfID t i = Inr jt \<Longrightarrow> jtOfID u i = Inr jt"
    using assms(1) dims_unique_find(6) [OF assms(2), of jt] by (auto simp: dims_grow_def dest!: jtOfID_Inr)
qed

lemma GetJournalUIDByID_stable:
  assumes "GetJournalUIDByID t i = Some uid" "set (dbJournals t) \<subseteq> set (dbJournals u)" "ids_ok u"
  shows "GetJournalUIDByID u i = Some uid"
proof -
  obtain r where "r \<in> set (dbJournals u)" "jr_ID r = i" "jr_UID r = uid"
    using assms(1,2) by (auto simp: GetJournalUIDByID_def dest!: find_Some_mem)
  then show ?thesis
    using find_image_unique [of jr_ID "dbJournals u" r i] assms(3) by (simp add: GetJournalUIDByID_def ids_ok_def)
qed

lemma GetEventUIDByID_stable:
  assumes "GetEventUIDByID t i = Some uid" "ids_ok u"
    and "(\<lambda>v. (ev_ID v, ev_UID v)) ` set (dbEvents t) \<subseteq> (\<lambda>v. (ev_ID v, ev_UID v)) ` set (dbEvents u)"
  shows "GetEventUIDByID u i = Some uid"
proof -
  obtain v where "v \<in> set (dbEvents t)" "ev_ID v = i" "ev_UID v = uid"
    using assms(1) by (auto simp: GetEventUIDByID_def dest!: find_Some_mem)
  then have "(i, uid) \<in> (\<lambda>v. (ev_ID v, ev_UID v)) ` set (dbEvents u)" using assms(3) by force
  then obtain w where "w \<in> set (dbEvents u)" "ev_ID w = i" "ev_UID w = uid" by auto
  then show ?thesis
    using find_image_unique [of ev_ID "dbEvents u" w i] assms(2) by (simp add: GetEventUIDByID_def ids_ok_def)
qed

lemma journalFromRow_stable:
  assumes "journalFromRow E t row = Inr j" "ledger_extends t u" "ledger_ok E u"
  shows "journalFromRow E u row = Inr j"
proof -
  have "ids_ok u" "dims_unique u" using assms(3) by (simp_all add: ledger_ok_def dims_ok_def)
  note st = GetJournalUIDByID_stable [OF _ _ this(1)] GetEventUIDByID_stable [OF _ this(1)]
    lookups_grow(3) [OF _ this(2)]
  show ?thesis
    using assms(1,2) st
    by (auto simp: journalFromRow_def ledger_extends_def orErr_def split: option.splits)
qed

lemma sameJournalEntries_stable:
  assumes "sameJournalEntries E t rows input = Inr b" "ledger_extends t u" "ledger_ok E u"
  shows "sameJournalEntries E u rows input = Inr b"
proof -
  have d: "dims_grow t u" "dims_unique u"
    using assms(2,3) by (simp_all add: ledger_extends_def ledger_ok_def dims_ok_def)
  have fp: "inputFingerprint E t e = Inr f \<Longrightarrow> inputFingerprint E u e = Inr f" for e f
    using lookups_grow(1,2) [OF d] by (fastforce simp: inputFingerprint_def)
  have "mapR (inputFingerprint E t) input = Inr fs \<Longrightarrow> mapR (inputFingerprint E u) input = Inr fs" for fs
    unfolding mapR_Inr by (erule list_all2_mono) (rule fp)
  then show ?thesis using assms(1) by (auto simp: sameJournalEntries_def split: if_splits)
qed

lemma match_stable:
  assumes "ensureJournalMatchesInput E t row input = Inr j" "row \<in> set (dbJournals t)"
    and "ledger_extends t u" "ledger_ok E u"
  shows "ensureJournalMatchesInput E u row input = Inr j"
proof -
  have rows: "ListJournalEntries u (jr_ID row) = ListJournalEntries t (jr_ID row)"
    using assms(2,3) by (simp add: ledger_extends_def)
  from assms(1) have j: "journalFromRow E t row = Inr j"
    and same: "sameJournalEntries E t (ListJournalEntries t (jr_ID row)) (ji_Entries input) = Inr True"
    by (auto simp: ensureJournalMatchesInput_def Let_def split: if_splits)
  show ?thesis
    using assms(1) j same journalFromRow_stable [OF j assms(3,4)] sameJournalEntries_stable [OF same assms(3,4)]
    by (simp add: ensureJournalMatchesInput_def Let_def rows)
qed

text \<open>The stored journal matches the request that created it.\<close>

context decimal_lib
begin

lemma totalDebit_val:
  "dval D (totalDebit D es) = (\<Sum>e\<leftarrow>es. if ei_EntryType e = EntryTypeDebit then dval D (ei_Amount e) else 0)"
proof -
  have "dval D (foldl (\<lambda>t e. if ei_EntryType e = EntryTypeDebit then dAdd D t (ei_Amount e) else t) z es)
      = dval D z + (\<Sum>e\<leftarrow>es. if ei_EntryType e = EntryTypeDebit then dval D (ei_Amount e) else 0)" for z
    by (induction es arbitrary: z) (simp_all add: Add)
  then show ?thesis by (simp add: totalDebit_def Zero)
qed

lemma totalCredit_val:
  "dval D (totalCredit D es) = (\<Sum>e\<leftarrow>es. if ei_EntryType e = EntryTypeCredit then dval D (ei_Amount e) else 0)"
proof -
  have "dval D (foldl (\<lambda>t e. if ei_EntryType e = EntryTypeCredit then dAdd D t (ei_Amount e) else t) z es)
      = dval D z + (\<Sum>e\<leftarrow>es. if ei_EntryType e = EntryTypeCredit then dval D (ei_Amount e) else 0)" for z
    by (induction es arbitrary: z) (simp_all add: Add)
  then show ?thesis by (simp add: totalCredit_def Zero)
qed

end

lemma metadataToJSON_idem [simp]: "metadataToJSON (metadataToJSON m) = metadataToJSON m"
  by (simp add: metadataToJSON_def sort_key_id_if_sorted)

lemma inputFingerprint_resolved:
  "resolveEntry s e = Inr r \<Longrightarrow> inputFingerprint E s e = Inr \<lparr>fp_holder = ei_AccountHolder r,
     fp_currencyID = re_currencyID r, fp_classificationID = re_classificationID r,
     fp_entryType = ei_EntryType r, fp_amount = dString (envD E) (ei_Amount r)\<rparr>"
  by (auto simp: resolveEntry_def inputFingerprint_def)

lemma posted_fingerprints:
  assumes "store_env E" "resolveEntries s es = Inr rs"
    and "\<forall>r\<in>set rs. dval (envD E) (ei_Amount r) = unit_val (units (envD E) (ei_Amount r))"
  shows "mapR (inputFingerprint E s) es = Inr (map (rowFingerprint E) (entryRowsOf E j t n rs))"
proof -
  have D: "decimal_lib (envD E)" using assms(1) by (simp add: store_env_def)
  have fp: "rowFingerprint E (entryRowOf E j t i r) = \<lparr>fp_holder = ei_AccountHolder r,
     fp_currencyID = re_currencyID r, fp_classificationID = re_classificationID r,
     fp_entryType = ei_EntryType r, fp_amount = dString (envD E) (ei_Amount r)\<rparr>" if "r \<in> set rs" for i r
    using assms(3) that
    by (simp add: rowFingerprint_def entryRowOf_def decimal_lib.String [OF D] store_env.numericToDecimal_val [OF assms(1)])
  have "list_all2 (\<lambda>e r. resolveEntry s e = Inr r) es rs"
    using assms(2) by (simp add: resolveEntries_def mapR_Inr)
  then have "list_all2 (\<lambda>e f. inputFingerprint E s e = Inr f) es (map (rowFingerprint E) (entryRowsOf E j t n rs))"
    using fp by (induction arbitrary: n rule: list_all2_induct) (auto simp: inputFingerprint_resolved)
  then show ?thesis by (simp add: mapR_Inr)
qed

definition canonical_uid :: "'d env \<Rightarrow> string \<Rightarrow> bool" where
  "canonical_uid E uid \<longleftrightarrow> uid = [] \<or> envParseUID E uid = Some uid"

lemma linked_event_uid:
  assumes "resolveEventLink E s input rs = Inr i" "canonical_uid E (ji_EventUID input)" "ids_ok s"
    and "map ev_ID (dbEvents t) = map ev_ID (dbEvents s)" "map ev_UID (dbEvents t) = map ev_UID (dbEvents s)"
  shows "(case zeroInt64ToNil i of None \<Rightarrow> Inr [] | Some i \<Rightarrow> orErr (GetEventUIDByID t i) [])
    = Inr (ji_EventUID input)"
proof (cases "ji_EventUID input = []")
  case True
  with assms(1) show ?thesis by (simp add: resolveEventLink_def zeroInt64ToNil_def)
next
  case False
  then obtain v where v: "GetEventByUID s (ji_EventUID input) = Some v" "ev_ID v = i"
    using assms(1,2)
    by (auto simp: resolveEventLink_def uidToPG_def canonical_uid_def split: option.splits if_splits)
  then have v': "v \<in> set (dbEvents s)" "ev_UID v = ji_EventUID input" "i \<noteq> 0"
    using assms(3) by (auto simp: GetEventByUID_def ids_ok_def dest!: find_Some_mem)
  obtain n where n: "n < length (dbEvents s)" "dbEvents s ! n = v" using v'(1) by (auto simp: in_set_conv_nth)
  have len: "length (dbEvents t) = length (dbEvents s)" using assms(4) map_eq_imp_length_eq by blast
  have "ev_ID (dbEvents t ! n) = i" "ev_UID (dbEvents t ! n) = ji_EventUID input" "dbEvents t ! n \<in> set (dbEvents t)"
    using n v(2) v'(2) len assms(4,5) by (metis nth_map nth_mem)+
  moreover have "distinct (map ev_ID (dbEvents t))" using assms(3,4) by (simp add: ids_ok_def)
  ultimately have "GetEventUIDByID t i = Some (ji_EventUID input)"
    using find_image_unique [of ev_ID "dbEvents t" "dbEvents t ! n" i] by (simp add: GetEventUIDByID_def)
  with v'(3) show ?thesis by (simp add: zeroInt64ToNil_def orErr_def)
qed

lemma linked_reversal_uid:
  assumes "resolveReversalOf E s input rs = Inr i" "canonical_uid E (ji_ReversalOfUID input)" "ids_ok s"
    and "ids_ok t" "set (dbJournals s) \<subseteq> set (dbJournals t)"
  shows "(case zeroInt64ToNil i of None \<Rightarrow> Inr [] | Some i \<Rightarrow> orErr (GetJournalUIDByID t i) [])
    = Inr (ji_ReversalOfUID input)"
proof (cases "ji_ReversalOfUID input = []")
  case True
  with assms(1) show ?thesis by (simp add: resolveReversalOf_def zeroInt64ToNil_def)
next
  case False
  then obtain r where "GetJournalByUID s (ji_ReversalOfUID input) = Some r" "jr_ID r = i"
    using resolveReversalOf_Inr [OF assms(1)] assms(2) by (auto simp: canonical_uid_def)
  then have r: "r \<in> set (dbJournals s)" "jr_UID r = ji_ReversalOfUID input" "i \<noteq> 0" "jr_ID r = i"
    using assms(3) by (auto simp: GetJournalByUID_def ids_ok_def dest!: find_Some_mem)
  then have "GetJournalUIDByID t i = Some (ji_ReversalOfUID input)"
    using find_image_unique [of jr_ID "dbJournals t" r i] assms(4,5) by (auto simp: GetJournalUIDByID_def ids_ok_def)
  with r(3) show ?thesis by (simp add: zeroInt64ToNil_def orErr_def)
qed

lemma posted_matches:
  assumes "store_env E" "ledger_ok E s" "postJournalWithQueries E input eff auth s = Inr (j, t)"
    and "GetJournalByIdempotencyKey s (ji_IdempotencyKey input) = None"
    and "canonical_uid E (ji_EventUID input)" "canonical_uid E (ji_ReversalOfUID input)"
    and "IsZeroTime (ji_EffectiveAt input) \<or> eff = ji_EffectiveAt input"
  obtains row where "dbJournals t = dbJournals s @ [row]" "jr_IdempotencyKey row = ji_IdempotencyKey input"
    "ensureJournalMatchesInput E t row input = Inr j"
proof -
  have D: "decimal_lib (envD E)" using assms(1) by (simp add: store_env_def)
  obtain rs jt eventID undo row where
    v: "JournalInput_Validate (envD E) (envJ E) (envNow E) input = Inr ()"
    and r: "resolveEntries s (ji_Entries input) = Inr rs" and jt: "jtOfUID s (ji_JournalTypeUID input) = Inr jt"
    and ev: "resolveEventLink E s input rs = Inr eventID" and un: "resolveReversalOf E s input rs = Inr undo"
    and p: "posting E input rs (dj_ID jt) eventID undo eff auth s row t" and j: "journalFromRow E t row = Inr j"
    by (rule post_new [OF assms(3,4)], rule that)
  note q = posting_tables [OF p] and w = posting_row [OF p]
  have ok: "ids_ok s" "\<forall>e\<in>set (dbEntries s). entry_ok s e" "dims_unique s" "ids_ok t"
    using assms(2) posting_ledger_ok [OF assms(1-3)] by (simp_all add: ledger_ok_def dims_ok_def)
  have vals: "\<forall>r\<in>set rs. dval (envD E) (ei_Amount r) = unit_val (units (envD E) (ei_Amount r))"
    using resolveEntries_ok [OF r ok(3)] decimal_lib.valid_units(1) [OF D v]
    by (metis in_set_conv_nth list_all2_conv_all_nth resolved_ok_def)
  have jtu: "jtOfID t (dj_ID jt) = Inr jt" "dj_UID jt = ji_JournalTypeUID input"
    using jtOfUID_Inr [OF jt] dims_unique_find(6) [OF ok(3)] same_config_lookups(12) [OF q(1)] by auto
  have evu: "map ev_ID (dbEvents t) = map ev_ID (dbEvents s)" "map ev_UID (dbEvents t) = map ev_UID (dbEvents s)"
    by (simp_all add: q(5) comp_def)
  have grow: "set (dbJournals s) \<subseteq> set (dbJournals t)" by (auto simp: q(2))
  note links = linked_event_uid [OF ev assms(5) ok(1) evu] linked_reversal_uid [OF un assms(6) ok(1,4) grow]
  have core: "jn_JournalTypeUID j = ji_JournalTypeUID input" "jn_EventUID j = ji_EventUID input"
    "jn_ReversalOfUID j = ji_ReversalOfUID input" "jn_Metadata j = metadataToJSON (ji_Metadata input)"
    using j links by (auto simp: journalFromRow_def w(4-6,10) jtu q(2))
  note tot = decimal_lib.Totals_units [OF D v] decimal_lib.valid_sum_units [OF D v]
  have totals: "dEqual (envD E) (numericToDecimal E (jr_TotalDebit row)) (totalDebit (envD E) (ji_Entries input))"
    "dEqual (envD E) (numericToDecimal E (jr_TotalCredit row)) (totalCredit (envD E) (ji_Entries input))"
    by (simp_all add: decimal_lib.Equal [OF D] store_env.numericToDecimal_val [OF assms(1)] w(7,8) tot
        decimal_lib.totalDebit_val [OF D] decimal_lib.totalCredit_val [OF D])
  have fp: "mapR (inputFingerprint E t) (ji_Entries input)
      = Inr (map (rowFingerprint E) (ListJournalEntries t (jr_ID row)))"
  proof -
    have "inputFingerprint E t = inputFingerprint E s"
      by (simp add: fun_eq_iff inputFingerprint_def same_config_lookups(7,8) [OF q(1)])
    then show ?thesis
      using posted_fingerprints [OF assms(1) r vals] by (simp add: posting_lists(1) [OF p ok(1,2)] w(1))
  qed
  have len: "length (ListJournalEntries t (jr_ID row)) = length (ji_Entries input)"
    using mapR_Inr_length [OF fp] by simp
  have "sameJournalEntries E t (ListJournalEntries t (jr_ID row)) (ji_Entries input) = Inr True"
    using len fp by (simp add: sameJournalEntries_def)
  then have "ensureJournalMatchesInput E t row input = Inr j"
    using assms(7) j core totals w(9,11,12) by (auto simp: ensureJournalMatchesInput_def timestamptz_def)
  with that q(2) w(2) show ?thesis by blast
qed

text \<open>The match does not look at the clock, the signer or the mode.\<close>

lemma env_update_reads:
  fixes E :: "'d env" and now a b
  defines "E' \<equiv> E\<lparr>envNow := now, envAttestor := a, envPool := b\<rparr>"
  shows "envD E' = envD E" "numericToDecimal E' = numericToDecimal E" "journalFromRow E' = journalFromRow E"
    "rowFingerprint E' = rowFingerprint E" "inputFingerprint E' = inputFingerprint E"
proof -
  show D: "envD E' = envD E" and n: "numericToDecimal E' = numericToDecimal E"
    by (simp_all add: E'_def numericToDecimal_def fun_eq_iff)
  show "journalFromRow E' = journalFromRow E" "rowFingerprint E' = rowFingerprint E"
    "inputFingerprint E' = inputFingerprint E"
    by (simp_all add: fun_eq_iff journalFromRow_def rowFingerprint_def inputFingerprint_def D n)
qed

lemma env_update_match:
  "ensureJournalMatchesInput (E\<lparr>envNow := now, envAttestor := a, envPool := b\<rparr>) = ensureJournalMatchesInput E"
  unfolding ensureJournalMatchesInput_def [abs_def] sameJournalEntries_def env_update_reads ..

lemma Validate_later:
  assumes "JournalInput_Validate D J now input = Inr ()" "now \<le> later"
  shows "JournalInput_Validate D J later input = Inr ()"
  using assms by (auto simp: JournalInput_Validate_def split: if_splits)


lemma ledger_extends_refl: "ledger_extends t t"
  by (simp add: ledger_extends_def dims_grow_def)


text \<open>What a fingerprint says: the dimension, the side and the amount in units.\<close>

definition fingerprint_of :: "'d env \<Rightarrow> entryDimKey \<times> int \<Rightarrow> journalEntryFingerprint" where
  "fingerprint_of E x = (case x of ((h, c, k, side), n) \<Rightarrow> \<lparr>fp_holder = h, fp_currencyID = c,
     fp_classificationID = k, fp_entryType = side, fp_amount = dString (envD E) (numericToDecimal E n)\<rparr>)"

definition entry_key :: "'d env \<Rightarrow> 'd resolvedEntry \<Rightarrow> entryDimKey \<times> int" where
  "entry_key E r = ((ei_AccountHolder r, re_currencyID r, re_classificationID r, ei_EntryType r),
     units (envD E) (ei_Amount r))"

lemma fingerprint_of_inj: "store_env E \<Longrightarrow> inj (fingerprint_of E)"
  by (rule injI)
    (auto simp: fingerprint_of_def store_env_def decimal_lib.String store_env.numericToDecimal_val split: prod.splits)

lemma same_entries:
  assumes "store_env E" "sameJournalEntries E s rows es = Inr True" "resolveEntries s es = Inr rs"
    and "\<forall>r\<in>set rs. dval (envD E) (ei_Amount r) = unit_val (units (envD E) (ei_Amount r))"
  shows "mset (map (\<lambda>e. (rowDimKey e, er_Amount e)) rows) = mset (map (entry_key E) rs)"
proof -
  have D: "decimal_lib (envD E)" using assms(1) by (simp add: store_env_def)
  have "list_all2 (\<lambda>e r. resolveEntry s e = Inr r) es rs"
    using assms(3) by (simp add: resolveEntries_def mapR_Inr)
  then have "list_all2 (\<lambda>e f. inputFingerprint E s e = Inr f) es (map (\<lambda>r. fingerprint_of E (entry_key E r)) rs)"
    using assms(4)
    by (induction rule: list_all2_induct)
      (auto simp: inputFingerprint_resolved fingerprint_of_def entry_key_def decimal_lib.String [OF D]
        store_env.numericToDecimal_val [OF assms(1)])
  then have "mapR (inputFingerprint E s) es = Inr (map (\<lambda>r. fingerprint_of E (entry_key E r)) rs)"
    by (simp add: mapR_Inr)
  moreover have "rowFingerprint E e = fingerprint_of E (rowDimKey e, er_Amount e)" for e
    by (simp add: rowFingerprint_def fingerprint_of_def rowDimKey_def)
  ultimately have "sort_by fingerprintLess (map (\<lambda>e. fingerprint_of E (rowDimKey e, er_Amount e)) rows)
      = sort_by fingerprintLess (map (\<lambda>r. fingerprint_of E (entry_key E r)) rs)"
    using assms(2) by (auto simp: sameJournalEntries_def cong: map_cong split: if_splits)
  then have "mset (map (\<lambda>e. fingerprint_of E (rowDimKey e, er_Amount e)) rows)
      = mset (map (\<lambda>r. fingerprint_of E (entry_key E r)) rs)"
    by (metis mset_sort_by)
  then have "image_mset (fingerprint_of E) (mset (map (\<lambda>e. (rowDimKey e, er_Amount e)) rows))
      = image_mset (fingerprint_of E) (mset (map (entry_key E) rs))"
    by (simp add: multiset.map_comp comp_def)
  then show ?thesis using multiset.inj_map [OF fingerprint_of_inj [OF assms(1)]] by (simp only: inj_eq)
qed

lemma inputs_resolve:
  "mapR (inputFingerprint E s) es = Inr fs \<Longrightarrow> \<exists>rs. resolveEntries s es = Inr rs"
proof (induction es arbitrary: fs)
  case (Cons e es)
  have "\<exists>r. resolveEntry s e = Inr r" if "inputFingerprint E s e = Inr f" for f
    using that by (auto simp: inputFingerprint_def resolveEntry_def)
  with Cons show ?case by (fastforce simp: resolveEntries_def)
qed (simp add: resolveEntries_def)

text \<open>C3. An idempotency key answers for its payload only: when a request under a used key is accepted,
  nothing changes and the stored journal has the request's type, actor, source, links and metadata,
  its effective date where one is given, and the same entries up to order. Every other request under
  the key is refused.\<close>

theorem used_key_keeps_payload:
  assumes "store_env E" "ledger_ok E s" "PostJournal E input s = Inr (j, t)"
    and "GetJournalByIdempotencyKey s (ji_IdempotencyKey input) = Some row"
  shows "t = s \<and> journalFromRow E s row = Inr j
    \<and> jn_JournalTypeUID j = ji_JournalTypeUID input \<and> jn_ActorID j = ji_ActorID input
    \<and> jn_Source j = ji_Source input \<and> jn_EventUID j = ji_EventUID input
    \<and> jn_ReversalOfUID j = ji_ReversalOfUID input
    \<and> metadataToJSON (jn_Metadata j) = metadataToJSON (ji_Metadata input)
    \<and> (IsZeroTime (ji_EffectiveAt input) \<or> jn_EffectiveAt j = TruncateTime (ji_EffectiveAt input) microsecond)
    \<and> (\<exists>rs. resolveEntries s (ji_Entries input) = Inr rs
        \<and> mset (map (\<lambda>e. (rowDimKey e, er_Amount e)) (ListJournalEntries s (jr_ID row))) = mset (map (entry_key E) rs))"
proof -
  have D: "decimal_lib (envD E)" using assms(1) by (simp add: store_env_def)
  have v: "JournalInput_Validate (envD E) (envJ E) (envNow E) input = Inr ()"
    using assms(3) by (simp add: PostJournal_def)
  obtain auth where post: "postJournalWithQueries E input (resolveEffectiveAt E (ji_EffectiveAt input)) auth s = Inr (j, t)"
    by (rule PostJournal_Inr [OF assms(3)])
  note m = post_existing [OF post assms(4)]
  have same: "sameJournalEntries E s (ListJournalEntries s (jr_ID row)) (ji_Entries input) = Inr True"
    and j: "journalFromRow E s row = Inr j"
    using m(2) by (auto simp: ensureJournalMatchesInput_def Let_def split: if_splits)
  then obtain rs where r: "resolveEntries s (ji_Entries input) = Inr rs"
    using inputs_resolve by (fastforce simp: sameJournalEntries_def split: if_splits)
  have "dims_unique s" using assms(2) by (simp add: ledger_ok_def dims_ok_def)
  from resolveEntries_ok [OF r this] have vals:
    "\<forall>r\<in>set rs. dval (envD E) (ei_Amount r) = unit_val (units (envD E) (ei_Amount r))"
    using decimal_lib.valid_units(1) [OF D v] by (metis in_set_conv_nth list_all2_conv_all_nth resolved_ok_def)
  have row: "jn_ActorID j = jr_ActorID row" "jn_Source j = jr_Source row" "jn_EffectiveAt j = jr_EffectiveAt row"
    using j by (auto simp: journalFromRow_def)
  show ?thesis
    using m j r same_entries [OF assms(1) same r vals] row
    by (auto simp: ensureJournalMatchesInput_def Let_def split: if_splits)
qed

theorem used_key_keeps_payload_witness:
  "journalFromRow ref_env posted_ledger (hd (dbJournals posted_ledger)) = Inr posted_journal"
proof -
  have run: "PostJournal ref_env (deposit ''d1'' 7 1050) posted_ledger = Inr (posted_journal, posted_ledger)"
    by code_simp
  have "GetJournalByIdempotencyKey posted_ledger (ji_IdempotencyKey (deposit ''d1'' 7 1050))
      = Some (hd (dbJournals posted_ledger))"
    by (simp add: GetJournalByIdempotencyKey_def posted_ledger_def deposit_def)
  from used_key_keeps_payload [OF renv.store_env_axioms ledger_ok_posted run this] show ?thesis by blast
qed

end
