(* ===== verification/Balances.thy ===== *)
theory Balances
  imports Posting
begin

text \<open>
  The balance reads of \<^verbatim>\<open>postgres/ledger_store.go\<close>: one dimension as checkpoint plus delta
  (\<^verbatim>\<open>GetBalance\<close>), all classifications of many holders by one query (\<^verbatim>\<open>GetBalances\<close>,
  \<^verbatim>\<open>BatchGetBalances\<close>), and the liquidity view by balance role with the reservation holds
  (\<^verbatim>\<open>GetBalanceBreakdown\<close>). Each is related to \<open>ledger_balance\<close>, the sum of all entries of a
  dimension. The query walks the classifications of a holder by repeated minima; it is shown to
  visit every one exactly once.
\<close>

section \<open>The computed balances query\<close>

record 'd Balance =
  bal_AccountHolder :: int
  bal_CurrencyUID :: string
  bal_ClassificationUID :: string
  bal_Balance :: 'd

record ComputedBalanceRow =
  cb_AccountHolder :: int
  cb_ClassificationID :: int
  cb_ClassificationUid :: string
  cb_BalanceRole :: BalanceRole
  cb_Balance :: int

definition ledger_signed_amount :: "NormalSide \<Rightarrow> EntryType \<Rightarrow> int \<Rightarrow> int result" where
  "ledger_signed_amount normalSide entryType amount =
     (if normalSide = NormalSideDebit \<and> entryType = EntryTypeDebit then Inr amount
      else if normalSide = NormalSideDebit \<and> entryType = EntryTypeCredit then Inr (- amount)
      else if normalSide = NormalSideCredit \<and> entryType = EntryTypeCredit then Inr amount
      else if normalSide = NormalSideCredit \<and> entryType = EntryTypeDebit then Inr (- amount)
      else Inl [])"

text \<open>The classifications a holder has entries in, and the smallest one above a bound.\<close>

definition holderClasses :: "db \<Rightarrow> int \<Rightarrow> int \<Rightarrow> int list" where
  "holderClasses s holder currencyID =
     map er_ClassificationID
       (filter (\<lambda>e. er_AccountHolder e = holder \<and> er_CurrencyID e = currencyID) (dbEntries s))"

definition above :: "int option \<Rightarrow> int \<Rightarrow> bool" where
  "above p k = (case p of None \<Rightarrow> True | Some q \<Rightarrow> q < k)"

definition minClassAbove :: "db \<Rightarrow> int \<Rightarrow> int \<Rightarrow> int option \<Rightarrow> int option" where
  "minClassAbove s holder currencyID p =
     (case filter (above p) (holderClasses s holder currencyID) of
        [] \<Rightarrow> None | k # ks \<Rightarrow> Some (fold min ks k))"

lemma minClassAbove_eq:
  "minClassAbove s h c p = (let K = {k \<in> set (holderClasses s h c). above p k}
     in if K = {} then None else Some (Min K))"
proof (cases "filter (above p) (holderClasses s h c)")
  case Nil
  then show ?thesis by (auto simp: minClassAbove_def filter_empty_conv Let_def)
next
  case (Cons k ks)
  have "set (k # ks) = {k \<in> set (holderClasses s h c). above p k}" by (simp flip: Cons)
  then show ?thesis
    using Cons Min.set_eq_fold [of k ks] by (auto simp: minClassAbove_def Let_def)
qed

lemma minClassAbove_Some:
  assumes "minClassAbove s h c p = Some k"
  shows "k \<in> set (holderClasses s h c)" "above p k"
    "\<And>l. l \<in> set (holderClasses s h c) \<Longrightarrow> above p l \<Longrightarrow> k \<le> l"
proof -
  let ?K = "{k \<in> set (holderClasses s h c). above p k}"
  have k: "?K \<noteq> {}" "k = Min ?K"
    using assms by (auto simp: minClassAbove_eq Let_def split: if_splits)
  with Min_in [of ?K] show "k \<in> set (holderClasses s h c)" "above p k" by simp_all
  show "k \<le> l" if "l \<in> set (holderClasses s h c)" "above p l" for l
    using that k(2) by (simp add: Min_le)
qed

lemma minClassAbove_None:
  "minClassAbove s h c p = None \<longleftrightarrow> (\<forall>k\<in>set (holderClasses s h c). \<not> above p k)"
  by (auto simp: minClassAbove_eq Let_def)

text \<open>The recursive part of the query.\<close>

function populated :: "db \<Rightarrow> int \<Rightarrow> int \<Rightarrow> int option \<Rightarrow> int list" where
  "populated s holder currencyID p =
     (case minClassAbove s holder currencyID p of
        None \<Rightarrow> [] | Some k \<Rightarrow> k # populated s holder currencyID (Some k))"
  by pat_completeness auto

termination populated
proof (relation "measure (\<lambda>(s, h, c, p). card {k \<in> set (holderClasses s h c). above p k})")
  fix s h c p k
  assume "minClassAbove s h c p = Some k"
  note m = minClassAbove_Some [OF this]
  have "{l \<in> set (holderClasses s h c). above (Some k) l} \<subset> {l \<in> set (holderClasses s h c). above p l}"
    using m by (fastforce simp: above_def split: option.splits)
  then show "((s, h, c, Some k), s, h, c, p) \<in> measure (\<lambda>(s, h, c, p). card {k \<in> set (holderClasses s h c). above p k})"
    by (simp add: psubset_card_mono)
qed simp

declare populated.simps [simp del]

definition balanceDelta :: "db \<Rightarrow> int \<Rightarrow> int \<Rightarrow> ClassificationRow \<Rightarrow> int \<Rightarrow> int result" where
  "balanceDelta s holder currencyID c sinceEntryID =
     foldR (\<lambda>sum e. bindR (ledger_signed_amount (cls_NormalSide c) (er_EntryType e) (er_Amount e))
         (\<lambda>a. Inr (sum + a))) 0
       (filter (\<lambda>e. on_dim holder currencyID (cls_ID c) e \<and> sinceEntryID < er_ID e) (dbEntries s))"

definition computedRow :: "db \<Rightarrow> int \<Rightarrow> int \<times> ClassificationRow \<Rightarrow> ComputedBalanceRow result" where
  "computedRow s currencyID hc =
     (case hc of (holder, c) \<Rightarrow>
        let cp = GetBalanceCheckpoint s holder currencyID (cls_ID c)
        in bindR (balanceDelta s holder currencyID c
               (case cp of None \<Rightarrow> 0 | Some p \<Rightarrow> cp_LastEntryID p)) (\<lambda>delta.
             Inr \<lparr>cb_AccountHolder = holder, cb_ClassificationID = cls_ID c,
               cb_ClassificationUid = cls_UID c, cb_BalanceRole = cls_BalanceRole c,
               cb_Balance = (case cp of None \<Rightarrow> 0 | Some p \<Rightarrow> cp_Balance p) + delta\<rparr>))"

definition ListComputedBalancesForHolders :: "db \<Rightarrow> int \<Rightarrow> int list \<Rightarrow> ComputedBalanceRow list result" where
  "ListComputedBalancesForHolders s currencyID holderIds =
     mapR (computedRow s currencyID)
       (sort_key (\<lambda>(h, c). (h, cls_ID c))
         (concat (map (\<lambda>h. concat (map (\<lambda>k. case GetClassification s k of None \<Rightarrow> [] | Some c \<Rightarrow> [(h, c)])
             (populated s h currencyID None))) holderIds)))"

section \<open>The reads\<close>

definition computedBalances ::
  "'d env \<Rightarrow> db \<Rightarrow> int list \<Rightarrow> int \<Rightarrow> string \<Rightarrow> (int \<times> 'd Balance list) list result" where
  "computedBalances E s holderIDs currencyID currencyUID =
     (let result = map (\<lambda>h. (h, [])) (dedupe holderIDs)
      in if holderIDs = [] then Inr result
         else bindR (ListComputedBalancesForHolders s currencyID holderIDs) (\<lambda>rows.
           Inr (foldl (\<lambda>m row. map (\<lambda>(h, bs). if h = cb_AccountHolder row
                 then (h, bs @ [\<lparr>bal_AccountHolder = cb_AccountHolder row, bal_CurrencyUID = currencyUID,
                        bal_ClassificationUID = cb_ClassificationUid row,
                        bal_Balance = numericToDecimal E (cb_Balance row)\<rparr>])
                 else (h, bs)) m) result rows)))"

definition GetBalances :: "'d env \<Rightarrow> db \<Rightarrow> int \<Rightarrow> string \<Rightarrow> 'd Balance list result" where
  "GetBalances E s holder currencyUID =
     bindR (currencyOfUID s currencyUID) (\<lambda>cur.
     bindR (computedBalances E s [holder] (dc_ID cur) currencyUID) (\<lambda>result.
       Inr (case map_of result holder of None \<Rightarrow> [] | Some bs \<Rightarrow> bs)))"

definition BatchGetBalances ::
  "'d env \<Rightarrow> db \<Rightarrow> int list \<Rightarrow> string \<Rightarrow> (int \<times> 'd Balance list) list result" where
  "BatchGetBalances E s holderIDs currencyUID =
     bindR (currencyOfUID s currencyUID) (\<lambda>cur.
       computedBalances E s holderIDs (dc_ID cur) currencyUID)"

definition sumBalancesByRoleWithQueries :: "'d env \<Rightarrow> db \<Rightarrow> int \<Rightarrow> int \<Rightarrow> (BalanceRole \<times> 'd) list result" where
  "sumBalancesByRoleWithQueries E s holder currencyID =
     bindR (ListComputedBalancesForHolders s currencyID [holder]) (\<lambda>rows.
       let D = envD E
       in Inr (foldl (\<lambda>m row.
            if cb_BalanceRole row = BalanceRoleNone then m
            else addAt D (cb_BalanceRole row) (numericToDecimal E (cb_Balance row)) m)
          [(BalanceRoleAvailable, dZero D), (BalanceRolePending, dZero D), (BalanceRoleLocked, dZero D)]
          rows))"

definition getBalanceBreakdownWithQueries ::
  "'d env \<Rightarrow> db \<Rightarrow> int \<Rightarrow> int \<Rightarrow> string \<Rightarrow> 'd BalanceBreakdown result" where
  "getBalanceBreakdownWithQueries E s holder currencyID currencyUID =
     (let D = envD E
      in bindR (sumBalancesByRoleWithQueries E s holder currencyID) (\<lambda>roleSums.
        let held = numericToDecimal E (SumActiveReservations s holder currencyID);
            available = dSub D (valAt D roleSums BalanceRoleAvailable) held;
            pending = valAt D roleSums BalanceRolePending;
            locked = dAdd D (valAt D roleSums BalanceRoleLocked) held
        in Inr \<lparr>bb_AccountHolder = holder, bb_CurrencyUID = currencyUID, bb_Available = available,
             bb_Pending = pending, bb_Locked = locked,
             bb_Total = dAdd D (dAdd D available locked) pending\<rparr>))"

definition GetBalanceBreakdown :: "'d env \<Rightarrow> db \<Rightarrow> int \<Rightarrow> string \<Rightarrow> 'd BalanceBreakdown result" where
  "GetBalanceBreakdown E s holder currencyUID =
     bindR (currencyOfUID s currencyUID) (\<lambda>cur.
       getBalanceBreakdownWithQueries E s holder (dc_ID cur) currencyUID)"

section \<open>Lemmas\<close>

lemma populated_eq: "populated s h c p = sorted_list_of_set {k \<in> set (holderClasses s h c). above p k}"
proof (induction s h c p rule: populated.induct)
  case (1 s h c p)
  let ?K = "{k \<in> set (holderClasses s h c). above p k}"
  show ?case
  proof (cases "minClassAbove s h c p")
    case None
    then have "?K = {}" by (simp add: minClassAbove_None)
    with None show ?thesis by (simp only: populated.simps [of s h c p]) simp
  next
    case (Some k)
    then have k: "?K \<noteq> {}" "k = Min ?K" by (auto simp: minClassAbove_eq Let_def split: if_splits)
    have "{l \<in> set (holderClasses s h c). above (Some k) l} = ?K - {k}"
      using minClassAbove_Some [OF Some] by (fastforce simp: above_def split: option.splits)
    with 1 [OF Some] k Some sorted_list_of_set_nonempty [of ?K] show ?thesis
      by (simp add: populated.simps [of s h c p])
  qed
qed

lemma checkpoint_delta:
  assumes "ledger_ok E s"
  shows "(case GetBalanceCheckpoint s h c k of None \<Rightarrow> 0 | Some p \<Rightarrow> cp_Balance p)
     + (\<Sum>e\<leftarrow>filter (\<lambda>e. on_dim h c k e
          \<and> (case GetBalanceCheckpoint s h c k of None \<Rightarrow> 0 | Some p \<Rightarrow> cp_LastEntryID p) < er_ID e) (dbEntries s).
         signed_entry (normal_side_of s k) e)
     = ledger_balance s h c k"
proof (cases "GetBalanceCheckpoint s h c k")
  case None
  have "filter (\<lambda>e. on_dim h c k e \<and> 0 < er_ID e) (dbEntries s) = filter (on_dim h c k) (dbEntries s)"
    using assms by (intro filter_cong) (auto simp: ledger_ok_def ids_ok_def)
  with None show ?thesis by (simp add: ledger_balance_def)
next
  case (Some cp)
  then have "cp \<in> set (dbCheckpoints s)" "cp_AccountHolder cp = h" "cp_CurrencyID cp = c" "cp_ClassificationID cp = k"
    by (auto simp: GetBalanceCheckpoint_def dest!: find_Some_mem)
  with assms have "cp_Balance cp = (\<Sum>e\<leftarrow>filter (\<lambda>e. on_dim h c k e \<and> er_ID e \<le> cp_LastEntryID cp) (dbEntries s).
          signed_entry (normal_side_of s k) e)"
    by (auto simp: ledger_ok_def checkpoint_ok_def)
  moreover have "(\<Sum>e\<leftarrow>filter (\<lambda>e. on_dim h c k e \<and> er_ID e \<le> n) es. f e)
      + (\<Sum>e\<leftarrow>filter (\<lambda>e. on_dim h c k e \<and> n < er_ID e) es. f e) = (\<Sum>e\<leftarrow>filter (on_dim h c k) es. f e)"
    for n es and f :: "EntryRow \<Rightarrow> int"
    by (induction es) auto
  ultimately show ?thesis using Some by (simp add: ledger_balance_def)
qed

lemma ledger_signed_amount_signed:
  assumes "NormalSide_IsValid n" "EntryType_IsValid (er_EntryType e)"
  shows "ledger_signed_amount n (er_EntryType e) (er_Amount e) = Inr (signed_entry n e)"
  using assms by (auto simp: ledger_signed_amount_def signed_entry_def NormalSide_IsValid_def
      EntryType_IsValid_def side_names)

lemma class_row:
  assumes "dims_ok s" "cl \<in> set (dbClassifications s)"
  shows "GetClassification s (cls_ID cl) = Some cl" "normal_side_of s (cls_ID cl) = cls_NormalSide cl"
    "NormalSide_IsValid (cls_NormalSide cl)"
proof -
  have "distinct (map cls_ID (dbClassifications s))"
    using assms(1) by (simp add: dims_ok_def dims_unique_def ListClassificationDims_def comp_def classDim_def)
  from find_unique [OF this assms(2)] show "GetClassification s (cls_ID cl) = Some cl"
    by (simp add: GetClassification_def)
  then show "normal_side_of s (cls_ID cl) = cls_NormalSide cl" by (simp add: normal_side_of_def)
  show "NormalSide_IsValid (cls_NormalSide cl)" using assms by (simp add: dims_ok_def)
qed

lemma balanceDelta_eq:
  assumes "ledger_ok E s" "cl \<in> set (dbClassifications s)"
  shows "balanceDelta s h c cl n = Inr (\<Sum>e\<leftarrow>filter (\<lambda>e. on_dim h c (cls_ID cl) e \<and> n < er_ID e) (dbEntries s).
      signed_entry (normal_side_of s (cls_ID cl)) e)"
proof -
  have cl: "normal_side_of s (cls_ID cl) = cls_NormalSide cl" "NormalSide_IsValid (cls_NormalSide cl)"
    using class_row [OF _ assms(2)] assms(1) by (simp_all add: ledger_ok_def)
  have "foldR (\<lambda>sum e. bindR (ledger_signed_amount (cls_NormalSide cl) (er_EntryType e) (er_Amount e))
         (\<lambda>a. Inr (sum + a))) x es = Inr (x + (\<Sum>e\<leftarrow>es. signed_entry (cls_NormalSide cl) e))"
    if "\<forall>e\<in>set es. EntryType_IsValid (er_EntryType e)" for es x
    using that by (induction es arbitrary: x) (simp_all add: ledger_signed_amount_signed cl(2) add_ac)
  moreover have "\<forall>e\<in>set (dbEntries s). EntryType_IsValid (er_EntryType e)"
    using assms(1) by (simp add: ledger_ok_def entry_ok_def)
  ultimately show ?thesis by (simp add: balanceDelta_def cl(1))
qed

text \<open>The row of the query, and the balances of one holder in the order of the classification ids.\<close>

definition balance_row :: "db \<Rightarrow> int \<Rightarrow> int \<Rightarrow> ClassificationRow \<Rightarrow> ComputedBalanceRow" where
  "balance_row s c h cl = \<lparr>cb_AccountHolder = h, cb_ClassificationID = cls_ID cl,
     cb_ClassificationUid = cls_UID cl, cb_BalanceRole = cls_BalanceRole cl,
     cb_Balance = ledger_balance s h c (cls_ID cl)\<rparr>"

definition class_rows :: "db \<Rightarrow> int \<Rightarrow> int \<Rightarrow> ClassificationRow list" where
  "class_rows s h c = map (\<lambda>k. the (GetClassification s k)) (sorted_list_of_set (set (holderClasses s h c)))"

lemma computedRow_eq:
  assumes "ledger_ok E s" "cl \<in> set (dbClassifications s)"
  shows "computedRow s c (h, cl) = Inr (balance_row s c h cl)"
  using checkpoint_delta [OF assms(1), of h c "cls_ID cl"] balanceDelta_eq [OF assms, of h c]
  by (simp add: computedRow_def balance_row_def Let_def)

lemma class_rows_known:
  assumes "ledger_ok E s"
  shows "k \<in> set (holderClasses s h c) \<Longrightarrow> \<exists>cl\<in>set (dbClassifications s). GetClassification s k = Some cl \<and> cls_ID cl = k"
    "cl \<in> set (class_rows s h c) \<Longrightarrow> cl \<in> set (dbClassifications s)"
    "map cls_ID (class_rows s h c) = sorted_list_of_set (set (holderClasses s h c))"
proof -
  have dims: "dims_ok s" using assms by (simp add: ledger_ok_def)
  have known: "\<exists>cl\<in>set (dbClassifications s). GetClassification s k = Some cl \<and> cls_ID cl = k"
    if "k \<in> set (holderClasses s h c)" for k
    using that assms class_row(1) [OF dims] by (fastforce simp: holderClasses_def ledger_ok_def entry_ok_def)
  then show "k \<in> set (holderClasses s h c) \<Longrightarrow> \<exists>cl\<in>set (dbClassifications s). GetClassification s k = Some cl \<and> cls_ID cl = k" .
  show "cl \<in> set (class_rows s h c) \<Longrightarrow> cl \<in> set (dbClassifications s)"
    using known by (fastforce simp: class_rows_def)
  have "map (\<lambda>k. cls_ID (the (GetClassification s k))) (sorted_list_of_set (set (holderClasses s h c)))
      = sorted_list_of_set (set (holderClasses s h c))"
    using known by (intro map_idI) fastforce
  then show "map cls_ID (class_rows s h c) = sorted_list_of_set (set (holderClasses s h c))"
    by (simp add: class_rows_def comp_def)
qed

lemma joined_rows:
  assumes "ledger_ok E s"
  shows "concat (map (\<lambda>k. case GetClassification s k of None \<Rightarrow> [] | Some cl \<Rightarrow> [(h, cl)]) (populated s h c None))
     = map (Pair h) (class_rows s h c)"
proof -
  have p: "populated s h c None = sorted_list_of_set (set (holderClasses s h c))"
    by (simp add: populated_eq above_def)
  have "concat (map (\<lambda>k. case GetClassification s k of None \<Rightarrow> [] | Some cl \<Rightarrow> [(h, cl)]) ks)
      = map (\<lambda>k. (h, the (GetClassification s k))) ks" if "\<forall>k\<in>set ks. GetClassification s k \<noteq> None" for ks
    using that by (induction ks) auto
  moreover have "\<forall>k\<in>set (sorted_list_of_set (set (holderClasses s h c))). GetClassification s k \<noteq> None"
    using class_rows_known(1) [OF assms] by fastforce
  ultimately show ?thesis by (simp add: p class_rows_def)
qed

lemma mset_copies: "mset (concat (replicate n xs)) = mset (concat (map (replicate n) xs))"
proof -
  have "mset (concat (replicate n xs)) = repeat_mset n (mset xs)"
    by (induction n) simp_all
  also have "\<dots> = mset (concat (map (replicate n) xs))"
    by (induction xs) (simp_all add: repeat_mset_distrib2)
  finally show ?thesis .
qed

lemma sorted_copies: "sorted (map f xs) \<Longrightarrow> sorted (map f (concat (map (replicate n) xs)))"
proof (induction xs)
  case (Cons x xs)
  then show ?case by (auto simp: sorted_append map_replicate_const sorted_replicate)
qed simp

lemma sort_key_copies:
  assumes "sorted (map f xs)" "inj_on f (set xs)"
  shows "sort_key f (concat (replicate n xs)) = concat (map (replicate n) xs)"
proof (rule sort_key_inj_key_eq)
  have "set (concat (replicate n xs)) \<subseteq> set xs" by auto
  then show "inj_on f (set (concat (replicate n xs)))" by (rule inj_on_subset [OF assms(2)])
qed (simp_all add: mset_copies sorted_copies assms(1))

lemma concat_map_filter_eq:
  "filter (\<lambda>x. fst x = h) (concat (map (\<lambda>h. map (Pair h) (f h)) hs))
     = concat (replicate (count_list hs h) (map (Pair h) (f h)))"
proof (induction hs)
  case (Cons a hs)
  have "filter (\<lambda>x. fst x = h) (map (Pair a) (f a)) = (if a = h then map (Pair h) (f h) else [])"
    by (auto simp: filter_id_conv filter_empty_conv)
  with Cons show ?case by simp
qed simp

lemma mapR_map: "\<forall>x\<in>set xs. f x = Inr (g x) \<Longrightarrow> mapR f xs = Inr (map g xs)"
  by (simp add: mapR_Inr list_all2_conv_all_nth)

lemma sorted_pairs: "sorted (map f xs) \<Longrightarrow> sorted (map (\<lambda>x. (h :: int, f x :: int)) xs)"
  by (induction xs) (auto simp: less_eq_prod_def)

lemma ListComputedBalances_ok:
  assumes "ledger_ok E s"
  shows "\<exists>rows. ListComputedBalancesForHolders s c hs = Inr rows
    \<and> (\<forall>h. filter (\<lambda>r. cb_AccountHolder r = h) rows
       = concat (map (replicate (count_list hs h)) (map (balance_row s c h) (class_rows s h c))))
    \<and> cb_AccountHolder ` set rows \<subseteq> set hs"
proof -
  let ?key = "\<lambda>x. (fst x, cls_ID (snd x))" and ?row = "\<lambda>x. balance_row s c (fst x) (snd x)"
  let ?all = "concat (map (\<lambda>h. map (Pair h) (class_rows s h c)) hs)"
  have all: "ListComputedBalancesForHolders s c hs = mapR (computedRow s c) (sort_key ?key ?all)"
    by (simp add: ListComputedBalancesForHolders_def joined_rows [OF assms] case_prod_unfold)
  also have "\<dots> = Inr (map ?row (sort_key ?key ?all))"
    using class_rows_known(2) [OF assms] computedRow_eq [OF assms] by (intro mapR_map) auto
  finally have rows: "ListComputedBalancesForHolders s c hs = Inr (map ?row (sort_key ?key ?all))" .
  have one: "filter (\<lambda>r. cb_AccountHolder r = h) (map ?row (sort_key ?key ?all))
      = concat (map (replicate (count_list hs h)) (map (balance_row s c h) (class_rows s h c)))" for h
  proof -
    have k: "map ?key (map (Pair h) (class_rows s h c)) = map (Pair h) (map cls_ID (class_rows s h c))" by simp
    have srt: "sorted (map ?key (map (Pair h) (class_rows s h c)))"
      using sorted_pairs [of cls_ID "class_rows s h c" h] by (simp add: comp_def class_rows_known(3) [OF assms])
    have "distinct (map ?key (map (Pair h) (class_rows s h c)))"
      unfolding k class_rows_known(3) [OF assms] by (simp add: distinct_map inj_on_def)
    then have inj: "inj_on ?key (set (map (Pair h) (class_rows s h c)))" by (simp only: distinct_map)
    have "filter (\<lambda>r. cb_AccountHolder r = h) (map ?row (sort_key ?key ?all))
        = map ?row (sort_key ?key (filter (\<lambda>x. fst x = h) ?all))"
      by (simp add: filter_map comp_def balance_row_def filter_sort)
    also have "\<dots> = map ?row (concat (map (replicate (count_list hs h)) (map (Pair h) (class_rows s h c))))"
      by (simp only: concat_map_filter_eq sort_key_copies [OF srt inj])
    finally show ?thesis by (simp add: map_concat comp_def map_replicate)
  qed
  have "cb_AccountHolder ` set (map ?row (sort_key ?key ?all)) \<subseteq> set hs"
    by (auto simp: balance_row_def)
  with rows one show ?thesis by blast
qed

lemma append_by_holder:
  "map_of (foldl (\<lambda>m row. map (\<lambda>(h, bs). if h = f row then (h, bs @ [g row]) else (h, bs)) m) m rows) h
     = map_option (\<lambda>bs. bs @ map g (filter (\<lambda>row. f row = h) rows)) (map_of m h)"
proof (induction rows arbitrary: m)
  case Nil
  show ?case by (simp add: map_option.identity [unfolded id_def])
next
  case (Cons row rows)
  have "map_of (map (\<lambda>(h, bs). if h = f row then (h, bs @ [g row]) else (h, bs)) m) h
      = map_option (\<lambda>bs. if h = f row then bs @ [g row] else bs) (map_of m h)"
    by (induction m) auto
  with Cons show ?case by (cases "map_of m h") auto
qed

section \<open>One dimension\<close>

text \<open>What a side has moved since the checkpoint of a dimension.\<close>

definition side_since :: "db \<Rightarrow> EntryType \<Rightarrow> int \<Rightarrow> int \<Rightarrow> int \<Rightarrow> int" where
  "side_since s side h c k = (\<Sum>e\<leftarrow>filter (\<lambda>e. on_dim h c k e \<and> er_EntryType e = side
       \<and> (case GetBalanceCheckpoint s h c k of None \<Rightarrow> 0 | Some p \<Rightarrow> cp_LastEntryID p) < er_ID e) (dbEntries s).
     er_Amount e)"

lemma sum_single:
  fixes g :: "'a \<Rightarrow> 'b::comm_monoid_add"
  shows "distinct xs \<Longrightarrow> (\<Sum>x\<leftarrow>xs. if x = a then g x else 0) = (if a \<in> set xs then g a else 0)"
  by (induction xs) auto

lemma group_total:
  "(\<Sum>(t, n)\<leftarrow>SumEntriesSinceForClassification s h c k since. if t = side then n else 0)
     = (\<Sum>e\<leftarrow>filter (\<lambda>e. on_dim h c k e \<and> er_EntryType e = side \<and> since < er_ID e) (dbEntries s). er_Amount e)"
proof -
  let ?rows = "filter (\<lambda>e. on_dim h c k e \<and> since < er_ID e) (dbEntries s)"
  let ?f = "\<lambda>t. \<Sum>e\<leftarrow>filter (\<lambda>e. er_EntryType e = t) ?rows. er_Amount e"
  have "(\<Sum>(t, n)\<leftarrow>SumEntriesSinceForClassification s h c k since. if t = side then n else 0)
      = (\<Sum>t\<leftarrow>remdups (map er_EntryType ?rows). if t = side then ?f t else 0)"
    by (simp only: SumEntriesSinceForClassification_def Let_def map_map comp_def prod.case)
  also have "\<dots> = (if side \<in> er_EntryType ` set ?rows then ?f side else 0)"
    by (subst sum_single) auto
  also have "\<dots> = ?f side" by (auto simp: filter_empty_conv intro!: sum_list_zero)
  finally show ?thesis by (simp add: conj_ac)
qed

definition small_exp :: "'d decimal_ops \<Rightarrow> 'd \<Rightarrow> bool" where
  "small_exp D d \<longleftrightarrow> - 18 \<le> dExponent D d \<and> dExponent D d \<le> 1"

context store_env
begin

lemma small_exp_add: "small_exp (envD E) d \<Longrightarrow> small_exp (envD E) (dAdd (envD E) d (numericToDecimal E n))"
  using NumericExp [of n]
  by (auto simp: small_exp_def Exponent_Add numericToDecimal_def Let_def Exponent_New)

lemma rescalable_small:
  assumes "small_exp (envD E) d" "dval (envD E) d = unit_val n"
  shows "validateAmountIsRescalable (envD E) d = (if \<bar>n\<bar> < 10 ^ 30 then Inr () else invalid)"
proof -
  let ?c = "dCoefficient (envD E) d" and ?e = "dExponent (envD E) d"
  have r: "validateAmountIsRescalable (envD E) d = Inr () \<longleftrightarrow> coefficientDigits ?c + ?e \<le> 12"
    using assms(1) by (simp add: validateAmountIsRescalable_exponent small_exp_def)
  have "\<bar>dval (envD E) d\<bar> < 10 ^ 12 \<longleftrightarrow> \<bar>n\<bar> < 10 ^ 30"
  proof -
    have "\<bar>unit_val n\<bar> = unit_val \<bar>n\<bar>" by (simp add: unit_val_def)
    moreover have "(10 :: rat) ^ 12 = unit_val (10 ^ 30)" by (simp add: unit_val_def)
    ultimately show ?thesis by (simp only: assms(2) unit_val_order)
  qed
  moreover have "coefficientDigits ?c + ?e \<le> 12 \<longleftrightarrow> \<bar>dval (envD E) d\<bar> < 10 ^ 12"
  proof (cases "?c = 0")
    case True
    then have "coefficientDigits ?c \<le> int 1" by (subst coefficientDigits_le) simp
    with True assms(1) show ?thesis by (simp add: dval_def small_exp_def)
  next
    case False
    then show ?thesis
      using digits_bound [of ?c ?e 12] digits_bound_conv [OF False, of ?e 12] by (auto simp: dval_def)
  qed
  moreover have "validateAmountIsRescalable (envD E) d = Inr () \<or> validateAmountIsRescalable (envD E) d = invalid"
    by (auto simp: validateAmountIsRescalable_def Let_def)
  ultimately show ?thesis using r by auto
qed

lemma sumGroup_fold:
  assumes "small_exp (envD E) d" "small_exp (envD E) c"
  shows "small_exp (envD E) (fst (foldl (sumGroup E) (d, c) gs))" "small_exp (envD E) (snd (foldl (sumGroup E) (d, c) gs))"
    "dval (envD E) (fst (foldl (sumGroup E) (d, c) gs))
       = dval (envD E) d + unit_val (\<Sum>(t, n)\<leftarrow>gs. if t = EntryTypeDebit then n else 0)"
    "dval (envD E) (snd (foldl (sumGroup E) (d, c) gs))
       = dval (envD E) c + unit_val (\<Sum>(t, n)\<leftarrow>gs. if t = EntryTypeCredit then n else 0)"
  using assms
  by (induction gs arbitrary: d c)
    (auto simp: sumGroup_def small_exp_add Add numericToDecimal_val unit_val_simps side_names)

lemma Delta_units:
  assumes "NormalSide_IsValid n" "small_exp (envD E) d" "small_exp (envD E) c"
    and "dval (envD E) d = unit_val i" "dval (envD E) c = unit_val j" "0 \<le> i" "0 \<le> j"
  shows "if i < 10 ^ 30 \<and> j < 10 ^ 30
     then \<exists>x. Delta (envD E) n d c = Inr x \<and> dval (envD E) x = side_net n (unit_val i) (unit_val j)
     else Delta (envD E) n d c = invalid"
proof -
  have r: "validateAmountIsRescalable (envD E) d = (if i < 10 ^ 30 then Inr () else invalid)"
    "validateAmountIsRescalable (envD E) c = (if j < 10 ^ 30 then Inr () else invalid)"
    using assms(6,7) rescalable_small [OF assms(2,4)] rescalable_small [OF assms(3,5)] by simp_all
  have "\<exists>x. Delta (envD E) n d c = Inr x" if "i < 10 ^ 30 \<and> j < 10 ^ 30"
    using that assms(1) by (auto simp: Delta_def r SignedAmount_def Sign_def)
  moreover have "Delta (envD E) n d c = invalid" if "\<not> (i < 10 ^ 30 \<and> j < 10 ^ 30)"
    using that by (auto simp: Delta_def r)
  ultimately show ?thesis using Delta_val [of n d c] by (auto simp: assms(4,5))
qed

end

lemma signed_entry_split:
  assumes "NormalSide_IsValid n" "EntryType_IsValid (er_EntryType e)"
  shows "signed_entry n e =
     (if n = NormalSideDebit
      then (if er_EntryType e = EntryTypeDebit then er_Amount e else 0)
        - (if er_EntryType e = EntryTypeCredit then er_Amount e else 0)
      else (if er_EntryType e = EntryTypeCredit then er_Amount e else 0)
        - (if er_EntryType e = EntryTypeDebit then er_Amount e else 0))"
  using assms by (auto simp: signed_entry_def EntryType_IsValid_def NormalSide_IsValid_def side_names)

lemma side_since_net:
  assumes "ledger_ok E s" "NormalSide_IsValid (normal_side_of s k)"
  shows "side_net (normal_side_of s k) (unit_val (side_since s EntryTypeDebit h c k))
      (unit_val (side_since s EntryTypeCredit h c k))
     = unit_val (\<Sum>e\<leftarrow>filter (\<lambda>e. on_dim h c k e
          \<and> (case GetBalanceCheckpoint s h c k of None \<Rightarrow> 0 | Some p \<Rightarrow> cp_LastEntryID p) < er_ID e) (dbEntries s).
         signed_entry (normal_side_of s k) e)"
proof -
  have types: "\<forall>e\<in>set (dbEntries s). EntryType_IsValid (er_EntryType e)"
    using assms(1) by (simp add: ledger_ok_def entry_ok_def)
  let ?sum = "\<lambda>side es i. \<Sum>e\<leftarrow>filter (\<lambda>e. on_dim h c k e \<and> er_EntryType e = side \<and> i < er_ID e) es. er_Amount e"
  have "(\<Sum>e\<leftarrow>filter (\<lambda>e. on_dim h c k e \<and> i < er_ID e) es. signed_entry n e)
      = (if n = NormalSideDebit then ?sum EntryTypeDebit es i - ?sum EntryTypeCredit es i
         else ?sum EntryTypeCredit es i - ?sum EntryTypeDebit es i)"
    if "\<forall>e\<in>set es. EntryType_IsValid (er_EntryType e)" "NormalSide_IsValid n" for es i n
    using that(1)
  proof (induction es)
    case (Cons e es)
    then show ?case using signed_entry_split [OF that(2), of e] by auto
  qed simp
  from this [OF types assms(2)] show ?thesis by (simp add: side_since_def side_net_def unit_val_simps)
qed

lemma getBalanceWithQueries_eq:
  assumes "store_env E" "ledger_ok E s" "cl \<in> set (dbClassifications s)"
  shows "case getBalanceWithQueries E s h c (cls_ID cl) of
      Inr b \<Rightarrow> dval (envD E) b = unit_val (ledger_balance s h c (cls_ID cl))
        \<and> side_since s EntryTypeDebit h c (cls_ID cl) < 10 ^ 30
        \<and> side_since s EntryTypeCredit h c (cls_ID cl) < 10 ^ 30
    | Inl e \<Rightarrow> e = [ErrInvalidInput] \<and> (10 ^ 30 \<le> side_since s EntryTypeDebit h c (cls_ID cl)
        \<or> 10 ^ 30 \<le> side_since s EntryTypeCredit h c (cls_ID cl))"
proof -
  let ?D = "envD E" and ?cp = "GetBalanceCheckpoint s h c (cls_ID cl)" and ?k = "cls_ID cl"
  let ?since = "case ?cp of None \<Rightarrow> 0 | Some p \<Rightarrow> cp_LastEntryID p"
  let ?sums = "foldl (sumGroup E) (dZero ?D, dZero ?D) (SumEntriesSinceForClassification s h c ?k ?since)"
  have D: "decimal_lib ?D" using assms(1) by (simp add: store_env_def)
  note cl = class_row [OF _ assms(3)]
  have dims: "dims_ok s" using assms(2) by (simp add: ledger_ok_def)
  have z: "small_exp ?D (dZero ?D)" "dval ?D (dZero ?D) = 0"
    using decimal_lib.Exponent_Zero [OF D] decimal_lib.Zero [OF D] by (auto simp: small_exp_def)
  note sums = store_env.sumGroup_fold [OF assms(1) z(1,1), of "SumEntriesSinceForClassification s h c ?k ?since"]
  have vals: "dval ?D (fst ?sums) = unit_val (side_since s EntryTypeDebit h c ?k)"
    "dval ?D (snd ?sums) = unit_val (side_since s EntryTypeCredit h c ?k)"
    using sums(3,4) by (simp_all add: z(2) group_total side_since_def)
  have nonneg: "0 \<le> side_since s side h c ?k" for side
    unfolding side_since_def using assms(2)
    by (intro sum_list_nonneg) (auto simp: ledger_ok_def entry_ok_def)
  have cp: "dval ?D (case ?cp of None \<Rightarrow> dZero ?D | Some p \<Rightarrow> numericToDecimal E (cp_Balance p))
      = unit_val (case ?cp of None \<Rightarrow> 0 | Some p \<Rightarrow> cp_Balance p)"
    by (simp add: z(2) unit_val_simps store_env.numericToDecimal_val [OF assms(1)] split: option.splits)
  note delta = store_env.Delta_units [OF assms(1) cl(3) [OF dims] sums(1,2) vals nonneg nonneg]
  show ?thesis
  proof (cases "side_since s EntryTypeDebit h c ?k < 10 ^ 30 \<and> side_since s EntryTypeCredit h c ?k < 10 ^ 30")
    case True
    then obtain x where x: "Delta ?D (cls_NormalSide cl) (fst ?sums) (snd ?sums) = Inr x"
      and v: "dval ?D x = side_net (normal_side_of s ?k) (unit_val (side_since s EntryTypeDebit h c ?k))
        (unit_val (side_since s EntryTypeCredit h c ?k))"
      using delta cl(2) [OF dims] by auto
    let ?b = "case ?cp of None \<Rightarrow> dZero ?D | Some p \<Rightarrow> numericToDecimal E (cp_Balance p)"
    have "dval ?D (dAdd ?D ?b x) = unit_val (ledger_balance s h c ?k)"
      using side_since_net [OF assms(2), of ?k h c] cl(2,3) [OF dims]
      unfolding decimal_lib.Add [OF D] cp v checkpoint_delta [OF assms(2), symmetric] unit_val_simps(2)
      by simp
    moreover have "getBalanceWithQueries E s h c ?k = Inr (dAdd ?D ?b x)"
      by (simp add: getBalanceWithQueries_def Let_def case_prod_unfold cl(1) [OF dims] orErr_def x)
    ultimately show ?thesis using True by simp
  next
    case False
    then show ?thesis
      using delta by (auto simp: getBalanceWithQueries_def Let_def case_prod_unfold cl(1) [OF dims] orErr_def)
  qed
qed


text \<open>The ledger after one deposit, with a checkpoint of the wallet.\<close>

definition checkpointed_ledger :: db where
  "checkpointed_ledger = posted_ledger\<lparr>dbCheckpoints := [\<lparr>cp_AccountHolder = 7, cp_CurrencyID = 1,
     cp_ClassificationID = 2, cp_Balance = 10500000000000000000, cp_LastEntryID = 7, cp_LastEntryAt = 0,
     cp_UpdatedAt = 0\<rparr>]\<rparr>"

lemma ledger_ok_checkpointed: "ledger_ok ref_env checkpointed_ledger"
proof -
  have "checkpoint_ok checkpointed_ledger (hd (dbCheckpoints checkpointed_ledger))" by code_simp
  then show ?thesis
    using ledger_ok_posted
    by (simp add: checkpointed_ledger_def ledger_ok_def ids_ok_def uids_ok_def dims_ok_def dims_unique_def entry_ok_def
        balanced_ok_def journal_net_def reversals_ok_def reversed_amount_def posted_amount_def events_ok_def
        ListJournalEntries_def ListReversalEntriesByOriginal_def
        ListReversalsByOriginalJournalID_def ListCurrencyDims_def ListClassificationDims_def ListJournalTypeDims_def)
qed


section \<open>Many holders, and the liquidity view\<close>

definition holder_balances :: "'d env \<Rightarrow> db \<Rightarrow> int \<Rightarrow> int \<Rightarrow> string \<Rightarrow> 'd Balance list" where
  "holder_balances E s h c currencyUID =
     map (\<lambda>cl. \<lparr>bal_AccountHolder = h, bal_CurrencyUID = currencyUID, bal_ClassificationUID = cls_UID cl,
        bal_Balance = numericToDecimal E (ledger_balance s h c (cls_ID cl))\<rparr>) (class_rows s h c)"

lemma computedBalances_eq:
  assumes "ledger_ok E s"
  shows "\<exists>m. computedBalances E s hs c u = Inr m
    \<and> (\<forall>h. map_of m h = (if h \<in> set hs
       then Some (concat (map (replicate (count_list hs h)) (holder_balances E s h c u))) else None))"
proof -
  obtain rows where rows: "ListComputedBalancesForHolders s c hs = Inr rows"
    and of_h: "\<forall>h. filter (\<lambda>r. cb_AccountHolder r = h) rows
       = concat (map (replicate (count_list hs h)) (map (balance_row s c h) (class_rows s h c)))"
    using ListComputedBalances_ok [OF assms] by blast
  let ?bal = "\<lambda>row. \<lparr>bal_AccountHolder = cb_AccountHolder row, bal_CurrencyUID = u,
    bal_ClassificationUID = cb_ClassificationUid row, bal_Balance = numericToDecimal E (cb_Balance row)\<rparr>"
  have init: "map_of (map (\<lambda>h. (h, [])) xs) h = (if h \<in> set xs then Some [] else None)" for xs :: "int list" and h
    by (induction xs) auto
  have bals: "map ?bal (filter (\<lambda>r. cb_AccountHolder r = h) rows)
      = concat (map (replicate (count_list hs h)) (holder_balances E s h c u))" for h
    unfolding of_h [rule_format] by (simp add: map_concat comp_def map_replicate balance_row_def holder_balances_def)
  show ?thesis
  proof (cases "hs = []")
    case True
    then show ?thesis by (intro exI [of _ "[]"]) (simp add: computedBalances_def dedupe_def)
  next
    case False
    then have m: "computedBalances E s hs c u = Inr (foldl (\<lambda>m row. map (\<lambda>(h, bs). if h = cb_AccountHolder row
        then (h, bs @ [?bal row]) else (h, bs)) m) (map (\<lambda>h. (h, [])) (dedupe hs)) rows)"
      by (simp add: computedBalances_def rows)
    show ?thesis
      unfolding m by (simp add: append_by_holder [of "cb_AccountHolder" ?bal] init bals del: map_map)
  qed
qed

lemma concat_once [simp]: "concat (map (replicate (Suc 0)) xs) = xs"
  by (induction xs) simp_all

lemma currency_found:
  assumes "ledger_ok E s" "cur \<in> set (dbCurrencies s)"
  shows "currencyOfUID s (cur_UID cur) = Inr (currencyDim cur)" "dc_ID (currencyDim cur) = cur_ID cur"
proof -
  have "currencyDim cur \<in> set (ListCurrencyDims s)" using assms(2) by (simp add: ListCurrencyDims_def)
  then show "currencyOfUID s (cur_UID cur) = Inr (currencyDim cur)"
    using dims_unique_find(1) [of s "currencyDim cur"] assms(1) by (simp add: ledger_ok_def dims_ok_def currencyDim_def)
qed (simp add: currencyDim_def)

text \<open>C14. The batch read agrees with the books: for every requested holder it lists the classifications
  the holder has entries in, ascending by id, each with the balance \<open>ledger_balance\<close>, although the query
  finds them by repeated minima and adds only what follows the checkpoints. The single read lists each
  once; a batch lists a balance as often as the holder id occurs in the request.\<close>

theorem BatchGetBalances_exact:
  assumes "ledger_ok E s" "cur \<in> set (dbCurrencies s)"
  shows "\<exists>m. BatchGetBalances E s hs (cur_UID cur) = Inr m
    \<and> (\<forall>h. map_of m h = (if h \<in> set hs then Some (concat (map (replicate (count_list hs h))
          (holder_balances E s h (cur_ID cur) (cur_UID cur)))) else None))
    \<and> GetBalances E s h (cur_UID cur) = Inr (holder_balances E s h (cur_ID cur) (cur_UID cur))
    \<and> map cls_ID (class_rows s h (cur_ID cur)) = sorted_list_of_set (er_ClassificationID `
         {e \<in> set (dbEntries s). er_AccountHolder e = h \<and> er_CurrencyID e = cur_ID cur})"
proof -
  note c = currency_found [OF assms]
  obtain m where m: "computedBalances E s hs (cur_ID cur) (cur_UID cur) = Inr m"
    "\<forall>h. map_of m h = (if h \<in> set hs then Some (concat (map (replicate (count_list hs h))
       (holder_balances E s h (cur_ID cur) (cur_UID cur)))) else None)"
    using computedBalances_eq [OF assms(1)] by blast
  obtain m1 where m1: "computedBalances E s [h] (cur_ID cur) (cur_UID cur) = Inr m1"
    "\<forall>h'. map_of m1 h' = (if h' \<in> set [h] then Some (concat (map (replicate (count_list [h] h'))
       (holder_balances E s h' (cur_ID cur) (cur_UID cur)))) else None)"
    using computedBalances_eq [OF assms(1)] by blast
  have "GetBalances E s h (cur_UID cur) = Inr (holder_balances E s h (cur_ID cur) (cur_UID cur))"
    using m1 by (simp add: GetBalances_def c)
  moreover have "er_ClassificationID ` {e \<in> set (dbEntries s). er_AccountHolder e = h \<and> er_CurrencyID e = cur_ID cur}
      = set (holderClasses s h (cur_ID cur))" by (auto simp: holderClasses_def)
  ultimately show ?thesis
    using m class_rows_known(3) [OF assms(1)] by (simp add: BatchGetBalances_def c)
qed

theorem BatchGetBalances_exact_witness:
  "map_option length (map_of (case BatchGetBalances ref_env checkpointed_ledger [7, 7] ''c1'' of Inl _ \<Rightarrow> [] | Inr m \<Rightarrow> m) 7)
     = Some 2
   \<and> (case GetBalances ref_env checkpointed_ledger 7 ''c1'' of Inl _ \<Rightarrow> 0 | Inr bs \<Rightarrow> length bs) = 1"
proof -
  let ?s = checkpointed_ledger and ?cur = "hd (dbCurrencies base_ledger)"
  have mem: "?cur \<in> set (dbCurrencies ?s)"
    by (simp add: checkpointed_ledger_def posted_ledger_def base_ledger_def)
  have ids: "cur_ID ?cur = 1" "cur_UID ?cur = ''c1''" by (simp_all add: base_ledger_def)
  have one: "length (holder_balances ref_env ?s 7 1 ''c1'') = 1" by code_simp
  then obtain b where b: "holder_balances ref_env ?s 7 1 ''c1'' = [b]" by (auto simp: length_Suc_conv)
  have "count_list [7, 7] (7 :: int) = 2" by simp
  with BatchGetBalances_exact [OF ledger_ok_checkpointed mem, of "[7, 7]" 7] b show ?thesis
    unfolding ids by auto
qed

definition role_balance :: "db \<Rightarrow> int \<Rightarrow> int \<Rightarrow> BalanceRole \<Rightarrow> int" where
  "role_balance s h c r = (\<Sum>cl\<leftarrow>class_rows s h c. if cls_BalanceRole cl = r then ledger_balance s h c (cls_ID cl) else 0)"

lemma role_sums:
  assumes "store_env E" "r \<noteq> BalanceRoleNone"
  shows "dval (envD E) (valAt (envD E) (foldl (\<lambda>m row. if cb_BalanceRole row = BalanceRoleNone then m
        else addAt (envD E) (cb_BalanceRole row) (numericToDecimal E (cb_Balance row)) m) m rows) r)
     = dval (envD E) (valAt (envD E) m r) + unit_val (\<Sum>row\<leftarrow>rows. if cb_BalanceRole row = r then cb_Balance row else 0)"
proof (induction rows arbitrary: m)
  case (Cons row rows)
  have D: "decimal_lib (envD E)" using assms(1) by (simp add: store_env_def)
  show ?case
    using assms(2) by (auto simp: Cons.IH decimal_lib.dval_valAt_addAt [OF D] store_env.numericToDecimal_val [OF assms(1)]
        unit_val_simps)
qed (simp add: unit_val_simps)

lemma ListComputedBalances_one:
  assumes "ledger_ok E s"
  shows "ListComputedBalancesForHolders s c [h] = Inr (map (balance_row s c h) (class_rows s h c))"
proof -
  obtain rows where rows: "ListComputedBalancesForHolders s c [h] = Inr rows"
    and of_h: "\<forall>h'. filter (\<lambda>r. cb_AccountHolder r = h') rows
       = concat (map (replicate (count_list [h] h')) (map (balance_row s c h') (class_rows s h' c)))"
    and hs: "cb_AccountHolder ` set rows \<subseteq> set [h]"
    using ListComputedBalances_ok [OF assms] by blast
  have "filter (\<lambda>r. cb_AccountHolder r = h) rows = rows" using hs by (auto simp: filter_id_conv)
  with rows of_h [rule_format, of h] show ?thesis by (simp del: map_map)
qed

lemma sumBalancesByRole_ok:
  assumes "store_env E" "ledger_ok E s"
  obtains roles where "sumBalancesByRoleWithQueries E s h c = Inr roles"
    "\<And>r. r \<in> {BalanceRoleAvailable, BalanceRolePending, BalanceRoleLocked} \<Longrightarrow>
       dval (envD E) (valAt (envD E) roles r) = unit_val (role_balance s h c r)"
proof -
  have D: "decimal_lib (envD E)" using assms(1) by (simp add: store_env_def)
  define rows where "rows = map (balance_row s c h) (class_rows s h c)"
  define roles where "roles = foldl (\<lambda>m row. if cb_BalanceRole row = BalanceRoleNone then m
      else addAt (envD E) (cb_BalanceRole row) (numericToDecimal E (cb_Balance row)) m)
    [(BalanceRoleAvailable, dZero (envD E)), (BalanceRolePending, dZero (envD E)), (BalanceRoleLocked, dZero (envD E))] rows"
  have "dval (envD E) (valAt (envD E) roles r) = unit_val (role_balance s h c r)"
    if "r \<in> {BalanceRoleAvailable, BalanceRolePending, BalanceRoleLocked}" for r
  proof -
    have "r \<noteq> BalanceRoleNone" using that by (auto simp: balance_roles)
    note sums = role_sums [OF assms(1) this]
    have z: "dval (envD E) (valAt (envD E) [(a, dZero (envD E)), (b, dZero (envD E)), (d, dZero (envD E))] r) = 0" for a b d
      by (simp add: valAt_def decimal_lib.Zero [OF D])
    have "(\<Sum>row\<leftarrow>rows. if cb_BalanceRole row = r then cb_Balance row else 0) = role_balance s h c r"
      by (simp add: rows_def role_balance_def balance_row_def comp_def cong: if_cong)
    then show ?thesis by (simp only: roles_def sums z)
  qed
  moreover have "sumBalancesByRoleWithQueries E s h c = Inr roles"
    by (simp add: sumBalancesByRoleWithQueries_def ListComputedBalances_one [OF assms(2)] roles_def rows_def Let_def del: map_map)
  ultimately show thesis using that by blast
qed

text \<open>C15. The liquidity view is a partition of the books: pending and locked are the sums of the balances
  with that role, reservation holds are moved from available to locked, and the total is the sum of
  the three roles whatever is held; memo and role-less classifications do not count.\<close>

theorem GetBalanceBreakdown_correct:
  assumes "store_env E" "ledger_ok E s" "cur \<in> set (dbCurrencies s)"
  shows "\<exists>b. GetBalanceBreakdown E s h (cur_UID cur) = Inr b
    \<and> dval (envD E) (bb_Available b)
        = unit_val (role_balance s h (cur_ID cur) BalanceRoleAvailable - SumActiveReservations s h (cur_ID cur))
    \<and> dval (envD E) (bb_Pending b) = unit_val (role_balance s h (cur_ID cur) BalanceRolePending)
    \<and> dval (envD E) (bb_Locked b)
        = unit_val (role_balance s h (cur_ID cur) BalanceRoleLocked + SumActiveReservations s h (cur_ID cur))
    \<and> dval (envD E) (bb_Total b) = unit_val (role_balance s h (cur_ID cur) BalanceRoleAvailable
        + role_balance s h (cur_ID cur) BalanceRoleLocked + role_balance s h (cur_ID cur) BalanceRolePending)"
proof -
  let ?c = "cur_ID cur"
  have D: "decimal_lib (envD E)" using assms(1) by (simp add: store_env_def)
  obtain roles where roles: "sumBalancesByRoleWithQueries E s h ?c = Inr roles"
    and sums: "\<And>r. r \<in> {BalanceRoleAvailable, BalanceRolePending, BalanceRoleLocked} \<Longrightarrow>
       dval (envD E) (valAt (envD E) roles r) = unit_val (role_balance s h ?c r)"
    using sumBalancesByRole_ok [OF assms(1,2), of h ?c] by metis
  have "GetBalanceBreakdown E s h (cur_UID cur) = getBalanceBreakdownWithQueries E s h ?c (cur_UID cur)"
    by (simp add: GetBalanceBreakdown_def currency_found [OF assms(2,3)])
  then show ?thesis
    by (simp add: getBalanceBreakdownWithQueries_def Let_def decimal_lib.Add [OF D] decimal_lib.Sub [OF D] roles sums
        store_env.numericToDecimal_val [OF assms(1)] unit_val_simps)
qed

theorem GetBalanceBreakdown_correct_witness:
  "\<exists>b. GetBalanceBreakdown ref_env checkpointed_ledger 7 ''c1'' = Inr b \<and> dval ref_decimal (bb_Available b) = 21 / 2
     \<and> dval ref_decimal (bb_Total b) = 21 / 2"
proof -
  let ?s = checkpointed_ledger and ?cur = "hd (dbCurrencies base_ledger)"
  have mem: "?cur \<in> set (dbCurrencies ?s)"
    by (simp add: checkpointed_ledger_def posted_ledger_def base_ledger_def)
  have ids: "cur_ID ?cur = 1" "cur_UID ?cur = ''c1''" by (simp_all add: base_ledger_def)
  have "role_balance ?s 7 1 BalanceRoleAvailable = 10500000000000000000" "role_balance ?s 7 1 BalanceRoleLocked = 0"
    "role_balance ?s 7 1 BalanceRolePending = 0" "SumActiveReservations ?s 7 1 = 0"
    by code_simp+
  with GetBalanceBreakdown_correct [OF renv.store_env_axioms ledger_ok_checkpointed mem, of 7] show ?thesis
    unfolding ids by (auto simp: unit_val_def ref_env_def)
qed

end
