(* ===== verification/Posting_Gates.thy ===== *)
theory Posting_Gates
  imports Balances
begin

text \<open>
  The gates an accepted journal has passed (\<^verbatim>\<open>postgres/account_policy_enforce.go\<close>,
  \<^verbatim>\<open>postgres/precision.go\<close>, \<^verbatim>\<open>assertDimsActive\<close> and the period close check), stated on the tables
  after it was posted, and the converse: which journals are accepted.
\<close>

section \<open>Account policies\<close>

text \<open>The policy that governs an entry, and the signed value of the entry.\<close>

definition policy_of :: "db \<Rightarrow> 'd resolvedEntry \<Rightarrow> PolicyRow option" where
  "policy_of s r = GetEffectiveAccountPolicy s (ei_AccountHolder r) (re_currencyID r) (re_classificationID r)"

definition dim_of :: "'d resolvedEntry \<Rightarrow> int \<times> int \<times> int" where
  "dim_of r = (ei_AccountHolder r, re_currencyID r, re_classificationID r)"

definition signed_value :: "'d env \<Rightarrow> 'd resolvedEntry \<Rightarrow> rat" where
  "signed_value E r = side_signed (re_normalSide r) (ei_EntryType r) (dval (envD E) (ei_Amount r))"

definition frozen_key :: "db \<Rightarrow> 'd resolvedEntry \<Rightarrow> (int \<times> int) option" where
  "frozen_key s r = (case policy_of s r of None \<Rightarrow> None
     | Some p \<Rightarrow> if pr_Status p = AccountPolicyStatusFrozen then Some (pr_ID p, re_currencyID r) else None)"

lemma set_fst_addAt: "set (map fst (addAt D k v m)) = insert k (set (map fst m))"
  unfolding fst_addAt by (simp add: insert_absorb del: set_map)

lemma policyStep_Inr:
  assumes "decimal_lib (envD E)" "policyStep E s (dd, pd) r = Inr (dd', pd')"
  obtains delta where "dval (envD E) delta = signed_value E r" "dd' = addAt (envD E) (dim_of r) delta dd"
    "pd' = (case frozen_key s r of None \<Rightarrow> pd | Some key \<Rightarrow> addAt (envD E) key delta pd)"
    "\<forall>p. policy_of s r = Some p \<longrightarrow> pr_Status p \<noteq> AccountPolicyStatusClosed"
proof -
  obtain delta where d: "SignedAmount (envD E) (re_normalSide r) (ei_EntryType r) (ei_Amount r) = Inr delta"
    using assms(2) by (auto simp: policyStep_def)
  then have "dval (envD E) delta = signed_value E r"
    using decimal_lib.SignedAmount_val [OF assms(1)] by (simp add: signed_value_def)
  with assms(2) d that [of delta] show ?thesis
    by (auto simp: policyStep_def policy_of_def getEffectiveAccountPolicy_def Let_def dim_of_def frozen_key_def
        split: option.splits if_splits)
qed

lemma policy_fold:
  assumes "decimal_lib (envD E)" "foldR (policyStep E s) (dd, pd) rs = Inr (dd', pd')"
  shows "(\<forall>r\<in>set rs. \<forall>p. policy_of s r = Some p \<longrightarrow> pr_Status p \<noteq> AccountPolicyStatusClosed)
    \<and> set (map fst dd') = set (map fst dd) \<union> dim_of ` set rs
    \<and> set (map fst pd') = set (map fst pd) \<union> {key. \<exists>r\<in>set rs. frozen_key s r = Some key}
    \<and> (\<forall>key. dval (envD E) (valAt (envD E) dd' key)
        = dval (envD E) (valAt (envD E) dd key) + (\<Sum>r\<leftarrow>rs. if dim_of r = key then signed_value E r else 0))
    \<and> (\<forall>key. dval (envD E) (valAt (envD E) pd' key)
        = dval (envD E) (valAt (envD E) pd key) + (\<Sum>r\<leftarrow>rs. if frozen_key s r = Some key then signed_value E r else 0))"
  using assms(2)
proof (induction rs arbitrary: dd pd)
  case (Cons r rs)
  obtain dd1 pd1 where step: "policyStep E s (dd, pd) r = Inr (dd1, pd1)"
    and rest: "foldR (policyStep E s) (dd1, pd1) rs = Inr (dd', pd')"
    using Cons.prems by auto
  obtain delta where d: "dval (envD E) delta = signed_value E r" "dd1 = addAt (envD E) (dim_of r) delta dd"
    "pd1 = (case frozen_key s r of None \<Rightarrow> pd | Some key \<Rightarrow> addAt (envD E) key delta pd)"
    and c: "\<forall>p. policy_of s r = Some p \<longrightarrow> pr_Status p \<noteq> AccountPolicyStatusClosed"
    by (rule policyStep_Inr [OF assms(1) step])
  note IH = Cons.IH [OF rest]
  have keys: "set (map fst dd1) = insert (dim_of r) (set (map fst dd))"
    "set (map fst pd1) = set (map fst pd) \<union> {key. frozen_key s r = Some key}"
    unfolding d(2,3) set_fst_addAt by (cases "frozen_key s r"; simp add: set_fst_addAt del: set_map)+
  have vals: "dval (envD E) (valAt (envD E) dd1 key)
      = dval (envD E) (valAt (envD E) dd key) + (if dim_of r = key then signed_value E r else 0)"
    "dval (envD E) (valAt (envD E) pd1 k2)
      = dval (envD E) (valAt (envD E) pd k2) + (if frozen_key s r = Some k2 then signed_value E r else 0)" for key k2
    by (auto simp: d decimal_lib.dval_valAt_addAt [OF assms(1)] split: option.splits)
  show ?case
  proof (intro conjI)
    show "\<forall>r\<in>set (r # rs). \<forall>p. policy_of s r = Some p \<longrightarrow> pr_Status p \<noteq> AccountPolicyStatusClosed"
      using IH c by auto
    show "set (map fst dd') = set (map fst dd) \<union> dim_of ` set (r # rs)"
      "set (map fst pd') = set (map fst pd) \<union> {key. \<exists>r\<in>set (r # rs). frozen_key s r = Some key}"
      using IH unfolding keys by auto
  qed (use IH vals in \<open>simp_all add: add.assoc\<close>)
qed simp

lemma valAt_mem: "key \<in> set (map fst m) \<Longrightarrow> (key, valAt D m key) \<in> set m"
  by (induction m) (auto simp: valAt_def)

lemma effect_sum:
  assumes "list_all2 (resolved_ok s) es rs"
    and "\<forall>r\<in>set rs. dval (envD E) (ei_Amount r) = unit_val (units (envD E) (ei_Amount r))"
  shows "(\<Sum>r\<leftarrow>rs. if dim_of r = (h, c, k) then signed_value E r else 0) = unit_val (\<Sum>r\<leftarrow>rs. entry_effect E s h c k r)"
proof -
  have "re_normalSide r = normal_side_of s (re_classificationID r)" if "r \<in> set rs" for r
    using assms(1) that by (metis in_set_conv_nth list_all2_conv_all_nth resolved_ok_def)
  then show ?thesis
    unfolding unit_val_sum using assms(2)
    by (intro arg_cong [of _ _ sum_list] map_cong)
      (auto simp: dim_of_def entry_effect_def signed_value_def side_signed_def unit_val_simps)
qed

text \<open>What a policy asks of the books after the journal.\<close>

definition policies_respected :: "'d env \<Rightarrow> db \<Rightarrow> 'd resolvedEntry list \<Rightarrow> db \<Rightarrow> bool" where
  "policies_respected E s rs t \<longleftrightarrow>
     (\<forall>r\<in>set rs. case policy_of s r of None \<Rightarrow> True
        | Some p \<Rightarrow> pr_Status p \<noteq> AccountPolicyStatusClosed
            \<and> (pr_EnforceMinBalance p \<longrightarrow> pr_MinBalance p
                \<le> ledger_balance t (ei_AccountHolder r) (re_currencyID r) (re_classificationID r)))
     \<and> (\<forall>key. 0 \<le> (\<Sum>r\<leftarrow>rs. if frozen_key s r = Some key
           then entry_effect E s (ei_AccountHolder r) (re_currencyID r) (re_classificationID r) r else 0))"

lemma frozen_sum:
  assumes "list_all2 (resolved_ok s) es rs"
    and "\<forall>r\<in>set rs. dval (envD E) (ei_Amount r) = unit_val (units (envD E) (ei_Amount r))"
  shows "(\<Sum>r\<leftarrow>rs. if frozen_key s r = Some key then signed_value E r else 0)
    = unit_val (\<Sum>r\<leftarrow>rs. if frozen_key s r = Some key
           then entry_effect E s (ei_AccountHolder r) (re_currencyID r) (re_classificationID r) r else 0)"
proof -
  have "re_normalSide r = normal_side_of s (re_classificationID r)" if "r \<in> set rs" for r
    using assms(1) that by (metis in_set_conv_nth list_all2_conv_all_nth resolved_ok_def)
  then show ?thesis
    unfolding unit_val_sum using assms(2)
    by (intro arg_cong [of _ _ sum_list] map_cong)
      (auto simp: entry_effect_def signed_value_def side_signed_def unit_val_simps)
qed

lemma policy_sums:
  assumes "decimal_lib (envD E)" "foldR (policyStep E s) ([], []) rs = Inr (dd, pd)"
  shows "r \<in> set rs \<Longrightarrow> policy_of s r = Some p \<Longrightarrow> pr_Status p \<noteq> AccountPolicyStatusClosed"
    "r \<in> set rs \<Longrightarrow> (dim_of r, valAt (envD E) dd (dim_of r)) \<in> set dd"
    "r \<in> set rs \<Longrightarrow> frozen_key s r = Some key \<Longrightarrow> (key, valAt (envD E) pd key) \<in> set pd"
    "dval (envD E) (valAt (envD E) dd d) = (\<Sum>r\<leftarrow>rs. if dim_of r = d then signed_value E r else 0)"
    "dval (envD E) (valAt (envD E) pd key) = (\<Sum>r\<leftarrow>rs. if frozen_key s r = Some key then signed_value E r else 0)"
proof -
  note pf = policy_fold [OF assms]
  show "r \<in> set rs \<Longrightarrow> policy_of s r = Some p \<Longrightarrow> pr_Status p \<noteq> AccountPolicyStatusClosed" using pf by blast
  show "(dim_of r, valAt (envD E) dd (dim_of r)) \<in> set dd" if "r \<in> set rs"
    using pf that by (intro valAt_mem) (simp del: set_map)
  show "(key, valAt (envD E) pd key) \<in> set pd" if "r \<in> set rs" "frozen_key s r = Some key"
  proof -
    have "key \<in> {key. \<exists>r\<in>set rs. frozen_key s r = Some key}" using that by blast
    moreover have "set (map fst pd) = {key. \<exists>r\<in>set rs. frozen_key s r = Some key}" using pf by simp
    ultimately show ?thesis by (intro valAt_mem) (simp only:)
  qed
  have z: "dval (envD E) (valAt (envD E) [] x) = 0" "dval (envD E) (valAt (envD E) [] y) = 0"
    for x :: "int \<times> int \<times> int" and y :: "int \<times> int"
    by (simp_all add: valAt_def decimal_lib.Zero [OF assms(1)])
  have "dval (envD E) (valAt (envD E) dd d) = dval (envD E) (valAt (envD E) [] d)
      + (\<Sum>r\<leftarrow>rs. if dim_of r = d then signed_value E r else 0)"
    "dval (envD E) (valAt (envD E) pd key) = dval (envD E) (valAt (envD E) [] key)
      + (\<Sum>r\<leftarrow>rs. if frozen_key s r = Some key then signed_value E r else 0)"
    using pf by blast+
  then show "dval (envD E) (valAt (envD E) dd d) = (\<Sum>r\<leftarrow>rs. if dim_of r = d then signed_value E r else 0)"
    "dval (envD E) (valAt (envD E) pd key) = (\<Sum>r\<leftarrow>rs. if frozen_key s r = Some key then signed_value E r else 0)"
    by (simp_all add: z)
qed

lemma checkMinBalance_Inr:
  assumes "store_env E" "ledger_ok E s" "checkMinBalance E s ((h, c, k), delta) = Inr ()"
    and "GetEffectiveAccountPolicy s h c k = Some p" "pr_EnforceMinBalance p" "k \<in> cls_ID ` set (dbClassifications s)"
    and "dval (envD E) delta = unit_val n"
  shows "pr_MinBalance p \<le> ledger_balance s h c k + n"
proof -
  have D: "decimal_lib (envD E)" using assms(1) by (simp add: store_env_def)
  obtain cl where cl: "cl \<in> set (dbClassifications s)" "cls_ID cl = k" using assms(6) by blast
  obtain b where b: "getBalanceWithQueries E s h c k = Inr b"
    and le: "\<not> dLessThan (envD E) (dAdd (envD E) b delta) (numericToDecimal E (pr_MinBalance p))"
    using assms(3-5) by (auto simp: checkMinBalance_def getEffectiveAccountPolicy_def Let_def split: if_splits)
  have "dval (envD E) b = unit_val (ledger_balance s h c k)"
    using getBalanceWithQueries_eq [OF assms(1,2) cl(1), of h c] b cl(2) by simp
  with le assms(7) show ?thesis
    by (simp add: decimal_lib.LessThan [OF D] decimal_lib.Add [OF D] store_env.numericToDecimal_val [OF assms(1)]
        unit_val_simps(2) [symmetric] unit_val_order not_less)
qed

lemma enforceAccountPolicies_Inr:
  assumes "store_env E" "ledger_ok E s" "enforceAccountPolicies E s rs = Inr ()"
    and "list_all2 (resolved_ok s) es rs"
    and "\<forall>r\<in>set rs. dval (envD E) (ei_Amount r) = unit_val (units (envD E) (ei_Amount r))"
    and "\<forall>h c k. ledger_balance t h c k = ledger_balance s h c k + (\<Sum>r\<leftarrow>rs. entry_effect E s h c k r)"
  shows "policies_respected E s rs t"
proof -
  have D: "decimal_lib (envD E)" using assms(1) by (simp add: store_env_def)
  obtain dd pd where fold: "foldR (policyStep E s) ([], []) rs = Inr (dd, pd)"
    and fr: "\<forall>x\<in>set pd. \<not> dIsNegative (envD E) (snd x)" and mb: "\<forall>x\<in>set dd. checkMinBalance E s x = Inr ()"
    using assms(3) by (auto simp: enforceAccountPolicies_def case_prod_unfold split: if_splits)
  note pf = policy_sums [OF D fold]
  have frozen: "0 \<le> (\<Sum>r\<leftarrow>rs. if frozen_key s r = Some key
           then entry_effect E s (ei_AccountHolder r) (re_currencyID r) (re_classificationID r) r else 0)" for key
  proof (cases "\<exists>r\<in>set rs. frozen_key s r = Some key")
    case True
    then have "0 \<le> dval (envD E) (valAt (envD E) pd key)"
      using fr pf(3) by (fastforce simp: decimal_lib.IsNegative [OF D] not_less)
    then show ?thesis
      unfolding pf(5) frozen_sum [OF assms(4,5)] using unit_val_order(2) [of 0] by (simp add: unit_val_simps)
  next
    case False
    then show ?thesis by (intro sum_list_nonneg) auto
  qed
  have "pr_MinBalance p \<le> ledger_balance t (ei_AccountHolder r) (re_currencyID r) (re_classificationID r)"
    if r: "r \<in> set rs" and p: "policy_of s r = Some p" "pr_EnforceMinBalance p" for r p
  proof -
    have k: "re_classificationID r \<in> cls_ID ` set (dbClassifications s)"
      using assms(4) r by (metis in_set_conv_nth list_all2_conv_all_nth resolved_ok_def)
    have m: "checkMinBalance E s (dim_of r, valAt (envD E) dd (dim_of r)) = Inr ()" using mb pf(2) [OF r] by blast
    show ?thesis
      using checkMinBalance_Inr [OF assms(1,2) m [unfolded dim_of_def] p [unfolded policy_of_def] k]
      by (simp add: assms(6) pf(4) effect_sum [OF assms(4,5)])
  qed
  with frozen pf(1) show ?thesis
    unfolding policies_respected_def by (auto split: option.splits)
qed

section \<open>Dimensions, precision and the period\<close>

lemma assertDimsActive_Inr:
  assumes "assertDimsActive s i rs = Inr ()"
  shows "r \<in> set rs \<Longrightarrow> cur \<in> set (dbCurrencies s) \<Longrightarrow> cur_ID cur = re_currencyID r \<Longrightarrow> cur_IsActive cur"
    "r \<in> set rs \<Longrightarrow> cl \<in> set (dbClassifications s) \<Longrightarrow> cls_ID cl = re_classificationID r \<Longrightarrow> cls_IsActive cl"
    "jt \<in> set (dbJournalTypes s) \<Longrightarrow> jt_ID jt = i \<Longrightarrow> jt_IsActive jt"
  using assms by (auto simp: assertDimsActive_def InactiveDims_def Let_def filter_empty_conv split: if_splits)

lemma checkAmountPrecision_Inr:
  assumes "decimal_lib D" "checkAmountPrecision D a cur = Inr ()" "0 \<le> dc_Exponent cur" "dc_Exponent cur \<le> 18"
    and "dval D a = unit_val n"
  shows "10 ^ nat (18 - dc_Exponent cur) dvd n"
proof -
  let ?e = "dc_Exponent cur"
  define m where "m = trunc_rat (dval D a * 10 powi ?e)"
  have "dval D a = rescaled trunc_rat (dval D a) ?e"
    using assms(2) by (simp add: checkAmountPrecision_def decimal_lib.Equal [OF assms(1)]
        decimal_lib.Truncate [OF assms(1,3)] split: if_splits)
  then have "unit_val n = of_int m * 10 powi (- ?e)" by (simp add: rescaled_def m_def assms(5))
  then have "of_int n = (of_int m * 10 powi (- ?e) * 10 powi 18 :: rat)" by (simp add: unit_val_def field_simps)
  also have "\<dots> = of_int m * (10 powi (18 - ?e))" by (simp add: power_int_diff power_int_minus field_simps)
  also have "\<dots> = of_int (m * 10 ^ nat (18 - ?e))" using assms(4) by (simp add: power_int_def)
  finally have "n = m * 10 ^ nat (18 - ?e)" by (simp only: of_int_eq_iff)
  then show ?thesis by simp
qed

text \<open>An entry on active dimensions, with no digit below the currency's smallest unit.\<close>

definition entry_admissible :: "'d env \<Rightarrow> db \<Rightarrow> 'd resolvedEntry \<Rightarrow> bool" where
  "entry_admissible E s r \<longleftrightarrow>
     (\<exists>cur\<in>set (dbCurrencies s). cur_ID cur = re_currencyID r \<and> cur_IsActive cur
        \<and> 10 ^ nat (18 - cur_Exponent cur) dvd units (envD E) (ei_Amount r))
     \<and> (\<exists>cl\<in>set (dbClassifications s). cls_ID cl = re_classificationID r \<and> cls_IsActive cl)"

lemma gates_admissible:
  assumes "decimal_lib (envD E)" "dims_ok s" "list_all2 (resolved_ok s) es rs"
    and "\<forall>r\<in>set rs. dval (envD E) (ei_Amount r) = unit_val (units (envD E) (ei_Amount r))"
    and "validateEntriesPrecision E s rs = Inr ()" "assertDimsActive s i rs = Inr ()" "r \<in> set rs"
  shows "entry_admissible E s r"
proof -
  obtain d where d: "currencyOfID s (re_currencyID r) = Inr d" "checkAmountPrecision (envD E) (ei_Amount r) d = Inr ()"
    using assms(5,7) by (auto simp: validateEntriesPrecision_def)
  then obtain cur where cur: "cur \<in> set (dbCurrencies s)" "d = currencyDim cur" "cur_ID cur = re_currencyID r"
    by (auto simp: ListCurrencyDims_def currencyDim_def dest!: currencyOfID_Inr)
  have "0 \<le> cur_Exponent cur" "cur_Exponent cur \<le> 18" using assms(2) cur(1) by (simp_all add: dims_ok_def)
  with checkAmountPrecision_Inr [OF assms(1) d(2)] assms(4,7) have
    "10 ^ nat (18 - cur_Exponent cur) dvd units (envD E) (ei_Amount r)"
    by (simp add: cur(2) currencyDim_def)
  moreover obtain cl where "cl \<in> set (dbClassifications s)" "cls_ID cl = re_classificationID r"
    using assms(3,7) by (metis (no_types, lifting) imageE in_set_conv_nth list_all2_conv_all_nth resolved_ok_def)
  ultimately show ?thesis
    using cur(1,3) assertDimsActive_Inr [OF assms(6)] assms(7) unfolding entry_admissible_def by blast
qed

text \<open>C6. A journal that is accepted under a new key respects every gate: its type, currencies and
  classifications are active and no amount has a digit below its currency's smallest unit; its
  effective date is not before the period close line; no entry touches a closed account; under a
  frozen policy no currency has a net outflow; and every balance with an enforced floor is at or
  above the floor afterwards.\<close>

theorem accepted_journal_passes_gates:
  assumes "store_env E" "ledger_ok E s" "PostJournal E input s = Inr (j, t)"
    and "GetJournalByIdempotencyKey s (ji_IdempotencyKey input) = None"
  shows "\<exists>rs. resolveEntries s (ji_Entries input) = Inr rs
    \<and> (\<exists>jt\<in>set (dbJournalTypes s). jt_UID jt = ji_JournalTypeUID input \<and> jt_IsActive jt)
    \<and> list_all (entry_admissible E s) rs
    \<and> (case GetActivePeriodClose s of None \<Rightarrow> True
        | Some line \<Rightarrow> pd_CloseBefore line \<le> resolveEffectiveAt E (ji_EffectiveAt input))
    \<and> policies_respected E s rs t"
proof -
  have D: "decimal_lib (envD E)" using assms(1) by (simp add: store_env_def)
  have dims: "dims_ok s" "dims_unique s" using assms(2) by (simp_all add: ledger_ok_def dims_ok_def)
  let ?eff = "resolveEffectiveAt E (ji_EffectiveAt input)"
  obtain auth where post: "postJournalWithQueries E input ?eff auth s = Inr (j, t)"
    by (rule PostJournal_Inr [OF assms(3)])
  obtain rs jt eventID undo row where
    v: "JournalInput_Validate (envD E) (envJ E) (envNow E) input = Inr ()"
    and r: "resolveEntries s (ji_Entries input) = Inr rs" and jt: "jtOfUID s (ji_JournalTypeUID input) = Inr jt"
    and pr: "validateEntriesPrecision E s rs = Inr ()" and act: "assertDimsActive s (dj_ID jt) rs = Inr ()"
    and pd: "checkPeriodClose s ?eff = Inr ()" and pol: "enforceAccountPolicies E s rs = Inr ()"
    and p: "posting E input rs (dj_ID jt) eventID undo ?eff auth s row t"
    by (rule post_new [OF post assms(4)], rule that)
  note rok = resolveEntries_ok [OF r dims(2)]
  have vals: "\<forall>r\<in>set rs. dval (envD E) (ei_Amount r) = unit_val (units (envD E) (ei_Amount r))"
    using rok decimal_lib.valid_units(1) [OF D v] by (metis in_set_conv_nth list_all2_conv_all_nth resolved_ok_def)
  have "policies_respected E s rs t"
    using enforceAccountPolicies_Inr [OF assms(1,2) pol rok vals] posting_balance [OF p] by blast
  moreover have "list_all (entry_admissible E s) rs"
    using gates_admissible [OF D dims(1) rok vals pr act] by (simp add: list_all_iff)
  moreover have "\<exists>jt\<in>set (dbJournalTypes s). jt_UID jt = ji_JournalTypeUID input \<and> jt_IsActive jt"
    using jtOfUID_Inr [OF jt] assertDimsActive_Inr(3) [OF act] by (auto simp: ListJournalTypeDims_def jtDim_def)
  moreover have "case GetActivePeriodClose s of None \<Rightarrow> True | Some line \<Rightarrow> pd_CloseBefore line \<le> ?eff"
    using pd by (auto simp: checkPeriodClose_def split: option.splits if_splits)
  ultimately show ?thesis using r by blast
qed

definition gated_ledger :: db where
  "gated_ledger = posted_ledger\<lparr>
     dbPolicies := [\<lparr>pr_ID = 10, pr_AccountHolder = 7, pr_CurrencyID = 1, pr_ClassificationID = 0,
        pr_Status = AccountPolicyStatusFrozen, pr_MinBalance = 12000000000000000000,
        pr_EnforceMinBalance = True, pr_Note = [], pr_UpdatedAt = 0, pr_CreatedAt = 0, pr_UID = ''u10''\<rparr>],
     dbPeriods := [\<lparr>pd_ID = 11, pd_CloseBefore = 0, pd_Note = [], pd_ActorID = 1, pd_CreatedAt = 0,
        pd_UID = ''u11''\<rparr>]\<rparr>"

lemma ledger_ok_gated: "ledger_ok ref_env gated_ledger"
  using ledger_ok_posted
  by (simp add: gated_ledger_def ledger_ok_def ids_ok_def uids_ok_def dims_ok_def dims_unique_def entry_ok_def
      balanced_ok_def journal_net_def reversals_ok_def reversed_amount_def posted_amount_def events_ok_def
      checkpoint_ok_def ListJournalEntries_def ListReversalEntriesByOriginal_def
      ListReversalsByOriginalJournalID_def ListCurrencyDims_def ListClassificationDims_def
      ListJournalTypeDims_def normal_side_of_def GetClassification_def)

theorem accepted_journal_passes_gates_witness:
  "\<exists>j t. PostJournal ref_env (deposit ''d2'' 7 200) gated_ledger = Inr (j, t)
     \<and> 12000000000000000000 \<le> ledger_balance t 7 1 2"
proof -
  have run: "\<exists>j t. PostJournal ref_env (deposit ''d2'' 7 200) gated_ledger = Inr (j, t)"
  proof -
    have "case PostJournal ref_env (deposit ''d2'' 7 200) gated_ledger of Inl _ \<Rightarrow> False | Inr _ \<Rightarrow> True"
      by code_simp
    then show ?thesis by (auto split: sum.splits)
  qed
  then obtain j t where post: "PostJournal ref_env (deposit ''d2'' 7 200) gated_ledger = Inr (j, t)" by blast
  have "GetJournalByIdempotencyKey gated_ledger (ji_IdempotencyKey (deposit ''d2'' 7 200)) = None"
    by (simp add: GetJournalByIdempotencyKey_def gated_ledger_def posted_ledger_def deposit_def)
  then obtain rs where r: "resolveEntries gated_ledger (ji_Entries (deposit ''d2'' 7 200)) = Inr rs"
    and pol: "policies_respected ref_env gated_ledger rs t"
    using accepted_journal_passes_gates [OF renv.store_env_axioms ledger_ok_gated post] by blast
  have "case resolveEntries gated_ledger (ji_Entries (deposit ''d2'' 7 200)) of Inl _ \<Rightarrow> False
    | Inr rs \<Rightarrow> \<exists>r\<in>set rs. dim_of r = (7, 1, 2) \<and> policy_of gated_ledger r = Some (hd (dbPolicies gated_ledger))"
    by code_simp
  then obtain r where "r \<in> set rs" "dim_of r = (7, 1, 2)" "policy_of gated_ledger r = Some (hd (dbPolicies gated_ledger))"
    using r by auto
  with pol have "12000000000000000000 \<le> ledger_balance t 7 1 2"
    by (auto simp: policies_respected_def dim_of_def gated_ledger_def split: option.splits)
  with post show ?thesis by blast
qed

end
