(* ===== verification/Posting_Accepts.thy ===== *)
theory Posting_Accepts
  imports Posting_Gates
begin

text \<open>
  Which journals the store accepts: a validated journal under a new key, on known and active
  dimensions, without links, policies or a closed period in its way, is posted. The write itself
  (the inserts of \<^verbatim>\<open>postJournalWithQueries\<close> with the constraints of the tables) never fails for it,
  unless a side adds up to a trillion.
\<close>

section \<open>Sums by currency\<close>

lemma sum_by_key:
  fixes g :: "'a \<Rightarrow> int"
  assumes "finite U" "f ` set xs \<subseteq> U"
  shows "(\<Sum>u\<in>U. \<Sum>x\<leftarrow>xs. if f x = u then g x else 0) = (\<Sum>x\<leftarrow>xs. g x)"
  using assms(2)
proof (induction xs)
  case (Cons x xs)
  have "(\<Sum>u\<in>U. \<Sum>x\<leftarrow>x # xs. if f x = u then g x else 0)
      = (\<Sum>u\<in>U. if u = f x then g x else 0) + (\<Sum>u\<in>U. \<Sum>x\<leftarrow>xs. if f x = u then g x else 0)"
    by (simp add: sum.distrib eq_commute)
  with Cons assms(1) show ?case by (simp add: sum.delta)
qed simp

definition entry_sign :: "EntryType \<Rightarrow> int" where
  "entry_sign side = (if side = EntryTypeDebit then 1 else - 1)"

context decimal_lib
begin

lemma valid_balanced:
  assumes "JournalInput_Validate D J now input = Inr ()"
  shows "(\<Sum>e\<leftarrow>ji_Entries input. if ei_CurrencyUID e = u then entry_sign (ei_EntryType e) * units D (ei_Amount e) else 0) = 0"
proof -
  let ?es = "ji_Entries input"
  let ?side = "\<lambda>side. \<Sum>e\<leftarrow>?es. if ei_CurrencyUID e = u \<and> ei_EntryType e = side then units D (ei_Amount e) else 0"
  have bal: "balanced D ?es" and v: "\<forall>e\<in>set ?es. validateEntry D e = Inr ()"
    using assms by (simp_all add: JournalInput_Validate_Inr well_formed_def)
  have "side_sum D side u ?es = unit_val (?side side)" for side
    unfolding side_sum_def by (rule valid_sum_units [OF assms])
  then have "unit_val (?side EntryTypeDebit) = unit_val (?side EntryTypeCredit)"
    using bal unfolding balanced_def by metis
  then have "?side EntryTypeDebit = ?side EntryTypeCredit" by (simp only: unit_val_eq)
  moreover have split: "(\<Sum>e\<leftarrow>es. if ei_CurrencyUID e = u then entry_sign (ei_EntryType e) * units D (ei_Amount e) else 0)
      = (\<Sum>e\<leftarrow>es. if ei_CurrencyUID e = u \<and> ei_EntryType e = EntryTypeDebit then units D (ei_Amount e) else 0)
        - (\<Sum>e\<leftarrow>es. if ei_CurrencyUID e = u \<and> ei_EntryType e = EntryTypeCredit then units D (ei_Amount e) else 0)"
    if "\<forall>e\<in>set es. EntryType_IsValid (ei_EntryType e)" for es
    using that by (induction es) (auto simp: entry_sign_def EntryType_IsValid_def side_names)
  moreover have "\<forall>e\<in>set ?es. EntryType_IsValid (ei_EntryType e)" using v by (simp add: validateEntry_Inr)
  ultimately show ?thesis by (simp only: split)
qed

lemma valid_totals:
  assumes "JournalInput_Validate D J now input = Inr ()"
  shows "units D (fst (Totals D input)) = units D (snd (Totals D input))" "0 < units D (fst (Totals D input))"
proof -
  let ?es = "ji_Entries input"
  have v: "\<forall>e\<in>set ?es. EntryType_IsValid (ei_EntryType e)" "?es \<noteq> []"
    using assms by (simp_all add: JournalInput_Validate_Inr well_formed_def validateEntry_Inr)
  have split: "(\<Sum>e\<leftarrow>es. entry_sign (ei_EntryType e) * units D (ei_Amount e))
      = (\<Sum>e\<leftarrow>es. if ei_EntryType e = EntryTypeDebit then units D (ei_Amount e) else 0)
        - (\<Sum>e\<leftarrow>es. if ei_EntryType e = EntryTypeCredit then units D (ei_Amount e) else 0)"
    "(\<Sum>e\<leftarrow>es. units D (ei_Amount e))
      = (\<Sum>e\<leftarrow>es. if ei_EntryType e = EntryTypeDebit then units D (ei_Amount e) else 0)
        + (\<Sum>e\<leftarrow>es. if ei_EntryType e = EntryTypeCredit then units D (ei_Amount e) else 0)"
    if "\<forall>e\<in>set es. EntryType_IsValid (ei_EntryType e)" for es
    using that by (induction es) (auto simp: entry_sign_def EntryType_IsValid_def side_names)
  have "(\<Sum>e\<leftarrow>?es. entry_sign (ei_EntryType e) * units D (ei_Amount e)) = 0"
    by (subst sum_by_key [of "ei_CurrencyUID ` set ?es" ei_CurrencyUID, symmetric])
      (simp_all add: valid_balanced [OF assms])
  then show eq: "units D (fst (Totals D input)) = units D (snd (Totals D input))"
    by (simp add: split(1) [OF v(1)] Totals_units [OF assms])
  have "0 < (\<Sum>e\<leftarrow>es. units D (ei_Amount e))" if "\<forall>e\<in>set es. 0 < units D (ei_Amount e)" "es \<noteq> []" for es
  proof -
    obtain x xs where "es = x # xs" using \<open>es \<noteq> []\<close> by (cases es) auto
    moreover have "0 \<le> (\<Sum>e\<leftarrow>xs. units D (ei_Amount e))"
      using that(1) calculation by (intro sum_list_nonneg) auto
    ultimately show ?thesis using that(1) by simp
  qed
  then have "0 < (\<Sum>e\<leftarrow>?es. units D (ei_Amount e))" using valid_units(2) [OF assms] v(2) by blast
  then show "0 < units D (fst (Totals D input))"
    using eq by (simp add: split(2) [OF v(1)] Totals_units [OF assms])
qed

end

section \<open>The write\<close>

lemma resolveEntries_total:
  assumes "\<forall>e\<in>set es. (\<exists>c\<in>set (dbCurrencies s). cur_UID c = ei_CurrencyUID e)
    \<and> (\<exists>k\<in>set (dbClassifications s). cls_UID k = ei_ClassificationUID e)" "dims_unique s"
  shows "\<exists>rs. resolveEntries s es = Inr rs"
  unfolding resolveEntries_def
proof (rule mapR_ok, rule ballI)
  fix e
  assume "e \<in> set es"
  then obtain c k where "c \<in> set (dbCurrencies s)" "cur_UID c = ei_CurrencyUID e"
    "k \<in> set (dbClassifications s)" "cls_UID k = ei_ClassificationUID e" using assms(1) by blast
  then have "currencyDim c \<in> set (ListCurrencyDims s)" "dc_UID (currencyDim c) = ei_CurrencyUID e"
    "classDim k \<in> set (ListClassificationDims s)" "dk_UID (classDim k) = ei_ClassificationUID e"
    by (simp_all add: ListCurrencyDims_def ListClassificationDims_def) (simp_all add: currencyDim_def classDim_def)
  then have "currencyOfUID s (ei_CurrencyUID e) = Inr (currencyDim c)"
    "classOfUID s (ei_ClassificationUID e) = Inr (classDim k)"
    using dims_unique_find(1) [OF assms(2), of "currencyDim c"] dims_unique_find(3) [OF assms(2), of "classDim k"]
    by simp_all
  then show "\<exists>r. resolveEntry s e = Inr r" by (simp add: resolveEntry_def)
qed

lemma list_all2_right: "list_all2 P xs ys \<Longrightarrow> y \<in> set ys \<Longrightarrow> \<exists>x\<in>set xs. P x y"
  by (induction rule: list_all2_induct) auto

lemma resolved_net:
  assumes "resolveEntries s es = Inr rs" "dims_unique s" "r \<in> set rs"
  shows "\<exists>u. (\<Sum>r'\<leftarrow>rs. if re_currencyID r' = re_currencyID r then f (ei_EntryType r') (ei_Amount r') else 0)
     = (\<Sum>e\<leftarrow>es. if ei_CurrencyUID e = u then f (ei_EntryType e) (ei_Amount e) else (0 :: int))"
proof -
  have all: "list_all2 (\<lambda>e r. resolveEntry s e = Inr r) es rs"
    using assms(1) by (simp add: resolveEntries_def mapR_Inr)
  have dim: "\<exists>cur\<in>set (ListCurrencyDims s). dc_UID cur = ei_CurrencyUID e \<and> dc_ID cur = re_currencyID r
      \<and> ei_EntryType r = ei_EntryType e \<and> ei_Amount r = ei_Amount e" if "resolveEntry s e = Inr r" for e r
    by (rule resolveEntry_Inr [OF that], rule bexI) simp_all
  obtain e where "resolveEntry s e = Inr r" using list_all2_right [OF all assms(3)] by blast
  from dim [OF this] obtain cur where cur: "cur \<in> set (ListCurrencyDims s)" "dc_ID cur = re_currencyID r" by blast
  have uniq: "re_currencyID r' = re_currencyID r \<longleftrightarrow> ei_CurrencyUID e = dc_UID cur" if "resolveEntry s e = Inr r'" for e r'
  proof -
    from dim [OF that]
    obtain d where d: "d \<in> set (ListCurrencyDims s)" "dc_UID d = ei_CurrencyUID e" "dc_ID d = re_currencyID r'" by blast
    have "inj_on dc_ID (set (ListCurrencyDims s))" "inj_on dc_UID (set (ListCurrencyDims s))"
      using assms(2) by (simp_all add: dims_unique_def distinct_map)
    then have "dc_ID d = dc_ID cur \<longleftrightarrow> d = cur" "dc_UID d = dc_UID cur \<longleftrightarrow> d = cur"
      using d(1) cur(1) by (auto dest: inj_onD)
    with d(2,3) cur(2) show ?thesis by simp
  qed
  have "(\<Sum>r'\<leftarrow>rs. if re_currencyID r' = re_currencyID r then f (ei_EntryType r') (ei_Amount r') else 0)
     = (\<Sum>e\<leftarrow>es. if ei_CurrencyUID e = dc_UID cur then f (ei_EntryType e) (ei_Amount e) else (0 :: int))"
    using all
  proof (induction rule: list_all2_induct)
    case (Cons e es r' rs)
    then show ?case using dim [of e r'] uniq [of e r'] by auto
  qed simp
  then show ?thesis by blast
qed

lemma VerifyJournalBalanced_ok:
  assumes "\<And>c. (\<Sum>e\<leftarrow>filter (\<lambda>e. er_CurrencyID e = c) (ListJournalEntries s j). entry_net e) = 0"
  shows "VerifyJournalBalanced s j = None"
  using assms by (simp add: VerifyJournalBalanced_def ListJournalEntries_def Let_def find_None_iff)

lemma entryRows_balanced:
  assumes "decimal_lib (envD E)" "JournalInput_Validate (envD E) J now input = Inr ()"
    and "resolveEntries s (ji_Entries input) = Inr rs" "dims_unique s"
  shows "(\<Sum>e\<leftarrow>filter (\<lambda>e. er_CurrencyID e = c) (entryRowsOf E j t n rs). entry_net e) = 0"
proof -
  let ?f = "\<lambda>side a. entry_sign side * units (envD E) a"
  have sum: "(\<Sum>e\<leftarrow>filter (\<lambda>e. er_CurrencyID e = c) (entryRowsOf E j t n rs). entry_net e)
      = (\<Sum>r\<leftarrow>rs. if re_currencyID r = c then ?f (ei_EntryType r) (ei_Amount r) else 0)"
    unfolding sum_filter_if
    by (rule entryRowsOf_sum) (simp add: entryRowOf_def entry_net_def entry_sign_def)
  show ?thesis
  proof (cases "\<exists>r\<in>set rs. re_currencyID r = c")
    case True
    then obtain r where r: "r \<in> set rs" "re_currencyID r = c" by blast
    obtain u where "(\<Sum>r'\<leftarrow>rs. if re_currencyID r' = re_currencyID r then ?f (ei_EntryType r') (ei_Amount r') else 0)
        = (\<Sum>e\<leftarrow>ji_Entries input. if ei_CurrencyUID e = u then ?f (ei_EntryType e) (ei_Amount e) else 0)"
      using resolved_net [OF assms(3,4) r(1), where f = ?f] by blast
    then show ?thesis using decimal_lib.valid_balanced [OF assms(1,2), of u] by (simp add: sum r(2))
  next
    case False
    then have "(\<Sum>r\<leftarrow>rs. if re_currencyID r = c then ?f (ei_EntryType r) (ei_Amount r) else 0) = 0"
      by (induction rs) auto
    then show ?thesis by (simp only: sum)
  qed
qed

lemma entries_insertable:
  assumes "decimal_lib (envD E)" "JournalInput_Validate (envD E) J now input = Inr ()"
    and "list_all2 (resolved_ok s) (ji_Entries input) rs" "r \<in> set rs"
  shows "entry_insertable E r"
proof -
  obtain e where e: "e \<in> set (ji_Entries input)" "resolved_ok s e r" using list_all2_right [OF assms(3,4)] by blast
  then have v: "validateEntry (envD E) e = Inr ()"
    using assms(2) by (simp add: decimal_lib.JournalInput_Validate_Inr [OF assms(1)] well_formed_def)
  note u = decimal_lib.valid_units [OF assms(1,2) e(1)]
  have "dval (envD E) (ei_Amount e) < 10 ^ 12" using v by (simp add: decimal_lib.validateEntry_Inr [OF assms(1)])
  also have "\<dots> = unit_val (10 ^ 30)" by (simp add: unit_val_def)
  finally have "units (envD E) (ei_Amount e) < 10 ^ 30" unfolding u(1) unit_val_order .
  with u(2) e(2) v show ?thesis
    by (simp add: entry_insertable_def resolved_ok_def decimal_lib.validateEntry_Inr [OF assms(1)])
qed

lemma writeJournal_ok:
  assumes "store_env E" "ledger_ok E s" "JournalInput_Validate (envD E) (envJ E) (envNow E) input = Inr ()"
    and "resolveEntries s (ji_Entries input) = Inr rs" "jtOfUID s (ji_JournalTypeUID input) = Inr jt"
    and "GetJournalByIdempotencyKey s (ji_IdempotencyKey input) = None"
    and "units (envD E) (fst (Totals (envD E) input)) < 10 ^ 30"
    and "ja_status auth \<in> {AuthStatusSigned, AuthStatusUnsignedNoAttestor, AuthStatusUnsignedTxMode}"
  shows "\<exists>j t. writeJournal E input rs (dj_ID jt) 0 0 eff auth s = Inr (j, t)"
proof -
  have D: "decimal_lib (envD E)" using assms(1) by (simp add: store_env_def)
  have ok: "ids_ok s" "\<forall>e\<in>set (dbEntries s). entry_ok s e" "dims_unique s"
    using assms(2) by (simp_all add: ledger_ok_def dims_ok_def)
  note tot = decimal_lib.valid_totals [OF D assms(3)]
  obtain row s1 where ins: "InsertJournal E (dj_ID jt) input (fst (Totals (envD E) input))
      (snd (Totals (envD E) input)) 0 0 eff auth s = Inr (row, s1)"
    using tot assms(6-8) by (simp add: InsertJournal_def storeNumeric_units Let_def)
  note row = InsertJournal_Inr(1,2) [OF ins]
  define s2 where "s2 = s1\<lparr>dbEntries := dbEntries s1 @ entryRowsOf E (jr_ID row) eff (dbSeq s1) rs,
      dbSeq := dbSeq s1 + int (length rs)\<rparr>"
  have s2: "foldR (InsertJournalEntry E (jr_ID row) eff) s1 rs = Inr s2"
    using entries_insertable [OF D assms(3) resolveEntries_ok [OF assms(4) ok(3)]]
    unfolding insertEntries_Inr s2_def by blast
  define s3 where "s3 = foldl (\<lambda>t key. EnqueueRollup E key t) s2 (rollupKeys rs)"
  have q: "queue_only s2 s3" unfolding s3_def by (rule queue_only_enqueueAll)
  have ent: "dbEntries s3 = dbEntries s @ entryRowsOf E (jr_ID row) eff (dbSeq s1) rs"
    using queue_only_fields(3) [OF q] by (simp add: s2_def row(1))
  have new: "\<forall>e\<in>set (dbEntries s). er_JournalID e \<noteq> jr_ID row"
    using old_journal_ids(1) [OF ok(1,2)] by (simp add: row(2))
  have bal: "VerifyJournalBalanced s3 (jr_ID row) = None"
    by (rule VerifyJournalBalanced_ok)
      (simp only: ListJournalEntries_new(1) [OF ent new] entryRows_balanced [OF D assms(3,4) ok(3)])
  have "same_config s s3"
    using queue_only_fields(1) [OF q] by (simp add: same_config_def s2_def row(1))
  then have "jtOfID s3 (dj_ID jt) = Inr jt"
    using same_config_lookups(12) jtOfUID_Inr [OF assms(5)] dims_unique_find(6) [OF ok(3)] by auto
  then have "\<exists>j. journalFromRow E s3 row = Inr j"
    by (simp add: journalFromRow_def row(2) zeroInt64ToNil_def)
  then show ?thesis
    using ins s2 bal by (auto simp: writeJournal_def case_prod_unfold Let_def s3_def)
qed

section \<open>The gates let it through\<close>

lemma resolveEntry_rows:
  assumes "resolveEntry s e = Inr r" "dims_unique s" "c \<in> set (dbCurrencies s)" "cur_UID c = ei_CurrencyUID e"
    and "k \<in> set (dbClassifications s)" "cls_UID k = ei_ClassificationUID e"
  shows "re_currencyID r = cur_ID c" "re_classificationID r = cls_ID k" "ei_AccountHolder r = ei_AccountHolder e"
    "ei_Amount r = ei_Amount e" "ei_EntryType r = ei_EntryType e" "re_normalSide r = cls_NormalSide k"
    "currencyOfID s (cur_ID c) = Inr (currencyDim c)"
proof -
  have d: "currencyDim c \<in> set (ListCurrencyDims s)" "classDim k \<in> set (ListClassificationDims s)"
    using assms(3,5) by (simp_all add: ListCurrencyDims_def ListClassificationDims_def)
  have "dc_UID (currencyDim c) = ei_CurrencyUID e" "dk_UID (classDim k) = ei_ClassificationUID e"
    using assms(4,6) by (simp_all add: currencyDim_def classDim_def)
  then have "currencyOfUID s (ei_CurrencyUID e) = Inr (currencyDim c)"
    "classOfUID s (ei_ClassificationUID e) = Inr (classDim k)"
    using dims_unique_find(1) [OF assms(2) d(1)] dims_unique_find(3) [OF assms(2) d(2)] by simp_all
  then show "re_currencyID r = cur_ID c" "re_classificationID r = cls_ID k" "ei_AccountHolder r = ei_AccountHolder e"
    "ei_Amount r = ei_Amount e" "ei_EntryType r = ei_EntryType e" "re_normalSide r = cls_NormalSide k"
    using assms(1) by (auto simp: resolveEntry_def currencyDim_def classDim_def)
  show "currencyOfID s (cur_ID c) = Inr (currencyDim c)"
    using dims_unique_find(2) [OF assms(2) d(1)] by (simp add: currencyDim_def)
qed

lemma checkAmountPrecision_ok:
  assumes "decimal_lib D" "0 \<le> dc_Exponent cur" "dc_Exponent cur \<le> 18" "dval D a = unit_val n"
    and "10 ^ nat (18 - dc_Exponent cur) dvd n"
  shows "checkAmountPrecision D a cur = Inr ()"
proof -
  let ?e = "dc_Exponent cur"
  obtain m where m: "n = m * 10 ^ nat (18 - ?e)" using assms(5) by (auto simp: dvd_def)
  have "dval D a = of_int m * (10 powi (18 - ?e) * inverse (10 powi 18))"
    using assms(3,4) by (simp add: unit_val_def m power_int_def field_simps)
  also have "10 powi (18 - ?e) * inverse (10 powi 18) = (10 powi (- ?e) :: rat)"
    by (simp add: power_int_diff power_int_minus field_simps)
  finally have a: "dval D a = of_int m * 10 powi (- ?e)" .
  then have x: "dval D a * 10 powi ?e = of_int m" by (simp add: power_int_minus)
  have "rescaled trunc_rat (dval D a) ?e = dval D a" unfolding rescaled_def x by (simp add: a)
  then show ?thesis
    by (simp add: checkAmountPrecision_def decimal_lib.Equal [OF assms(1)] decimal_lib.Truncate [OF assms(1,2)])
qed

text \<open>An entry on known, active dimensions with no policy on its account, in whole smallest units.\<close>

definition entry_postable :: "'d env \<Rightarrow> db \<Rightarrow> 'd EntryInput \<Rightarrow> bool" where
  "entry_postable E s e \<longleftrightarrow>
     (\<exists>c\<in>set (dbCurrencies s). cur_UID c = ei_CurrencyUID e \<and> cur_IsActive c
        \<and> 10 ^ nat (18 - cur_Exponent c) dvd units (envD E) (ei_Amount e)
        \<and> (\<exists>k\<in>set (dbClassifications s). cls_UID k = ei_ClassificationUID e \<and> cls_IsActive k
             \<and> GetEffectiveAccountPolicy s (ei_AccountHolder e) (cur_ID c) (cls_ID k) = None))"

lemma postable_gates:
  assumes "decimal_lib (envD E)" "dims_ok s" "JournalInput_Validate (envD E) J now input = Inr ()"
    and "list_all (entry_postable E s) (ji_Entries input)" "resolveEntries s (ji_Entries input) = Inr rs"
    and "jt \<in> set (dbJournalTypes s)" "jt_IsActive jt"
  shows "validateEntriesPrecision E s rs = Inr ()" "assertDimsActive s (jt_ID jt) rs = Inr ()"
    "\<forall>r\<in>set rs. policy_of s r = None \<and> NormalSide_IsValid (re_normalSide r) \<and> EntryType_IsValid (ei_EntryType r)"
proof -
  have du: "dims_unique s" using assms(2) by (simp add: dims_ok_def)
  have each: "\<exists>c\<in>set (dbCurrencies s). \<exists>k\<in>set (dbClassifications s). re_currencyID r = cur_ID c \<and> cur_IsActive c
      \<and> re_classificationID r = cls_ID k \<and> cls_IsActive k \<and> policy_of s r = None \<and> re_normalSide r = cls_NormalSide k
      \<and> currencyOfID s (cur_ID c) = Inr (currencyDim c) \<and> EntryType_IsValid (ei_EntryType r)
      \<and> checkAmountPrecision (envD E) (ei_Amount r) (currencyDim c) = Inr ()" if r: "r \<in> set rs" for r
  proof -
    have "list_all2 (\<lambda>e r. resolveEntry s e = Inr r) (ji_Entries input) rs"
      using assms(5) by (simp add: resolveEntries_def mapR_Inr)
    from list_all2_right [OF this r] obtain e where e: "e \<in> set (ji_Entries input)" "resolveEntry s e = Inr r" by blast
    then obtain c k where c: "c \<in> set (dbCurrencies s)" "cur_UID c = ei_CurrencyUID e" "cur_IsActive c"
        "10 ^ nat (18 - cur_Exponent c) dvd units (envD E) (ei_Amount e)"
      and k: "k \<in> set (dbClassifications s)" "cls_UID k = ei_ClassificationUID e" "cls_IsActive k"
        "GetEffectiveAccountPolicy s (ei_AccountHolder e) (cur_ID c) (cls_ID k) = None"
      using assms(4) by (auto simp: list_all_iff entry_postable_def)
    note rows = resolveEntry_rows [OF e(2) du c(1,2) k(1,2)]
    have "0 \<le> cur_Exponent c" "cur_Exponent c \<le> 18" using assms(2) c(1) by (simp_all add: dims_ok_def)
    then have "checkAmountPrecision (envD E) (ei_Amount r) (currencyDim c) = Inr ()"
      using checkAmountPrecision_ok [OF assms(1), of "currencyDim c"] decimal_lib.valid_units(1) [OF assms(1,3) e(1)] c(4)
      by (simp add: rows(4) currencyDim_def)
    moreover have "EntryType_IsValid (ei_EntryType r)"
      using assms(3) e(1) by (simp add: rows(5) decimal_lib.JournalInput_Validate_Inr [OF assms(1)] well_formed_def
          decimal_lib.validateEntry_Inr [OF assms(1)])
    ultimately show ?thesis using c k rows by (intro bexI [of _ c] bexI [of _ k]) (simp_all add: policy_of_def)
  qed
  show "validateEntriesPrecision E s rs = Inr ()"
    unfolding validateEntriesPrecision_def forEach_Inr using each by fastforce
  have inj: "inj_on cur_ID (set (dbCurrencies s))" "inj_on cls_ID (set (dbClassifications s))"
      "inj_on jt_ID (set (dbJournalTypes s))"
    using du by (simp_all add: dims_unique_def ListCurrencyDims_def ListClassificationDims_def ListJournalTypeDims_def
        comp_def currencyDim_def classDim_def jtDim_def distinct_map)
  have "cur_IsActive c" if "c \<in> set (dbCurrencies s)" "cur_ID c = re_currencyID r" "r \<in> set rs" for c r
    using each [OF that(3)] that(1,2) inj_onD [OF inj(1)] by metis
  moreover have "cls_IsActive k" if "k \<in> set (dbClassifications s)" "cls_ID k = re_classificationID r" "r \<in> set rs" for k r
    using each [OF that(3)] that(1,2) inj_onD [OF inj(2)] by metis
  moreover have "jt_IsActive t" if "t \<in> set (dbJournalTypes s)" "jt_ID t = jt_ID jt" for t
    using inj_onD [OF inj(3) that(2,1) assms(6)] assms(7) by simp
  ultimately have "InactiveDims s (dedupe (map re_currencyID rs)) (dedupe (map re_classificationID rs)) [jt_ID jt] = []"
    unfolding InactiveDims_def by (auto simp: filter_empty_conv)
  then show "assertDimsActive s (jt_ID jt) rs = Inr ()" by (simp add: assertDimsActive_def)
  show "\<forall>r\<in>set rs. policy_of s r = None \<and> NormalSide_IsValid (re_normalSide r) \<and> EntryType_IsValid (ei_EntryType r)"
    using each assms(2) by (fastforce simp: dims_ok_def)
qed

lemma no_policies:
  assumes "\<forall>r\<in>set rs. policy_of s r = None \<and> NormalSide_IsValid (re_normalSide r) \<and> EntryType_IsValid (ei_EntryType r)"
  shows "enforceAccountPolicies E s rs = Inr ()"
proof -
  have "\<exists>dd. foldR (policyStep E s) (d, []) rs = Inr (dd, []) \<and> fst ` set dd \<subseteq> fst ` set d \<union> dim_of ` set rs" for d
    using assms
  proof (induction rs arbitrary: d)
    case (Cons r rs)
    have "\<exists>x. SignedAmount (envD E) (re_normalSide r) (ei_EntryType r) (ei_Amount r) = Inr x"
      using Cons.prems by (simp add: SignedAmount_def Sign_def)
    then obtain x where "SignedAmount (envD E) (re_normalSide r) (ei_EntryType r) (ei_Amount r) = Inr x" ..
    then have step: "policyStep E s (d, []) r = Inr (addAt (envD E) (dim_of r) x d, [])"
      using Cons.prems by (simp add: policyStep_def policy_of_def getEffectiveAccountPolicy_def dim_of_def)
    have "fst ` set (addAt (envD E) (dim_of r) x d) = insert (dim_of r) (fst ` set d)"
      using set_fst_addAt [of "envD E" "dim_of r" x d] by simp
    with step Cons.IH [of "addAt (envD E) (dim_of r) x d"] Cons.prems show ?case by auto
  qed auto
  from this [of "[]"] obtain dd where f: "foldR (policyStep E s) ([], []) rs = Inr (dd, [])" "fst ` set dd \<subseteq> dim_of ` set rs"
    by auto
  have "checkMinBalance E s x = Inr ()" if "x \<in> set dd" for x
  proof -
    obtain r where "r \<in> set rs" "fst x = dim_of r" using f(2) \<open>x \<in> set dd\<close> by auto
    with assms show ?thesis
      by (cases x) (auto simp: checkMinBalance_def dim_of_def policy_of_def getEffectiveAccountPolicy_def)
  qed
  with f(1) show ?thesis by (simp add: enforceAccountPolicies_def)
qed

lemma attestJournal_fresh:
  assumes "attestJournal E s input eff = Inr auth" "GetJournalByIdempotencyKey s (ji_IdempotencyKey input) = None"
  shows "ja_status auth \<in> {AuthStatusSigned, AuthStatusUnsignedNoAttestor, AuthStatusUnsignedTxMode}" "\<not> ja_replay auth"
proof -
  have "ja_status auth \<in> {AuthStatusSigned, AuthStatusUnsignedNoAttestor, AuthStatusUnsignedTxMode} \<and> \<not> ja_replay auth"
  proof (cases "envAttestor E")
    case None
    then show ?thesis using assms(1) by (auto simp: attestJournal_def unsignedAuth_def)
  next
    case (Some sign)
    then obtain d where "(case sign d of Inl e \<Rightarrow> Inl (e @ [ErrAttestorUnavailable])
        | Inr (signature, keyID) \<Rightarrow> Inr \<lparr>ja_digest = d, ja_signature = signature,
            ja_keyID = keyID, ja_status = AuthStatusSigned, ja_replay = False\<rparr>) = Inr auth"
      using assms by (auto simp: attestJournal_def)
    then show ?thesis by (cases "sign d") auto
  qed
  then show "ja_status auth \<in> {AuthStatusSigned, AuthStatusUnsignedNoAttestor, AuthStatusUnsignedTxMode}"
    "\<not> ja_replay auth" by simp_all
qed

text \<open>The body of the transaction, for whatever authorization the caller brings.\<close>

lemma postJournalWithQueries_accepts:
  assumes "store_env E" "ledger_ok E s" "JournalInput_Validate (envD E) (envJ E) (envNow E) input = Inr ()"
    and "GetJournalByIdempotencyKey s (ji_IdempotencyKey input) = None"
    and "ji_EventUID input = []" "ji_ReversalOfUID input = []"
    and "jt \<in> set (dbJournalTypes s)" "jt_UID jt = ji_JournalTypeUID input" "jt_IsActive jt"
    and "list_all (entry_postable E s) (ji_Entries input)"
    and "case GetActivePeriodClose s of None \<Rightarrow> True | Some line \<Rightarrow> pd_CloseBefore line \<le> eff"
    and "units (envD E) (fst (Totals (envD E) input)) < 10 ^ 30"
    and "ja_status auth \<in> {AuthStatusSigned, AuthStatusUnsignedNoAttestor, AuthStatusUnsignedTxMode}" "\<not> ja_replay auth"
  shows "\<exists>j t. postJournalWithQueries E input eff auth s = Inr (j, t)"
proof -
  have D: "decimal_lib (envD E)" using assms(1) by (simp add: store_env_def)
  have dims: "dims_ok s" "dims_unique s" using assms(2) by (simp_all add: ledger_ok_def dims_ok_def)
  obtain rs where r: "resolveEntries s (ji_Entries input) = Inr rs"
    using resolveEntries_total [OF _ dims(2), of "ji_Entries input"] assms(10)
    by (fastforce simp: list_all_iff entry_postable_def)
  have "jtDim jt \<in> set (ListJournalTypeDims s)" using assms(7) by (simp add: ListJournalTypeDims_def)
  from dims_unique_find(5) [OF dims(2) this] have jt: "jtOfUID s (ji_JournalTypeUID input) = Inr (jtDim jt)"
    using assms(8) by (simp add: jtDim_def)
  note g = postable_gates [OF D dims(1) assms(3,10) r assms(7,9)]
  have id: "dj_ID (jtDim jt) = jt_ID jt" by (simp add: jtDim_def)
  have "ja_status auth \<noteq> []" using assms(13) by (auto simp: auth_statuses)
  moreover have "resolveEventLink E s input rs = Inr 0" "resolveReversalOf E s input rs = Inr 0"
    using assms(5,6) by (simp_all add: resolveEventLink_def resolveReversalOf_def)
  moreover have "checkPeriodClose s eff = Inr ()"
    using assms(11) by (auto simp: checkPeriodClose_def split: option.splits)
  ultimately show ?thesis
    using writeJournal_ok [OF assms(1-3) r jt assms(4,12,13)] assms(14) g(1,2) no_policies [OF g(3)] assms(3,4) r jt
    by (simp add: postJournalWithQueries_def id)
qed



end
