(* ===== verification/Lock_Order.thy ===== *)
theory Lock_Order
  imports Posting
begin

text \<open>
  The order in which postings take their locks (\<^verbatim>\<open>postgres/ledger_store.go\<close>). A lock is held until the
  transaction ends and a second request for a held lock returns at once, so a transaction is the
  sequence of its requests and a position in it. Transactions that request new locks in one global
  order never wait for each other in a circle.
\<close>

section \<open>The global order\<close>

definition lock_key :: "lock \<Rightarrow> nat \<times> string \<times> int \<times> int" where
  "lock_key l = (case l of IdempotencyLock k \<Rightarrow> (0, k, 0, 0) | BookingRowLock b \<Rightarrow> (1, [], b, 0)
     | JournalRowLock j \<Rightarrow> (2, [], j, 0) | BalanceLock h c \<Rightarrow> (3, [], h, c))"

lemma lock_key_inj: "lock_key a = lock_key b \<longleftrightarrow> a = b"
  by (auto simp: lock_key_def split: lock.splits)

instantiation lock :: linorder
begin

definition less_eq_lock :: "lock \<Rightarrow> lock \<Rightarrow> bool" where
  "a \<le> b \<longleftrightarrow> lock_key a \<le> lock_key b"

definition less_lock :: "lock \<Rightarrow> lock \<Rightarrow> bool" where
  "a < b \<longleftrightarrow> lock_key a < lock_key b"

instance
  by standard (auto simp: less_eq_lock_def less_lock_def lock_key_inj less_le)

end

lemma lock_order_simps:
  "IdempotencyLock k < IdempotencyLock k' \<longleftrightarrow> k < k'" "IdempotencyLock k < BookingRowLock b"
  "IdempotencyLock k < JournalRowLock j" "IdempotencyLock k < BalanceLock h c" "BookingRowLock b < JournalRowLock j"
  "BookingRowLock b < BalanceLock h c" "JournalRowLock j < BalanceLock h c"
  "BalanceLock h c < BalanceLock h' c' \<longleftrightarrow> (h, c) < (h', c')"
  by (simp_all add: less_lock_def lock_key_def less_prod_def)

section \<open>What a posting requests\<close>

definition acquireBalanceLocks :: "balancePair list \<Rightarrow> lock list" where
  "acquireBalanceLocks pairs = map (\<lambda>p. BalanceLock (fst p) (snd p)) pairs"

text \<open>The requests of \<^verbatim>\<open>postJournalWithQueries\<close>, for a journal whose references resolve.\<close>

definition eventLock :: "'d env \<Rightarrow> db \<Rightarrow> 'd JournalInput \<Rightarrow> lock list" where
  "eventLock E s input =
     (case envParseUID E (ji_EventUID input) of None \<Rightarrow> []
      | Some uid \<Rightarrow> (case GetEventByUID s uid of None \<Rightarrow> []
         | Some event \<Rightarrow> if ev_BookingID event = 0 then [] else [BookingRowLock (ev_BookingID event)]))"

definition reversalLock :: "'d env \<Rightarrow> db \<Rightarrow> 'd JournalInput \<Rightarrow> lock list" where
  "reversalLock E s input =
     (case envParseUID E (ji_ReversalOfUID input) of None \<Rightarrow> []
      | Some uid \<Rightarrow> (case GetJournalForUpdateByUID s uid of None \<Rightarrow> [] | Some orig \<Rightarrow> [JournalRowLock (jr_ID orig)]))"

definition postLocks :: "'d env \<Rightarrow> db \<Rightarrow> 'd JournalInput \<Rightarrow> 'd resolvedEntry list \<Rightarrow> lock list" where
  "postLocks E s input resolved =
     (case GetJournalByIdempotencyKey s (ji_IdempotencyKey input) of
        Some _ \<Rightarrow> []
      | None \<Rightarrow> IdempotencyLock (ji_IdempotencyKey input) # eventLock E s input @ reversalLock E s input
          @ acquireBalanceLocks (balancePairsFromEntries resolved))"

definition batchLocks :: "'d env \<Rightarrow> db \<Rightarrow> 'd JournalInput list \<Rightarrow> lock list result" where
  "batchLocks E s inputs =
     bindR (preacquireBatchLocks s inputs []) (\<lambda>first.
     bindR (mapR (\<lambda>input. bindR (resolveEntries s (ji_Entries input)) (\<lambda>rs.
         Inr (postLocks E s input rs))) inputs) (\<lambda>posts. Inr (first @ concat posts)))"

section \<open>Transactions that wait\<close>

text \<open>A transaction: its requests, and how many it has been granted.\<close>

type_synonym txn = "lock list \<times> nat"

definition held :: "txn \<Rightarrow> lock set" where
  "held x = set (take (snd x) (fst x))"

definition waits_for :: "(nat \<Rightarrow> txn) \<Rightarrow> nat \<Rightarrow> nat \<Rightarrow> bool" where
  "waits_for txs i j \<longleftrightarrow> i \<noteq> j \<and> snd (txs i) < length (fst (txs i))
     \<and> fst (txs i) ! snd (txs i) \<notin> held (txs i) \<and> fst (txs i) ! snd (txs i) \<in> held (txs j)"

text \<open>Every request is for a lock already held or for one above all that are held.\<close>

definition ordered_requests :: "lock list \<Rightarrow> bool" where
  "ordered_requests ls \<longleftrightarrow>
     (\<forall>n < length ls. ls ! n \<in> set (take n ls) \<or> (\<forall>l\<in>set (take n ls). l < ls ! n))"

lemma no_circular_wait:
  assumes "\<And>i. ordered_requests (fst (txs i))"
  shows "acyclic {(i, j). waits_for txs i j}"
proof (rule acyclicI, rule allI, rule notI)
  let ?R = "{(i, j). waits_for txs i j}" and ?next = "\<lambda>i. fst (txs i) ! snd (txs i)"
  have step: "?next i < ?next j" if "waits_for txs i j" "waits_for txs j k" for i j k
    using that assms [of j] by (auto simp: waits_for_def held_def ordered_requests_def)
  have up: "?next i < ?next j" if "(i, j) \<in> ?R\<^sup>+" "(j, k) \<in> ?R" for i j k
    using that
  proof (induction arbitrary: k rule: trancl_induct)
    case (base j)
    then show ?case using step by blast
  next
    case (step j l)
    then show ?case using \<open>\<And>i j k. waits_for txs i j \<Longrightarrow> waits_for txs j k \<Longrightarrow> ?next i < ?next j\<close>
      by (metis (no_types, lifting) CollectD case_prodD order.strict_trans)
  qed
  fix i
  assume c: "(i, i) \<in> ?R\<^sup>+"
  then obtain k where "(i, k) \<in> ?R" by (metis tranclD)
  with up [OF c] show False by blast
qed

section \<open>Postings request in order\<close>

lemma ordered_strict: "sorted_wrt (<) ls \<Longrightarrow> ordered_requests ls"
  by (auto simp: ordered_requests_def in_set_conv_nth sorted_wrt_iff_nth_less)

lemma ordered_append_held:
  assumes "ordered_requests ls" "set ms \<subseteq> set ls"
  shows "ordered_requests (ls @ ms)"
  unfolding ordered_requests_def
proof (intro allI impI)
  fix n
  assume n: "n < length (ls @ ms)"
  show "(ls @ ms) ! n \<in> set (take n (ls @ ms)) \<or> (\<forall>l\<in>set (take n (ls @ ms)). l < (ls @ ms) ! n)"
  proof (cases "n < length ls")
    case True
    then show ?thesis using assms(1) by (simp add: ordered_requests_def nth_append)
  next
    case False
    then have "(ls @ ms) ! n \<in> set ms" using n by (simp add: nth_append)
    with False assms(2) show ?thesis by auto
  qed
qed

lemma sortedUniquePairs_sorted:
  "sorted_wrt (<) (sortedUniquePairs ps)" "set (sortedUniquePairs ps) = set ps"
proof -
  have "pairLess a b \<longleftrightarrow> a < b" for a b by (auto simp: pairLess_def less_prod_def)
  then have "sortedUniquePairs ps = sort_key (\<lambda>x. x) (dedupe ps)"
    unfolding sortedUniquePairs_def by (intro sort_by_key) simp
  then show "sorted_wrt (<) (sortedUniquePairs ps)" "set (sortedUniquePairs ps) = set ps"
    by (simp_all add: strict_sorted_iff)
qed

lemma balanceLocks_sorted:
  "sorted_wrt (<) ps \<Longrightarrow> sorted_wrt (<) (acquireBalanceLocks ps)"
  by (simp add: acquireBalanceLocks_def sorted_wrt_map lock_order_simps)

lemma postLocks_sorted: "sorted_wrt (<) (postLocks E s input rs)"
proof -
  have ev: "eventLock E s input = [] \<or> (\<exists>b. eventLock E s input = [BookingRowLock b])"
    by (auto simp: eventLock_def split: option.splits)
  have re: "reversalLock E s input = [] \<or> (\<exists>j. reversalLock E s input = [JournalRowLock j])"
    by (auto simp: reversalLock_def split: option.splits)
  have "sorted_wrt (<) (acquireBalanceLocks (balancePairsFromEntries rs))"
    by (simp add: balanceLocks_sorted balancePairsFromEntries_def sortedUniquePairs_sorted)
  moreover have "\<forall>l\<in>set (acquireBalanceLocks (balancePairsFromEntries rs)). \<exists>h c. l = BalanceLock h c"
    by (auto simp: acquireBalanceLocks_def)
  ultimately show ?thesis
    using ev re by (auto simp: postLocks_def sorted_wrt_append lock_order_simps split: option.splits)
qed

lemma preacquire_locks:
  assumes "preacquireBatchLocks s inputs [] = Inr ls"
  shows "sorted_wrt (<) ls"
    "input \<in> set inputs \<Longrightarrow> IdempotencyLock (ji_IdempotencyKey input) \<in> set ls"
    "input \<in> set inputs \<Longrightarrow> resolveEntries s (ji_Entries input) = Inr rs \<Longrightarrow>
       set (acquireBalanceLocks (balancePairsFromEntries rs)) \<subseteq> set ls"
proof -
  let ?keys = "sort (dedupe (map ji_IdempotencyKey inputs))"
  obtain resolved where r: "mapR (\<lambda>input. resolveEntries s (ji_Entries input)) inputs = Inr resolved"
    and ls: "ls = map IdempotencyLock ?keys
      @ acquireBalanceLocks (sortedUniquePairs (concat (map balancePairsFromEntries resolved)))"
    using assms by (auto simp: preacquireBatchLocks_def acquireBalanceLocks_def Let_def)
  have "sorted_wrt (<) ?keys" by (simp add: strict_sorted_iff)
  then have "sorted_wrt (<) (map IdempotencyLock ?keys)" by (simp add: sorted_wrt_map lock_order_simps)
  then show "sorted_wrt (<) ls"
    unfolding ls sorted_wrt_append using balanceLocks_sorted [OF sortedUniquePairs_sorted(1)]
    by (auto simp: acquireBalanceLocks_def lock_order_simps)
  show "IdempotencyLock (ji_IdempotencyKey input) \<in> set ls" if "input \<in> set inputs"
    using that by (simp add: ls)
  show "set (acquireBalanceLocks (balancePairsFromEntries rs)) \<subseteq> set ls"
    if "input \<in> set inputs" "resolveEntries s (ji_Entries input) = Inr rs"
  proof -
    have "list_all2 (\<lambda>i r. resolveEntries s (ji_Entries i) = Inr r) inputs resolved" using r by (simp add: mapR_Inr)
    then have "rs \<in> set resolved" using that by (induction rule: list_all2_induct) auto
    then have "set (balancePairsFromEntries rs) \<subseteq> set (sortedUniquePairs (concat (map balancePairsFromEntries resolved)))"
      by (auto simp: sortedUniquePairs_sorted(2))
    then show ?thesis by (auto simp: ls acquireBalanceLocks_def)
  qed
qed

lemma batchLocks_ordered:
  assumes "batchLocks E s inputs = Inr ls"
    and "\<forall>input\<in>set inputs. eventLock E s input = [] \<and> reversalLock E s input = []"
  shows "ordered_requests ls"
proof -
  obtain first posts where first: "preacquireBatchLocks s inputs [] = Inr first"
    and posts: "list_all2 (\<lambda>input ls. \<exists>rs. resolveEntries s (ji_Entries input) = Inr rs \<and> postLocks E s input rs = ls) inputs posts"
    and ls: "ls = first @ concat posts"
    using assms(1) by (auto simp: batchLocks_def mapR_Inr elim!: list_all2_mono)
  note p = preacquire_locks [OF first]
  have "set xs \<subseteq> set first" if "xs \<in> set posts" for xs
  proof -
    have "\<exists>input\<in>set inputs. \<exists>rs. resolveEntries s (ji_Entries input) = Inr rs \<and> postLocks E s input rs = xs"
      using posts that by (induction rule: list_all2_induct) auto
    then obtain input rs where "input \<in> set inputs" "resolveEntries s (ji_Entries input) = Inr rs"
      "xs = postLocks E s input rs" by blast
    then show ?thesis
      using p(2,3) assms(2) by (auto simp: postLocks_def split: option.splits)
  qed
  then have "set (concat posts) \<subseteq> set first" by auto
  with ordered_append_held [OF ordered_strict [OF p(1)]] show ?thesis by (simp only: ls)
qed


text \<open>A deposit that has its key and waits for its balances behind a batch, next to finished requests.\<close>

definition resolved_deposit :: "db \<Rightarrow> (int \<times> int) JournalInput \<Rightarrow> (int \<times> int) resolvedEntry list" where
  "resolved_deposit s input = (case resolveEntries s (ji_Entries input) of Inl _ \<Rightarrow> [] | Inr rs \<Rightarrow> rs)"

definition batch_requests :: "db \<Rightarrow> (int \<times> int) JournalInput list \<Rightarrow> lock list" where
  "batch_requests s inputs = (case batchLocks ref_env s inputs of Inl _ \<Rightarrow> [] | Inr ls \<Rightarrow> ls)"

definition sample_txs :: "nat \<Rightarrow> txn" where
  "sample_txs i =
     (if i = 0 then (postLocks ref_env base_ledger (deposit ''a'' 7 100) (resolved_deposit base_ledger (deposit ''a'' 7 100)), 1)
      else if i = 1 then (batch_requests base_ledger [deposit ''b'' 7 5, deposit ''c'' 8 5], 4)
      else (postLocks ref_env posted_ledger (deposit ''d1'' 7 1050) [], 0))"


text \<open>
  With a linked event a batch takes the balances first and the booking row later, the reverse of a single
  posting: the two can wait for each other.
\<close>

definition event_ledger :: db where
  "event_ledger = base_ledger\<lparr>
     dbEvents := [\<lparr>ev_ID = 20, ev_ClassificationCode = ''deposit'', ev_BookingID = 21, ev_AccountHolder = 7,
        ev_CurrencyID = 1, ev_FromStatus = ''confirming'', ev_ToStatus = ''confirmed'', ev_Amount = 0,
        ev_SettledAmount = 0, ev_JournalID = None, ev_Metadata = [], ev_OccurredAt = 0, ev_DeliveryStatus = ''pending'',
        ev_Attempts = 0, ev_MaxAttempts = 5, ev_NextAttemptAt = 0, ev_DeliveredAt = 0, ev_CreatedAt = 0,
        ev_ActorID = 1, ev_Source = [], ev_UID = ''e1''\<rparr>]\<rparr>"

definition deadlocked_txs :: "nat \<Rightarrow> txn" where
  "deadlocked_txs i =
     (let input = (\<lambda>key. (deposit key 7 100)\<lparr>ji_EventUID := ''e1''\<rparr>)
      in if i = 0 then (postLocks ref_env event_ledger (input ''a'') (resolved_deposit event_ledger (input ''a'')), 2)
         else (batch_requests event_ledger [input ''b''], 4))"


end
