(* ===== verification/Reversal_Store.thy ===== *)
theory Reversal_Store
  imports Posting
begin

text \<open>
  Reversals: \<^verbatim>\<open>ReverseJournal\<close> of \<^verbatim>\<open>postgres/ledger_store.go\<close> and \<^verbatim>\<open>ReverseJournalFraction\<close> of
  \<^verbatim>\<open>postgres/reversal_fraction_store.go\<close>, with the derivation of a reversal's entries they share with
  \<^verbatim>\<open>AuthorizeReversal\<close>. The lemmas show what a completing reversal leaves of a journal, what a fraction
  moves, and what a repeated call gets.
\<close>

section \<open>The fraction of a total\<close>

definition reversalScaleGuardDigits :: int where
  "reversalScaleGuardDigits = 12"

definition scaleByFraction :: "'d decimal_ops \<Rightarrow> 'd \<Rightarrow> int \<Rightarrow> int \<Rightarrow> int \<Rightarrow> 'd result" where
  "scaleByFraction D tot num den exponent =
     (let raw = dDivRound D (dMul D tot (dNewFromBigInt D num 0)) (dNewFromBigInt D den 0)
            (exponent + reversalScaleGuardDigits)
      in Round D raw exponent RoundHalfUp)"

section \<open>The entries of a reversal\<close>

text \<open>The entry that undoes an amount on a dimension.\<close>

definition reversalEntry :: "db \<Rightarrow> entryDimKey \<times> 'd \<Rightarrow> 'd EntryInput result" where
  "reversalEntry s item =
     (case item of ((holder, currencyID, classificationID, entryType), amount) \<Rightarrow>
        bindR (currencyOfID s currencyID) (\<lambda>cur.
        bindR (classOfID s classificationID) (\<lambda>cls. Inr \<lparr>
          ei_AccountHolder = holder, ei_CurrencyUID = dc_UID cur, ei_ClassificationUID = dk_UID cls,
          ei_EntryType = flipEntryType entryType, ei_Amount = amount\<rparr>)))"

text \<open>Everything that remains: per dimension, in order of first appearance, what was posted less what
  is already reversed. The representative row of a dimension has the dimension's own columns.\<close>

definition remainingItems ::
  "'d env \<Rightarrow> EntryRow list \<Rightarrow> (entryDimKey \<times> 'd) list \<Rightarrow> (entryDimKey \<times> 'd) list" where
  "remainingItems E entries alreadyReversed =
     (let D = envD E; originalByDim = entriesByDimension E entries
      in filter (\<lambda>item. dIsPositive D (snd item))
           (map (\<lambda>key. (key, dSub D (valAt D originalByDim key) (valAt D alreadyReversed key)))
             (map fst originalByDim)))"

text \<open>One group per currency and side. Go visits the groups in any order; they are taken here in order
  of first appearance.\<close>

definition groupOf :: "EntryRow \<Rightarrow> int \<times> EntryType" where
  "groupOf e = (er_CurrencyID e, er_EntryType e)"

definition groupShares ::
  "'d env \<Rightarrow> db \<Rightarrow> EntryRow list \<Rightarrow> int \<Rightarrow> int \<Rightarrow> int \<times> EntryType \<Rightarrow> 'd list result" where
  "groupShares E s entries num den gk =
     bindR (currencyOfID s (fst gk)) (\<lambda>currency.
       let D = envD E; exponent = dc_Exponent currency;
           weights = map (\<lambda>e. numericToDecimal E (er_Amount e)) (filter (\<lambda>e. groupOf e = gk) entries);
           groupTotal = foldl (dAdd D) (dZero D) weights
       in bindR (scaleByFraction D groupTotal num den exponent) (\<lambda>scaledTotal.
            Allocate D scaledTotal weights exponent))"

definition scatter :: "nat list \<Rightarrow> 'd list \<Rightarrow> 'd list \<Rightarrow> 'd list" where
  "scatter idxs shares amounts = fold (\<lambda>(idx, share) a. a[idx := share]) (zip idxs shares) amounts"

definition fractionAmounts :: "'d env \<Rightarrow> db \<Rightarrow> EntryRow list \<Rightarrow> int \<Rightarrow> int \<Rightarrow> 'd list result" where
  "fractionAmounts E s entries num den =
     foldR (\<lambda>amounts gk. bindR (groupShares E s entries num den gk) (\<lambda>shares.
         Inr (scatter (filter (\<lambda>i. groupOf (entries ! i) = gk) [0..<length entries]) shares amounts)))
       (replicate (length entries) (dZero (envD E))) (dedupe (map groupOf entries))"

definition fractionItems :: "'d env \<Rightarrow> EntryRow list \<Rightarrow> 'd list \<Rightarrow> (entryDimKey \<times> 'd) list" where
  "fractionItems E entries amounts =
     filter (\<lambda>item. dIsPositive (envD E) (snd item)) (zip (map rowDimKey entries) amounts)"

definition checkOvershoot ::
  "'d env \<Rightarrow> EntryRow list \<Rightarrow> (entryDimKey \<times> 'd) list \<Rightarrow> (entryDimKey \<times> 'd) list \<Rightarrow> unit result" where
  "checkOvershoot E entries alreadyReversed items =
     (let D = envD E; newByDim = sumBy D fst snd items; originalByDim = entriesByDimension E entries
      in forEach (\<lambda>key.
           if dGreaterThan D (dAdd D (valAt D alreadyReversed key) (valAt D newByDim key))
                (valAt D originalByDim key)
           then Inl [ErrConflict] else Inr ()) (map fst originalByDim))"

definition reversalEntriesFor ::
  "'d env \<Rightarrow> db \<Rightarrow> EntryRow list \<Rightarrow> (entryDimKey \<times> 'd) list \<Rightarrow> int \<Rightarrow> int \<Rightarrow> 'd EntryInput list result" where
  "reversalEntriesFor E s entries alreadyReversed num den =
     (if num = den then
        bindR (mapR (reversalEntry s) (remainingItems E entries alreadyReversed)) (\<lambda>reversedEntries.
          if reversedEntries = [] then Inl [ErrConflict] else Inr reversedEntries)
      else
        bindR (fractionAmounts E s entries num den) (\<lambda>reversedAmounts.
        let items = fractionItems E entries reversedAmounts
        in andThen (checkOvershoot E entries alreadyReversed items)
             (bindR (mapR (reversalEntry s) items) (\<lambda>reversedEntries.
               if reversedEntries = [] then invalid else Inr reversedEntries))))"

section \<open>Authorizing and posting a reversal\<close>

definition fractionString :: "int \<Rightarrow> int \<Rightarrow> string" where
  "fractionString num den = int_String num @ ''/'' @ int_String den"

definition reversalInput ::
  "string \<Rightarrow> string \<Rightarrow> 'd EntryInput list \<Rightarrow> string \<Rightarrow> metadata \<Rightarrow> 'd JournalInput" where
  "reversalInput jtUID idempotencyKey entries journalUID md = \<lparr>
     ji_JournalTypeUID = jtUID, ji_IdempotencyKey = idempotencyKey, ji_Entries = entries,
     ji_Metadata = md, ji_ActorID = 0, ji_Source = ''reversal'', ji_ReversalOfUID = journalUID,
     ji_EventUID = [], ji_EffectiveAt = 0\<rparr>"

definition AuthorizeReversal ::
  "'d env \<Rightarrow> db \<Rightarrow> string \<Rightarrow> int \<Rightarrow> int \<Rightarrow> string \<Rightarrow> string \<Rightarrow> 'd AuthorizedJournal result" where
  "AuthorizeReversal E s journalUID num den reason idempotencyKey =
     (if \<not> envPool E then invalid
      else andThen (ValidateReversalFraction num den)
      (if idempotencyKey = [] then invalid
       else bindR (uidToPG E journalUID) (\<lambda>pgUID.
         case GetJournalByUID s pgUID of
           None \<Rightarrow> Inl [ErrNotFound]
         | Some original \<Rightarrow>
             if jr_ReversalOf original \<noteq> None then Inl [ErrConflict]
             else let entries = ListJournalEntries s (jr_ID original)
               in if entries = [] then Inl [ErrNotFound]
               else bindR (cumulativeReversedByDimension E s original entries) (\<lambda>alreadyReversed.
                 bindR (reversalEntriesFor E s entries alreadyReversed num den) (\<lambda>reversedEntries.
                 bindR (jtOfID s (jr_JournalTypeID original)) (\<lambda>jt.
                   Authorize E s (reversalInput (dj_UID jt) idempotencyKey reversedEntries journalUID
                     [(''reason'', reason), (''reversal_fraction'', fractionString num den)])))))))"

text \<open>The end of both reversals: a signature obtained before the transaction counts only for the very
  intent that is posted.\<close>

definition postReversal ::
  "'d env \<Rightarrow> 'd JournalInput \<Rightarrow> 'd AuthorizedJournal option \<Rightarrow> journalAuth \<Rightarrow> db \<Rightarrow> ('d Journal \<times> db) result" where
  "postReversal E input preAuth fallback s =
     (case preAuth of
        None \<Rightarrow> postJournalWithQueries E input (resolveEffectiveAt E (ji_EffectiveAt input)) fallback s
      | Some a \<Rightarrow>
          bindR (CanonicalJournalDigest (envD E) input (aj_EffectiveAt a)) (\<lambda>digest.
            if digest \<noteq> aj_Digest a then Inl [ErrConflict]
            else postJournalWithQueries E input (aj_EffectiveAt a)
              \<lparr>ja_digest = aj_Digest a, ja_signature = aj_Signature a, ja_keyID = aj_KeyID a,
               ja_status = aj_Status a, ja_replay = False\<rparr> s))"

definition metadataAt :: "metadata \<Rightarrow> string \<Rightarrow> string" where
  "metadataAt m k = (case map_of m k of None \<Rightarrow> [] | Some v \<Rightarrow> v)"

definition reverseJournalFractionWithQueries ::
  "'d env \<Rightarrow> string \<Rightarrow> int \<Rightarrow> int \<Rightarrow> string \<Rightarrow> string \<Rightarrow> 'd AuthorizedJournal option \<Rightarrow> journalAuth \<Rightarrow> db
    \<Rightarrow> ('d Journal \<times> db) result" where
  "reverseJournalFractionWithQueries E journalUID num den reason idempotencyKey preAuth fallback s =
     bindR (uidToPG E journalUID) (\<lambda>pgUID.
       case GetJournalForUpdateByUID s pgUID of
         None \<Rightarrow> Inl [ErrNotFound]
       | Some original \<Rightarrow>
           (case GetJournalByIdempotencyKey s idempotencyKey of
              Some existing \<Rightarrow>
                if jr_ReversalOf existing \<noteq> Some (jr_ID original) then Inl [ErrConflict]
                else if metadataAt (jr_Metadata existing) ''reason'' \<noteq> reason
                   \<or> metadataAt (jr_Metadata existing) ''reversal_fraction'' \<noteq> fractionString num den
                  then Inl [ErrConflict]
                else bindR (journalFromRow E s existing) (\<lambda>j. Inr (j, s))
            | None \<Rightarrow>
                if jr_ReversalOf original \<noteq> None then Inl [ErrConflict]
                else let entries = ListJournalEntries s (jr_ID original)
                  in if entries = [] then Inl [ErrNotFound]
                  else bindR (cumulativeReversedByDimension E s original entries) (\<lambda>alreadyReversed.
                    bindR (reversalEntriesFor E s entries alreadyReversed num den) (\<lambda>reversedEntries.
                    bindR (jtOfID s (jr_JournalTypeID original)) (\<lambda>jt.
                      postReversal E (reversalInput (dj_UID jt) idempotencyKey reversedEntries journalUID
                        [(''reason'', reason), (''reversal_fraction'', fractionString num den)])
                        preAuth fallback s)))))"

text \<open>With a pool and a signer the intent is signed first, outside the transaction.\<close>

definition preauthorize ::
  "'d env \<Rightarrow> db \<Rightarrow> string \<Rightarrow> int \<Rightarrow> int \<Rightarrow> string \<Rightarrow> string \<Rightarrow> ('d AuthorizedJournal option \<times> journalAuth) result" where
  "preauthorize E s journalUID num den reason idempotencyKey =
     (if \<not> envPool E then Inr (None, unsignedAuth AuthStatusUnsignedTxMode)
      else case envAttestor E of
        None \<Rightarrow> Inr (None, unsignedAuth AuthStatusUnsignedNoAttestor)
      | Some _ \<Rightarrow> bindR (AuthorizeReversal E s journalUID num den reason idempotencyKey) (\<lambda>a.
          Inr (Some a, unsignedAuth AuthStatusUnsignedNoAttestor)))"

definition ReverseJournalFraction ::
  "'d env \<Rightarrow> string \<Rightarrow> int \<Rightarrow> int \<Rightarrow> string \<Rightarrow> string \<Rightarrow> db \<Rightarrow> ('d Journal \<times> db) result" where
  "ReverseJournalFraction E journalUID num den reason idempotencyKey s =
     andThen (ValidateReversalFraction num den)
     (if idempotencyKey = [] then invalid
      else bindR (preauthorize E s journalUID num den reason idempotencyKey) (\<lambda>(preAuth, fallback).
        reverseJournalFractionWithQueries E journalUID num den reason idempotencyKey preAuth fallback s))"

definition reverseJournalWithQueries ::
  "'d env \<Rightarrow> string \<Rightarrow> string \<Rightarrow> string \<Rightarrow> 'd AuthorizedJournal option \<Rightarrow> journalAuth \<Rightarrow> db
    \<Rightarrow> ('d Journal \<times> db) result" where
  "reverseJournalWithQueries E journalUID reason expectedKey preAuth fallback s =
     bindR (uidToPG E journalUID) (\<lambda>pgUID.
       case GetJournalForUpdateByUID s pgUID of
         None \<Rightarrow> Inl [ErrNotFound]
       | Some original \<Rightarrow>
           if jr_ReversalOf original \<noteq> None then Inl [ErrConflict]
           else let existingReversals = ListReversalsByOriginalJournalID s (jr_ID original)
             in if existingReversals \<noteq> [] then
               (case List.find (\<lambda>r. jr_IdempotencyKey r = expectedKey) existingReversals of
                  Some r \<Rightarrow> bindR (journalFromRow E s r) (\<lambda>j. Inr (j, s))
                | None \<Rightarrow> Inl [ErrConflict])
             else bindR (reversalEntriesFor E s (ListJournalEntries s (jr_ID original)) [] 1 1) (\<lambda>reversedEntries.
               bindR (jtOfID s (jr_JournalTypeID original)) (\<lambda>jt.
                 postReversal E (reversalInput (dj_UID jt) expectedKey reversedEntries journalUID
                   [(''reason'', reason)]) preAuth fallback s)))"

definition reversalKey :: "string \<Rightarrow> string \<Rightarrow> string" where
  "reversalKey journalUID reason = ''reversal:'' @ journalUID @ '':'' @ reason"

definition ReverseJournal :: "'d env \<Rightarrow> string \<Rightarrow> string \<Rightarrow> db \<Rightarrow> ('d Journal \<times> db) result" where
  "ReverseJournal E journalUID reason s =
     (let expectedKey = reversalKey journalUID reason
      in bindR (preauthorize E s journalUID 1 1 reason expectedKey) (\<lambda>(preAuth, fallback).
           reverseJournalWithQueries E journalUID reason expectedKey preAuth fallback s))"

section \<open>From items to rows\<close>

lemma flip_flip: "EntryType_IsValid t \<Longrightarrow> flipEntryType (flipEntryType t) = t"
  by (auto simp: EntryType_IsValid_def flipEntryType_def)

lemma classOfID_Inr: "classOfID s i = Inr d \<Longrightarrow> d \<in> set (ListClassificationDims s) \<and> dk_ID d = i"
  by (auto simp: classOfID_def orErr_def split: option.splits dest: find_Some_mem)

lemma reversalEntry_resolved:
  assumes "dims_unique s" "reversalEntry s (key, a) = Inr e" "resolveEntry s e = Inr r"
    and "EntryType_IsValid (snd (snd (snd key)))"
  shows "newDimKey r = key \<and> ei_Amount r = a"
proof -
  obtain h c k t where key: "key = (h, c, k, t)" by (cases key) auto
  from assms(2) obtain cur cls where c: "currencyOfID s c = Inr cur" "classOfID s k = Inr cls"
    and e: "e = \<lparr>ei_AccountHolder = h, ei_CurrencyUID = dc_UID cur, ei_ClassificationUID = dk_UID cls,
      ei_EntryType = flipEntryType t, ei_Amount = a\<rparr>"
    by (auto simp: reversalEntry_def key)
  have "currencyOfUID s (dc_UID cur) = Inr cur" "classOfUID s (dk_UID cls) = Inr cls" "dc_ID cur = c" "dk_ID cls = k"
    using dims_unique_find(1,3) [OF assms(1)] currencyOfID_Inr [OF c(1)] classOfID_Inr [OF c(2)] by auto
  with assms(3,4) show ?thesis
    by (auto simp: resolveEntry_def e newDimKey_def key flip_flip)
qed

lemma items_resolved:
  assumes "dims_unique s" "mapR (reversalEntry s) items = Inr es" "resolveEntries s es = Inr rs"
    and "\<forall>item\<in>set items. EntryType_IsValid (snd (snd (snd (fst item))))"
  shows "list_all2 (\<lambda>item r. newDimKey r = fst item \<and> ei_Amount r = snd item) items rs"
proof -
  have "list_all2 (\<lambda>item e. reversalEntry s item = Inr e) items es" using assms(2) by (simp add: mapR_Inr)
  moreover have "list_all2 (\<lambda>e r. resolveEntry s e = Inr r) es rs"
    using assms(3) by (simp add: resolveEntries_def mapR_Inr)
  ultimately show ?thesis using assms(4)
  proof (induction items arbitrary: es rs)
    case (Cons item items)
    then show ?case
      using reversalEntry_resolved [OF assms(1), of "fst item" "snd item"] by (fastforce simp: list_all2_Cons1)
  qed auto
qed

lemma items_sum:
  assumes "list_all2 (\<lambda>item r. newDimKey r = fst item \<and> ei_Amount r = snd item) items rs"
  shows "(\<Sum>r\<leftarrow>rs. f (newDimKey r) (ei_Amount r)) = (\<Sum>item\<leftarrow>items. f (fst item) (snd item))"
  using assms by (induction rule: list_all2_induct) auto

lemma sumBy_distinct: "distinct (map fst (sumBy D key amt xs))"
  by (induction xs rule: rev_induct) (auto simp: sumBy_snoc fst_addAt sumBy_def)

lemma sum_one_key:
  fixes f :: "'a \<Rightarrow> 'b::comm_monoid_add"
  assumes "distinct xs"
  shows "(\<Sum>x\<leftarrow>xs. if x = k then f x else 0) = (if k \<in> set xs then f k else 0)"
  using assms by (induction xs) auto

context store_env
begin

lemma entriesByDimension_val:
  "dval (envD E) (valAt (envD E) (entriesByDimension E (ListJournalEntries s j)) key) = unit_val (posted_amount s j key)"
  by (simp add: entriesByDimension_def sumBy_rows_val posted_amount_def)

lemma remaining_sum:
  assumes already: "\<And>key. dval (envD E) (valAt (envD E) m key) = unit_val (reversed_amount s j key)"
    and le: "\<And>key. reversed_amount s j key \<le> posted_amount s j key" "\<And>key. 0 \<le> reversed_amount s j key"
  shows "(\<Sum>item\<leftarrow>remainingItems E (ListJournalEntries s j) m. if fst item = key then units (envD E) (snd item) else 0)
      = posted_amount s j key - reversed_amount s j key"
proof -
  let ?D = "envD E" and ?es = "ListJournalEntries s j"
  let ?keys = "map fst (entriesByDimension E ?es)"
  define rem where "rem = (\<lambda>key. dSub ?D (valAt ?D (entriesByDimension E ?es) key) (valAt ?D m key))"
  have val: "dval ?D (rem k) = unit_val (posted_amount s j k - reversed_amount s j k)" for k
    by (simp add: rem_def Sub already entriesByDimension_val unit_val_simps)
  have pos: "dIsPositive ?D (rem k) \<longleftrightarrow> reversed_amount s j k < posted_amount s j k" for k
    using unit_val_order(1) [of 0] by (simp add: IsPositive val unit_val_simps(1))
  have items: "remainingItems E ?es m = filter (\<lambda>item. dIsPositive ?D (snd item)) (map (\<lambda>k. (k, rem k)) ?keys)"
    by (simp add: remainingItems_def rem_def Let_def)
  have "(\<Sum>item\<leftarrow>remainingItems E ?es m. if fst item = key then units ?D (snd item) else 0)
      = (\<Sum>k\<leftarrow>?keys. if k = key then (if dIsPositive ?D (rem k) then units ?D (rem k) else 0) else 0)"
    unfolding items sum_filter_if map_map comp_def by (intro arg_cong [of _ _ sum_list] map_cong) simp_all
  also have "\<dots> = (if key \<in> set ?keys then (if dIsPositive ?D (rem key) then units ?D (rem key) else 0) else 0)"
    by (rule sum_one_key) (simp add: entriesByDimension_def sumBy_distinct)
  also have "\<dots> = posted_amount s j key - reversed_amount s j key"
  proof (cases "key \<in> set ?keys")
    case True
    with le(1) [of key] show ?thesis by (simp add: pos unit_val_units [OF val])
  next
    case False
    then have "filter (\<lambda>e. rowDimKey e = key) ?es = []"
      unfolding entriesByDimension_def set_fst_sumBy by (auto simp: filter_empty_conv)
    then have "posted_amount s j key = 0" by (simp add: posted_amount_def)
    with False le [of key] show ?thesis by simp
  qed
  finally show ?thesis .
qed

end

section \<open>A journal and its reversals together\<close>

text \<open>What a journal and all its reversals leave on a dimension.\<close>

definition chain_effect :: "db \<Rightarrow> int \<Rightarrow> int \<Rightarrow> int \<Rightarrow> int \<Rightarrow> int" where
  "chain_effect s j h c k =
     (\<Sum>e\<leftarrow>filter (on_dim h c k) (ListJournalEntries s j @ ListReversalEntriesByOriginal s j).
        signed_entry (normal_side_of s k) e)"

lemma side_split:
  assumes "\<forall>e\<in>set es. er_EntryType e = a \<or> er_EntryType e = b" "a \<noteq> b"
  shows "(\<Sum>e\<leftarrow>filter (on_dim h c k) es. signed_entry n e)
     = (if a = n then 1 else - 1) * (\<Sum>e\<leftarrow>filter (\<lambda>e. rowDimKey e = (h, c, k, a)) es. er_Amount e)
       + (if b = n then 1 else - 1) * (\<Sum>e\<leftarrow>filter (\<lambda>e. rowDimKey e = (h, c, k, b)) es. er_Amount e)"
  using assms(1)
proof (induction es)
  case (Cons e es)
  have row: "rowDimKey e = (h, c, k, t) \<longleftrightarrow> on_dim h c k e \<and> er_EntryType e = t" for t
    by (auto simp: rowDimKey_def on_dim_def)
  from Cons.prems consider "er_EntryType e = a" | "er_EntryType e = b" by auto
  then show ?case
    by cases (use Cons assms(2) in \<open>auto simp: row signed_entry_def algebra_simps\<close>)
qed simp

lemma flip_eq: "EntryType_IsValid t \<Longrightarrow> EntryType_IsValid t' \<Longrightarrow> flipEntryType t = flipEntryType t' \<longleftrightarrow> t = t'"
  by (metis flip_flip)

lemma undone_row: "EntryType_IsValid t \<Longrightarrow> EntryType_IsValid (er_EntryType e) \<Longrightarrow>
    rowDimKey e = (h, c, k, t) \<longleftrightarrow> undoneDimKey e = (h, c, k, flipEntryType t)"
  by (simp add: rowDimKey_def undoneDimKey_def flip_eq)

lemma chain_cleared:
  assumes "dims_ok s" "\<forall>e\<in>set (dbEntries s). entry_ok s e"
    and done_: "\<And>key. reversed_amount s j key = posted_amount s j key"
  shows "chain_effect s j h c k = 0"
proof (cases "k \<in> cls_ID ` set (dbClassifications s)")
  case True
  let ?n = "normal_side_of s k"
  have v: "\<forall>e\<in>set (ListJournalEntries s j). EntryType_IsValid (er_EntryType e)"
    "\<forall>e\<in>set (ListReversalEntriesByOriginal s j). EntryType_IsValid (er_EntryType e)"
    using assms(2) by (auto simp: ListJournalEntries_def ListReversalEntriesByOriginal_def entry_ok_def)
  obtain cl where cl: "cl \<in> set (dbClassifications s)" "cls_ID cl = k" using True by auto
  have "normal_side_of s (dk_ID (classDim cl)) = dk_NormalSide (classDim cl)"
    using assms(1) cl(1) by (intro normal_side_of_class) (auto simp: dims_ok_def ListClassificationDims_def)
  then have n: "?n = EntryTypeDebit \<or> ?n = EntryTypeCredit"
    using assms(1) cl by (auto simp: dims_ok_def classDim_def NormalSide_IsValid_def side_names)
  have t: "EntryType_IsValid EntryTypeDebit" "EntryType_IsValid EntryTypeCredit"
    "flipEntryType EntryTypeDebit = EntryTypeCredit" "flipEntryType EntryTypeCredit = EntryTypeDebit"
    "EntryTypeDebit \<noteq> EntryTypeCredit"
    by (simp_all add: EntryType_IsValid_def flipEntryType_def EntryTypeDebit_def EntryTypeCredit_def)
  have rev: "(\<Sum>e\<leftarrow>filter (\<lambda>e. rowDimKey e = (h, c, k, t)) (ListReversalEntriesByOriginal s j). er_Amount e)
      = posted_amount s j (h, c, k, flipEntryType t)" if "EntryType_IsValid t" for t
    unfolding done_ [symmetric] reversed_amount_def
    by (intro arg_cong [of _ _ sum_list] map_cong filter_cong) (use v(2) that undone_row in auto)
  have v': "\<forall>e\<in>set (ListJournalEntries s j). er_EntryType e = EntryTypeDebit \<or> er_EntryType e = EntryTypeCredit"
    "\<forall>e\<in>set (ListReversalEntriesByOriginal s j). er_EntryType e = EntryTypeDebit \<or> er_EntryType e = EntryTypeCredit"
    using v unfolding EntryType_IsValid_def by auto
  show ?thesis
    unfolding chain_effect_def filter_append map_append sum_list_append side_split [OF v'(1) t(5)] side_split [OF v'(2) t(5)]
      rev [OF t(1)] rev [OF t(2)] t(3,4) posted_amount_def
    using n t(5) by auto
next
  case False
  then have "filter (on_dim h c k) (ListJournalEntries s j @ ListReversalEntriesByOriginal s j) = []"
    using assms(2) by (fastforce simp: filter_empty_conv ListJournalEntries_def ListReversalEntriesByOriginal_def
        on_dim_def entry_ok_def)
  then show ?thesis unfolding chain_effect_def by simp
qed

lemma posting_chain:
  assumes "posting E input rs jtID eventID undo t auth s row u"
    and "ids_ok s" "\<forall>e\<in>set (dbEntries s). entry_ok s e" "undo \<noteq> 0" "undo \<noteq> dbSeq s + 1"
  shows "ledger_balance u h c k - ledger_balance s h c k = chain_effect u undo h c k - chain_effect s undo h c k"
proof -
  note p = posting_tables [OF assms(1)]
  show ?thesis
    using assms(4,5)
    by (simp add: ledger_balance_def chain_effect_def p(3) same_config_lookups(1) [OF p(1)]
        posting_lists(2) [OF assms(1-3)] posting_reversal_rows [OF assms(1-3)])
qed

section \<open>Posting a reversal\<close>

lemma postReversal_Inr:
  assumes "postReversal E input preAuth fallback s = Inr (j, t)"
  shows "\<exists>eff auth. postJournalWithQueries E input eff auth s = Inr (j, t)"
  using assms by (auto simp: postReversal_def split: option.splits if_splits)

lemma reversed_amount_nonneg:
  assumes "\<forall>e\<in>set (dbEntries s). entry_ok s e"
  shows "0 \<le> reversed_amount s j key"
  unfolding reversed_amount_def using assms
  by (intro sum_list_nonneg) (auto simp: ListReversalEntriesByOriginal_def entry_ok_def)

text \<open>The tables after a reversal whose entries were derived from items.\<close>

lemma reversal_posted:
  assumes "store_env E" "ledger_ok E s" "envParseUID E uid = Some pg" "GetJournalByUID s pg = Some orig"
    and "mapR (reversalEntry s) items = Inr es"
    and "\<forall>item\<in>set items. EntryType_IsValid (snd (snd (snd (fst item))))"
    and "postReversal E (reversalInput jtUID key es uid md) preAuth fallback s = Inr (j, t)" "t \<noteq> s"
  obtains rs jtID eventID eff auth row where
    "posting E (reversalInput jtUID key es uid md) rs jtID eventID (jr_ID orig) eff auth s row t"
    "list_all2 (\<lambda>item r. newDimKey r = fst item \<and> ei_Amount r = snd item) items rs"
    "journalFromRow E t row = Inr j" "GetJournalByIdempotencyKey s key = None"
    "\<forall>r\<in>set rs. dval (envD E) (ei_Amount r) = unit_val (units (envD E) (ei_Amount r))"
proof -
  let ?input = "reversalInput jtUID key es uid md"
  have D: "decimal_lib (envD E)" using assms(1) by (simp add: store_env_def)
  have u: "dims_unique s" using assms(2) by (simp add: ledger_ok_def dims_ok_def)
  obtain eff auth where post: "postJournalWithQueries E ?input eff auth s = Inr (j, t)"
    using postReversal_Inr [OF assms(7)] by blast
  have fresh: "GetJournalByIdempotencyKey s key = None"
    using post_existing(1) [OF post] assms(8) by (cases "GetJournalByIdempotencyKey s key") (auto simp: reversalInput_def)
  then have fresh': "GetJournalByIdempotencyKey s (ji_IdempotencyKey ?input) = None" by (simp add: reversalInput_def)
  obtain rs jtID eventID undo row where v: "JournalInput_Validate (envD E) (envJ E) (envNow E) ?input = Inr ()"
    and r: "resolveEntries s (ji_Entries ?input) = Inr rs" and undo: "resolveReversalOf E s ?input rs = Inr undo"
    and p: "posting E ?input rs jtID eventID undo eff auth s row t" and j: "journalFromRow E t row = Inr j"
    by (rule post_new [OF post fresh'], rule that)
  have "uid \<noteq> []" using assms(1,3) store_env.ParseUID_empty by fastforce
  then have "undo = jr_ID orig"
    using resolveReversalOf_Inr [OF undo] assms(3,4) by (auto simp: reversalInput_def)
  moreover have "list_all2 (\<lambda>item r. newDimKey r = fst item \<and> ei_Amount r = snd item) items rs"
    by (rule items_resolved [OF u assms(5) _ assms(6)]) (use r in \<open>simp add: reversalInput_def\<close>)
  moreover have "\<forall>r\<in>set rs. dval (envD E) (ei_Amount r) = unit_val (units (envD E) (ei_Amount r))"
  proof -
    have "list_all2 (\<lambda>e r. ei_Amount r = ei_Amount e) (ji_Entries ?input) rs"
      using resolveEntries_ok [OF r u] by (rule list_all2_mono) (simp add: resolved_ok_def)
    then have "\<forall>r\<in>set rs. \<exists>e\<in>set (ji_Entries ?input). ei_Amount r = ei_Amount e"
      by (induction rule: list_all2_induct) auto
    with decimal_lib.valid_units(1) [OF D v] show ?thesis by fastforce
  qed
  ultimately show thesis using that p j fresh by blast
qed

lemma reversal_amounts:
  assumes "posting E input rs jtID eventID undo eff auth s row t" "ids_ok s" "\<forall>e\<in>set (dbEntries s). entry_ok s e"
    and "undo \<noteq> 0" "undo \<noteq> dbSeq s + 1"
    and "list_all2 (\<lambda>item r. newDimKey r = fst item \<and> ei_Amount r = snd item) items rs"
  shows "posted_amount t undo key = posted_amount s undo key"
    "reversed_amount t undo key = reversed_amount s undo key
       + (\<Sum>item\<leftarrow>items. if fst item = key then units (envD E) (snd item) else 0)"
proof -
  show "posted_amount t undo key = posted_amount s undo key"
    using assms(5) by (simp add: posted_amount_def posting_lists(2) [OF assms(1-3)])
  have "reversed_amount t undo key = reversed_amount s undo key
      + (\<Sum>r\<leftarrow>rs. if newDimKey r = key then units (envD E) (ei_Amount r) else 0)"
    using assms(4) by (simp add: reversed_amount_def posting_reversal_rows [OF assms(1-3)] entryRowsOf_undone_sum)
  with items_sum [OF assms(6), of "\<lambda>k a. if k = key then units (envD E) a else 0"]
  show "reversed_amount t undo key = reversed_amount s undo key
       + (\<Sum>item\<leftarrow>items. if fst item = key then units (envD E) (snd item) else 0)" by simp
qed

section \<open>Completing a reversal\<close>

lemma remaining_types:
  assumes "\<forall>e\<in>set es. EntryType_IsValid (er_EntryType e)"
  shows "\<forall>item\<in>set (remainingItems E es m). EntryType_IsValid (snd (snd (snd (fst item))))"
proof
  fix item
  assume "item \<in> set (remainingItems E es m)"
  then have "fst item \<in> set (map fst (entriesByDimension E es))" by (force simp: remainingItems_def Let_def)
  then obtain e where "e \<in> set es" "fst item = rowDimKey e"
    unfolding entriesByDimension_def set_fst_sumBy by auto
  with assms show "EntryType_IsValid (snd (snd (snd (fst item))))" by (simp add: rowDimKey_def)
qed

lemma journal_found:
  assumes "ledger_ok E s" "GetJournalByUID s pg = Some orig"
  shows "orig \<in> set (dbJournals s)" "jr_UID orig = pg" "jr_ID orig \<noteq> 0" "jr_ID orig \<noteq> dbSeq s + 1"
proof -
  show "orig \<in> set (dbJournals s)" "jr_UID orig = pg"
    using assms(2) by (auto simp: GetJournalByUID_def dest: find_Some_mem)
  with assms(1) show "jr_ID orig \<noteq> 0" "jr_ID orig \<noteq> dbSeq s + 1" by (fastforce simp: ledger_ok_def ids_ok_def)+
qed

lemma completing_reversal:
  assumes "store_env E" "ledger_ok E s" "envParseUID E uid = Some pg" "GetJournalByUID s pg = Some orig"
    and m: "\<And>key. dval (envD E) (valAt (envD E) m key) = unit_val (reversed_amount s (jr_ID orig) key)"
    and "reversalEntriesFor E s (ListJournalEntries s (jr_ID orig)) m n n = Inr es"
    and "postReversal E (reversalInput jtUID key es uid md) preAuth fallback s = Inr (j, t)" "t \<noteq> s"
  shows "reversed_amount t (jr_ID orig) k = posted_amount t (jr_ID orig) k"
    "chain_effect t (jr_ID orig) h c cl = 0"
    "ledger_balance t h c cl = ledger_balance s h c cl - chain_effect s (jr_ID orig) h c cl" "ledger_ok E t"
    "posted_amount t (jr_ID orig) k = posted_amount s (jr_ID orig) k"
proof -
  let ?es = "ListJournalEntries s (jr_ID orig)" and ?o = "jr_ID orig"
  let ?items = "remainingItems E ?es m"
  have ok: "ids_ok s" "\<forall>e\<in>set (dbEntries s). entry_ok s e" "reversals_ok s" using assms(2) by (simp_all add: ledger_ok_def)
  note o = journal_found [OF assms(2,4)]
  have items: "mapR (reversalEntry s) ?items = Inr es" using assms(6) by (auto simp: reversalEntriesFor_def split: if_splits)
  have types: "\<forall>item\<in>set ?items. EntryType_IsValid (snd (snd (snd (fst item))))"
    using ok(2) by (intro remaining_types) (auto simp: ListJournalEntries_def entry_ok_def)
  obtain rs jtID eventID eff auth row where p:
    "posting E (reversalInput jtUID key es uid md) rs jtID eventID ?o eff auth s row t"
    and l: "list_all2 (\<lambda>item r. newDimKey r = fst item \<and> ei_Amount r = snd item) ?items rs"
    by (rule reversal_posted [OF assms(1-4) items types assms(7,8)], rule that)
  note a = reversal_amounts [OF p ok(1,2) o(3,4) l]
  have le: "reversed_amount s ?o k \<le> posted_amount s ?o k" for k using ok(3) unfolding reversals_ok_def by blast
  have sum: "reversed_amount s ?o k + (\<Sum>item\<leftarrow>?items. if fst item = k then units (envD E) (snd item) else 0)
      = posted_amount s ?o k" for k
    using store_env.remaining_sum [OF assms(1) m le reversed_amount_nonneg [OF ok(2)]] by simp
  show "posted_amount t ?o k = posted_amount s ?o k" by (rule a(1))
  show done_: "reversed_amount t ?o k = posted_amount t ?o k" for k using a sum by simp
  obtain eff' auth' where "postJournalWithQueries E (reversalInput jtUID key es uid md) eff' auth' s = Inr (j, t)"
    using postReversal_Inr [OF assms(7)] by blast
  then show t: "ledger_ok E t" by (rule posting_ledger_ok [OF assms(1,2)])
  then show z: "chain_effect t ?o h c cl = 0" by (intro chain_cleared done_) (simp_all add: ledger_ok_def)
  show "ledger_balance t h c cl = ledger_balance s h c cl - chain_effect s ?o h c cl"
    using posting_chain [OF p ok(1,2) o(3,4), of h c cl] z by simp
qed

lemma ReverseJournal_Inr:
  assumes "ReverseJournal E uid reason s = Inr (j, t)" "t \<noteq> s"
  shows "\<exists>pg orig es jtUID preAuth fallback. envParseUID E uid = Some pg \<and> GetJournalByUID s pg = Some orig
    \<and> ListReversalsByOriginalJournalID s (jr_ID orig) = [] \<and> jr_ReversalOf orig = None
    \<and> reversalEntriesFor E s (ListJournalEntries s (jr_ID orig)) [] 1 1 = Inr es
    \<and> postReversal E (reversalInput jtUID (reversalKey uid reason) es uid [(''reason'', reason)])
        preAuth fallback s = Inr (j, t)"
proof -
  obtain preAuth fallback where
    "reverseJournalWithQueries E uid reason (reversalKey uid reason) preAuth fallback s = Inr (j, t)"
    using assms(1) unfolding ReverseJournal_def Let_def by (auto split: prod.splits)
  note run = this [unfolded reverseJournalWithQueries_def uidToPG_def GetJournalForUpdateByUID_def Let_def]
  from run obtain pg where pg: "envParseUID E uid = Some pg" by (auto split: option.splits)
  with run obtain orig where orig: "GetJournalByUID s pg = Some orig" by (auto split: option.splits)
  with run pg have none: "jr_ReversalOf orig = None" by (auto split: if_splits)
  with run pg orig assms(2) have "ListReversalsByOriginalJournalID s (jr_ID orig) = []"
    by (auto split: option.splits if_splits)
  with run pg orig none show ?thesis by simp blast
qed

lemma ReverseJournalFraction_Inr:
  assumes "ReverseJournalFraction E uid num den reason key s = Inr (j, t)" "t \<noteq> s"
  shows "\<exists>pg orig m es jtUID preAuth fallback. envParseUID E uid = Some pg \<and> GetJournalByUID s pg = Some orig
    \<and> ListJournalEntries s (jr_ID orig) \<noteq> [] \<and> jr_ReversalOf orig = None
    \<and> cumulativeReversedByDimension E s orig (ListJournalEntries s (jr_ID orig)) = Inr m
    \<and> reversalEntriesFor E s (ListJournalEntries s (jr_ID orig)) m num den = Inr es
    \<and> postReversal E (reversalInput jtUID key es uid
          [(''reason'', reason), (''reversal_fraction'', fractionString num den)]) preAuth fallback s = Inr (j, t)
    \<and> 0 < num \<and> num \<le> den"
proof -
  obtain preAuth fallback where v: "ValidateReversalFraction num den = Inr ()" and
    "reverseJournalFractionWithQueries E uid num den reason key preAuth fallback s = Inr (j, t)"
    using assms(1) unfolding ReverseJournalFraction_def by (auto split: prod.splits if_splits)
  note run = this(2) [unfolded reverseJournalFractionWithQueries_def uidToPG_def GetJournalForUpdateByUID_def Let_def]
  from run obtain pg where pg: "envParseUID E uid = Some pg" by (auto split: option.splits)
  with run obtain orig where orig: "GetJournalByUID s pg = Some orig" by (auto split: option.splits)
  with run pg assms(2) have "GetJournalByIdempotencyKey s key = None" by (auto split: option.splits if_splits)
  with run pg orig v show ?thesis by (simp add: ValidateReversalFraction_def split: if_splits) blast
qed

lemma empty_history_val:
  assumes "decimal_lib D" "ListReversalsByOriginalJournalID s j = []"
  shows "dval D (valAt D [] ak) = unit_val (reversed_amount s j ak)"
  by (simp add: valAt_def decimal_lib.Zero [OF assms(1)] reversed_amount_def ListReversalEntriesByOriginal_def
      assms(2) unit_val_simps)

text \<open>A history that satisfies the invariant passes the chain check.\<close>

lemma positive_dim:
  assumes "\<forall>e\<in>set es. 0 < er_Amount e" "e \<in> set es" "f e = key"
  shows "0 < (\<Sum>e\<leftarrow>filter (\<lambda>e. f e = key) es. er_Amount e)"
proof -
  have "er_Amount e \<le> (\<Sum>e\<leftarrow>filter (\<lambda>e. f e = key) es. er_Amount e)"
    using assms by (intro member_le_sum_list) auto
  with assms show ?thesis by fastforce
qed

lemma chain_well_formed:
  assumes "store_env E" "ledger_ok E s"
  shows "\<exists>m. cumulativeReversedByDimension E s orig (ListJournalEntries s (jr_ID orig)) = Inr m"
proof -
  let ?D = "envD E" and ?es = "ListJournalEntries s (jr_ID orig)" and ?rows = "ListReversalEntriesByOriginal s (jr_ID orig)"
  have D: "decimal_lib ?D" using assms(1) by (simp add: store_env_def)
  have ent: "\<forall>e\<in>set (dbEntries s). entry_ok s e" using assms(2) by (simp add: ledger_ok_def)
  have le: "reversed_amount s (jr_ID orig) key \<le> posted_amount s (jr_ID orig) key" for key
    using assms(2) unfolding ledger_ok_def reversals_ok_def by blast
  let ?sum = "sumBy ?D undoneDimKey (\<lambda>r. numericToDecimal E (er_Amount r))"
  have key: "map_of (entriesByDimension E ?es) key \<noteq> None" if "key \<in> undoneDimKey ` set ?rows" for key
  proof -
    from that obtain e where e: "e \<in> set ?rows" "undoneDimKey e = key" by auto
    have "0 < reversed_amount s (jr_ID orig) key" unfolding reversed_amount_def
      by (rule positive_dim [where f = undoneDimKey, OF _ e]) (use ent in \<open>auto simp: ListReversalEntriesByOriginal_def entry_ok_def\<close>)
    with le [of key] have "filter (\<lambda>e. rowDimKey e = key) ?es \<noteq> []" by (auto simp: posted_amount_def)
    then have "key \<in> rowDimKey ` set ?es" by (auto simp: filter_empty_conv)
    then show ?thesis unfolding entriesByDimension_def map_of_sumBy by simp
  qed
  have over: "\<not> dGreaterThan ?D (valAt ?D (?sum ?rows) key) (valAt ?D (entriesByDimension E ?es) key)" for key
    using le [of key]
    by (simp add: decimal_lib.GreaterThan [OF D] store_env.entriesByDimension_val [OF assms(1)]
        store_env.sumBy_rows_val [OF assms(1)] reversed_amount_def unit_val_order not_less)
  have keys: "set (sortedDimKeys (?sum xs)) = undoneDimKey ` set xs" for xs
    unfolding sortedDimKeys_def set_sort_by by (rule set_fst_sumBy)
  have "assertReversalChainIsWellFormed E s orig ?es (?sum ?rows)
      (\<lambda>j. ?sum (filter (\<lambda>r. er_JournalID r = j) ?rows)) = Inr ()"
    using key over by (auto simp: assertReversalChainIsWellFormed_def Let_def keys)
  then show ?thesis by (auto simp: cumulativeReversedByDimension_def Let_def)
qed

lemma nothing_remains:
  assumes "store_env E" "\<And>key. dval (envD E) (valAt (envD E) m key) = unit_val (reversed_amount s j key)"
    and "\<And>key. reversed_amount s j key = posted_amount s j key"
  shows "reversalEntriesFor E s (ListJournalEntries s j) m n n = Inl [ErrConflict]"
proof -
  have D: "decimal_lib (envD E)" using assms(1) by (simp add: store_env_def)
  have "remainingItems E (ListJournalEntries s j) m = []"
    by (simp add: remainingItems_def Let_def filter_empty_conv decimal_lib.IsPositive [OF D] decimal_lib.Sub [OF D]
        store_env.entriesByDimension_val [OF assms(1)] assms(2,3))
  then show ?thesis by (simp add: reversalEntriesFor_def)
qed

text \<open>C7. A completing reversal clears a journal: when \<^verbatim>\<open>ReverseJournal\<close>, or \<^verbatim>\<open>ReverseJournalFraction\<close> with
  equal numerator and denominator, posts, every dimension of the original is reversed exactly, however
  the earlier fractions were rounded; the journal and its reversals together leave nothing on any
  account, and every balance changes by what was still outstanding of them and by nothing else.\<close>

theorem completing_reversal_clears:
  assumes "store_env E" "ledger_ok E s"
    and "ReverseJournal E uid reason s = Inr (j, t) \<or> ReverseJournalFraction E uid n n reason key s = Inr (j, t)"
    and "t \<noteq> s"
  shows "\<exists>orig. GetJournalByUID s (jr_UID orig) = Some orig \<and> envParseUID E uid = Some (jr_UID orig)
    \<and> (\<forall>ak. reversed_amount t (jr_ID orig) ak = posted_amount s (jr_ID orig) ak)
    \<and> (\<forall>h c k. chain_effect t (jr_ID orig) h c k = 0
         \<and> ledger_balance t h c k = ledger_balance s h c k - chain_effect s (jr_ID orig) h c k)
    \<and> ledger_ok E t"
proof -
  have D: "decimal_lib (envD E)" using assms(1) by (simp add: store_env_def)
  obtain pg orig m es jtUID key' md preAuth fallback n' where
    pg: "envParseUID E uid = Some pg" "GetJournalByUID s pg = Some orig"
    and m: "\<And>ak. dval (envD E) (valAt (envD E) m ak) = unit_val (reversed_amount s (jr_ID orig) ak)"
    and es: "reversalEntriesFor E s (ListJournalEntries s (jr_ID orig)) m n' n' = Inr es"
    and post: "postReversal E (reversalInput jtUID key' es uid md) preAuth fallback s = Inr (j, t)"
    using assms(3)
  proof
    assume "ReverseJournal E uid reason s = Inr (j, t)"
    from ReverseJournal_Inr [OF this assms(4)] obtain pg orig es jtUID preAuth fallback where
      r: "envParseUID E uid = Some pg" "GetJournalByUID s pg = Some orig"
      "ListReversalsByOriginalJournalID s (jr_ID orig) = []"
      "reversalEntriesFor E s (ListJournalEntries s (jr_ID orig)) [] 1 1 = Inr es"
      "postReversal E (reversalInput jtUID (reversalKey uid reason) es uid [(''reason'', reason)]) preAuth fallback s = Inr (j, t)"
      by blast
    from that [OF r(1,2) empty_history_val [OF D r(3)] r(4,5)] show ?thesis .
  next
    assume "ReverseJournalFraction E uid n n reason key s = Inr (j, t)"
    from ReverseJournalFraction_Inr [OF this assms(4)] obtain pg orig m es jtUID preAuth fallback where
      r: "envParseUID E uid = Some pg" "GetJournalByUID s pg = Some orig"
      "cumulativeReversedByDimension E s orig (ListJournalEntries s (jr_ID orig)) = Inr m"
      "reversalEntriesFor E s (ListJournalEntries s (jr_ID orig)) m n n = Inr es"
      "postReversal E (reversalInput jtUID key es uid [(''reason'', reason), (''reversal_fraction'', fractionString n n)])
         preAuth fallback s = Inr (j, t)"
      by blast
    from that [OF r(1,2) store_env.cumulativeReversed_val [OF assms(1) r(3)] r(4,5)] show ?thesis .
  qed
  note completing_reversal [OF assms(1,2) pg m es post assms(4)]
  with pg journal_found(2) [OF assms(2) pg(2)] show ?thesis by (intro exI [of _ orig]) simp
qed

section \<open>A repeated call\<close>

lemma env_now_simps [simp]:
  "numericToDecimal (E\<lparr>envNow := now\<rparr>) = numericToDecimal E" "uidToPG (E\<lparr>envNow := now\<rparr>) = uidToPG E"
  "ledger_ok (E\<lparr>envNow := now\<rparr>) = ledger_ok E" "journalFromRow (E\<lparr>envNow := now\<rparr>) = journalFromRow E"
  by (simp_all add: fun_eq_iff numericToDecimal_def uidToPG_def ledger_ok_def uids_ok_def journalFromRow_def)

lemma GetJournalByUID_append:
  "GetJournalByUID s pg = Some r \<Longrightarrow> dbJournals t = dbJournals s @ rs \<Longrightarrow> GetJournalByUID t pg = Some r"
  by (auto simp: GetJournalByUID_def find_Some_iff nth_append)

lemma reversal_row:
  assumes "store_env E" "ledger_ok E s" "ReverseJournal E uid reason s = Inr (j, t)" "t \<noteq> s"
  obtains pg orig row where "envParseUID E uid = Some pg" "GetJournalByUID t pg = Some orig" "jr_ReversalOf orig = None"
    "ListJournalEntries t (jr_ID orig) \<noteq> []" "ListReversalsByOriginalJournalID t (jr_ID orig) = [row]"
    "jr_IdempotencyKey row = reversalKey uid reason" "journalFromRow E t row = Inr j"
    "\<forall>key. reversed_amount t (jr_ID orig) key = posted_amount t (jr_ID orig) key" "ledger_ok E t"
proof -
  have D: "decimal_lib (envD E)" using assms(1) by (simp add: store_env_def)
  have ok: "ids_ok s" "\<forall>e\<in>set (dbEntries s). entry_ok s e" using assms(2) by (simp_all add: ledger_ok_def)
  obtain pg orig es jtUID preAuth fallback where
    r: "envParseUID E uid = Some pg" "GetJournalByUID s pg = Some orig" "jr_ReversalOf orig = None"
    "ListReversalsByOriginalJournalID s (jr_ID orig) = []"
    and es: "reversalEntriesFor E s (ListJournalEntries s (jr_ID orig)) [] 1 1 = Inr es"
    and post: "postReversal E (reversalInput jtUID (reversalKey uid reason) es uid [(''reason'', reason)]) preAuth fallback s = Inr (j, t)"
    using ReverseJournal_Inr [OF assms(3,4)] by blast
  let ?items = "remainingItems E (ListJournalEntries s (jr_ID orig)) []"
  have items: "mapR (reversalEntry s) ?items = Inr es" "es \<noteq> []"
    using es by (auto simp: reversalEntriesFor_def split: if_splits)
  have types: "\<forall>item\<in>set ?items. EntryType_IsValid (snd (snd (snd (fst item))))"
    using ok(2) by (intro remaining_types) (auto simp: ListJournalEntries_def entry_ok_def)
  obtain rs jtID eventID eff auth row where p:
    "posting E (reversalInput jtUID (reversalKey uid reason) es uid [(''reason'', reason)]) rs jtID eventID (jr_ID orig) eff auth s row t"
    and j: "journalFromRow E t row = Inr j"
    by (rule reversal_posted [OF assms(1,2) r(1,2) items(1) types post assms(4)], rule that)
  note o = journal_found [OF assms(2) r(2)] and q = posting_tables [OF p] and w = posting_row [OF p]
  have "ListJournalEntries s (jr_ID orig) \<noteq> []"
    using items by (auto simp: remainingItems_def entriesByDimension_def sumBy_def)
  then have "ListJournalEntries t (jr_ID orig) \<noteq> []" using posting_lists(2) [OF p ok o(4)] by simp
  moreover have "ListReversalsByOriginalJournalID t (jr_ID orig) = [row]"
    using r(4) o(3) w(4) by (simp add: ListReversalsByOriginalJournalID_def q(2) zeroInt64ToNil_def)
  moreover have "jr_IdempotencyKey row = reversalKey uid reason" using w(2) by (simp add: reversalInput_def)
  moreover note completing_reversal(1,4) [OF assms(1,2) r(1,2) empty_history_val [OF D r(4)] es post assms(4)]
  ultimately show thesis
    using that r(1) GetJournalByUID_append [OF r(2) q(2)] r(3) j by blast
qed

text \<open>C17. A full reversal may be repeated safely as long as nothing is signed: the second call, at whatever
  time, returns the first reversal and changes nothing. With a signer configured it never does: the
  intent is derived before the history is looked at, nothing remains to be signed, and the retry is
  refused as a conflict.\<close>

theorem reversal_retry:
  assumes "store_env E" "ledger_ok E s" "ReverseJournal E uid reason s = Inr (j, t)" "t \<noteq> s"
  shows "ReverseJournal (E\<lparr>envNow := now\<rparr>) uid reason t =
    (if envPool E \<and> envAttestor E \<noteq> None then Inl [ErrConflict] else Inr (j, t))"
proof -
  let ?E = "E\<lparr>envNow := now\<rparr>"
  obtain pg orig row where r: "envParseUID E uid = Some pg" "GetJournalByUID t pg = Some orig" "jr_ReversalOf orig = None"
    "ListJournalEntries t (jr_ID orig) \<noteq> []" "ListReversalsByOriginalJournalID t (jr_ID orig) = [row]"
    "jr_IdempotencyKey row = reversalKey uid reason" "journalFromRow E t row = Inr j"
    "\<forall>key. reversed_amount t (jr_ID orig) key = posted_amount t (jr_ID orig) key" "ledger_ok E t"
    by (rule reversal_row [OF assms])
  have pg: "uidToPG E uid = Inr pg" using r(1) by (simp add: uidToPG_def)
  have E: "store_env ?E" using store_env_update [OF assms(1), where now = now and a = "envAttestor E" and p = "envPool E"] by simp
  obtain m where m: "cumulativeReversedByDimension ?E t orig (ListJournalEntries t (jr_ID orig)) = Inr m"
    using chain_well_formed [OF E] r(9) by fastforce
  have none: "reversalEntriesFor ?E t (ListJournalEntries t (jr_ID orig)) m 1 1 = Inl [ErrConflict]"
    using r(8) by (intro nothing_remains [OF E] store_env.cumulativeReversed_val [OF E m]) blast
  have key: "reversalKey uid reason \<noteq> []" by (simp add: reversalKey_def)
  show ?thesis
  proof (cases "envPool E \<and> envAttestor E \<noteq> None")
    case True
    then have "AuthorizeReversal ?E t uid 1 1 reason (reversalKey uid reason) = Inl [ErrConflict]"
      using r m none pg key by (simp add: AuthorizeReversal_def Let_def ValidateReversalFraction_def)
    with True show ?thesis by (auto simp: ReverseJournal_def preauthorize_def)
  next
    case False
    have "reverseJournalWithQueries ?E uid reason (reversalKey uid reason) None fb t = Inr (j, t)" for fb
      using r pg by (simp add: reverseJournalWithQueries_def GetJournalForUpdateByUID_def Let_def)
    with False show ?thesis by (auto simp: ReverseJournal_def preauthorize_def Let_def)
  qed
qed

lemma reversal_ledger_ok:
  assumes "store_env E" "ledger_ok E s"
    and "ReverseJournal E uid reason s = Inr (j, t) \<or> ReverseJournalFraction E uid num den reason key s = Inr (j, t)"
  shows "ledger_ok E t"
proof (cases "t = s")
  case False
  have "\<exists>input preAuth fallback. postReversal E input preAuth fallback s = Inr (j, t)"
    using assms(3) ReverseJournal_Inr [OF _ False] ReverseJournalFraction_Inr [OF _ False] by blast
  then show ?thesis using postReversal_Inr posting_ledger_ok [OF assms(1,2)] by blast
qed (use assms(2) in simp)

text \<open>A third of the sample deposit reversed, and the rest of it.\<close>

definition third_reversed :: db where
  "third_reversed = posted_ledger\<lparr>
     dbJournals := dbJournals posted_ledger @ [\<lparr>jr_ID = 10, jr_JournalTypeID = 4, jr_IdempotencyKey = ''r1'',
        jr_TotalDebit = 3500000000000000000, jr_TotalCredit = 3500000000000000000,
        jr_Metadata = [(''reason'', ''fee''), (''reversal_fraction'', ''1/3'')], jr_ActorID = 0,
        jr_Source = ''reversal'', jr_ReversalOf = Some 5, jr_CreatedAt = 0, jr_EventID = None,
        jr_EffectiveAt = 0, jr_UID = ''u10'', jr_AuthDigest = [], jr_AuthSignature = [],
        jr_AuthKeyID = [], jr_AuthStatus = AuthStatusUnsignedNoAttestor\<rparr>],
     dbEntries := dbEntries posted_ledger @ [\<lparr>er_ID = 11, er_JournalID = 10, er_AccountHolder = - 7,
         er_CurrencyID = 1, er_ClassificationID = 3, er_EntryType = EntryTypeCredit,
         er_Amount = 3500000000000000000, er_CreatedAt = 0, er_EffectiveAt = 0\<rparr>,
       \<lparr>er_ID = 12, er_JournalID = 10, er_AccountHolder = 7, er_CurrencyID = 1, er_ClassificationID = 2,
         er_EntryType = EntryTypeDebit, er_Amount = 3500000000000000000, er_CreatedAt = 0, er_EffectiveAt = 0\<rparr>],
     dbSeq := 12\<rparr>"

lemma third_run: "map_sum id snd (ReverseJournalFraction ref_env ''u5'' 1 3 ''fee'' ''r1'' posted_ledger) = Inr third_reversed"
  by code_simp

lemma ledger_ok_third: "ledger_ok ref_env third_reversed"
proof -
  obtain j where "ReverseJournalFraction ref_env ''u5'' 1 3 ''fee'' ''r1'' posted_ledger = Inr (j, third_reversed)"
    using third_run by (cases "ReverseJournalFraction ref_env ''u5'' 1 3 ''fee'' ''r1'' posted_ledger") auto
  then show ?thesis using reversal_ledger_ok [OF renv.store_env_axioms ledger_ok_posted] by blast
qed

theorem completing_reversal_clears_witness:
  "\<exists>j t. ReverseJournalFraction ref_env ''u5'' 2 2 ''all'' ''r2'' third_reversed = Inr (j, t)
     \<and> ledger_balance third_reversed 7 1 2 = 7000000000000000000 \<and> ledger_balance t 7 1 2 = 0"
proof -
  have "case ReverseJournalFraction ref_env ''u5'' 2 2 ''all'' ''r2'' third_reversed of Inl _ \<Rightarrow> False
    | Inr (_, t) \<Rightarrow> t \<noteq> third_reversed" by code_simp
  then obtain j t where run: "ReverseJournalFraction ref_env ''u5'' 2 2 ''all'' ''r2'' third_reversed = Inr (j, t)"
    and ne: "t \<noteq> third_reversed" by (auto split: sum.splits)
  obtain orig where o: "GetJournalByUID third_reversed (jr_UID orig) = Some orig" "envParseUID ref_env ''u5'' = Some (jr_UID orig)"
    and b: "ledger_balance t 7 1 2 = ledger_balance third_reversed 7 1 2 - chain_effect third_reversed (jr_ID orig) 7 1 2"
    using completing_reversal_clears [OF renv.store_env_axioms ledger_ok_third disjI2 [OF run] ne] by blast
  have "case GetJournalByUID third_reversed ''u5'' of None \<Rightarrow> False | Some r \<Rightarrow> jr_ID r = 5" by code_simp
  then have "jr_ID orig = 5" using o by (simp add: ref_env_def)
  moreover have "ledger_balance third_reversed 7 1 2 = 7000000000000000000" "chain_effect third_reversed 5 7 1 2 = 7000000000000000000"
    by code_simp+
  ultimately show ?thesis using run b by auto
qed

theorem reversal_retry_witness:
  "\<exists>j t. ReverseJournal ref_env ''u5'' ''fee'' posted_ledger = Inr (j, t) \<and> t \<noteq> posted_ledger
     \<and> ReverseJournal (ref_env\<lparr>envNow := 1000\<rparr>) ''u5'' ''fee'' t = Inr (j, t)"
proof -
  have "case ReverseJournal ref_env ''u5'' ''fee'' posted_ledger of Inl _ \<Rightarrow> False
    | Inr (_, t) \<Rightarrow> t \<noteq> posted_ledger" by code_simp
  then obtain j t where run: "ReverseJournal ref_env ''u5'' ''fee'' posted_ledger = Inr (j, t)"
    and ne: "t \<noteq> posted_ledger" by (auto split: sum.splits)
  have "\<not> (envPool ref_env \<and> envAttestor ref_env \<noteq> None)" by (simp add: ref_env_def)
  with run ne reversal_retry [OF renv.store_env_axioms ledger_ok_posted run ne, of 1000] show ?thesis by auto
qed

end
