(* ===== verification/Reversal_Fraction.thy ===== *)
theory Reversal_Fraction
  imports Reversal_Store
begin

text \<open>
  What a fractional reversal moves (\<^verbatim>\<open>postgres/reversal_fraction_store.go\<close>): the total of each currency and
  side is scaled once and split over its entries, so the reversal balances and stays within half a
  unit of the exact fraction; and how the scaling rounds.
\<close>

section \<open>Scaling a total\<close>

context decimal_lib
begin

lemma New_val: "dval D (dNewFromBigInt D c e) = of_int c * 10 powi e"
  by (simp add: dval_def Coefficient_New Exponent_New)

lemma scaleByFraction_val:
  assumes "scaleByFraction D tot num den e = Inr r" "0 < den"
  shows "dval D r = rescaled half_up_rat (rescaled half_up_rat (dval D tot * of_int num / of_int den) (e + 12)) e"
proof -
  let ?raw = "dDivRound D (dMul D tot (dNewFromBigInt D num 0)) (dNewFromBigInt D den 0) (e + 12)"
  have r: "r = roundChecked D ?raw e RoundHalfUp"
    using assms(1) by (simp add: scaleByFraction_def Let_def reversalScaleGuardDigits_def Round_Inr)
  have "dval D (dNewFromBigInt D den 0) \<noteq> 0" using assms(2) by (simp add: New_val)
  then have "dval D ?raw = rescaled half_up_rat (dval D tot * of_int num / of_int den) (e + 12)"
    by (simp add: DivRound Mul New_val)
  then show ?thesis by (simp add: r roundChecked_val mode_rule_def rounding_modes)
qed

lemma half_up_bound: "\<bar>rescaled half_up_rat v p - v\<bar> \<le> 10 powi (- p) / 2"
  using rescaled_half_bound [of RoundHalfUp v p] by (simp add: mode_rule_def rounding_modes)

lemma scaleByFraction_close:
  assumes "scaleByFraction D tot num den e = Inr r" "0 < den"
  shows "\<bar>dval D r - dval D tot * of_int num / of_int den\<bar> \<le> (10 powi (- e) + 10 powi (- (e + 12))) / 2"
proof -
  let ?x = "dval D tot * of_int num / of_int den"
  let ?y = "rescaled half_up_rat ?x (e + 12)"
  have "\<bar>dval D r - ?y\<bar> \<le> 10 powi (- e) / 2" unfolding scaleByFraction_val [OF assms] by (rule half_up_bound)
  moreover have "\<bar>?y - ?x\<bar> \<le> 10 powi (- (e + 12)) / 2" by (rule half_up_bound)
  ultimately show ?thesis unfolding add_divide_distrib by linarith
qed

lemma scaleByFraction_nonneg:
  assumes "scaleByFraction D tot num den e = Inr r" "0 < den" "0 \<le> num" "0 \<le> dval D tot"
  shows "0 \<le> dval D r"
proof -
  have pos: "0 \<le> rescaled half_up_rat v p" if "0 \<le> v" for v p
    using that rat_nonneg_mono(3) [of "v * 10 powi p"] by (simp add: rescaled_def)
  show ?thesis unfolding scaleByFraction_val [OF assms(1,2)] by (intro pos) (use assms in simp)
qed

lemma Allocate_nonneg:
  assumes "Allocate D tot ws e = Inr shares" "int (length ws) \<le> int64_max" "0 \<le> dval D tot" "x \<in> set shares"
  shows "0 \<le> dval D x"
proof -
  from Allocate_sum [OF assms(1,2)] assms(4) obtain i where i: "i < length ws" "x = shares ! i"
    by (auto simp: in_set_conv_nth)
  obtain k a where W: "0 < sum_list (map (dval D) ws)" and nn: "\<forall>w\<in>set (map (dval D) ws). 0 \<le> w"
    and a: "a \<in> set (alloc_final \<bar>k\<bar> (map (dval D) ws))" "al_idx a = i"
    and v: "dval D (shares ! i) = (if dval D tot < 0 then - 1 else 1) * of_int (al_floor a) * 10 powi (- e)"
    using Allocate_share [OF assms(1,2) i(1)] .
  have "0 \<le> ideal \<bar>k\<bar> (map (dval D) ws) i" using nn W i(1) by (simp add: ideal_def)
  with alloc_final_close [OF _ nn W a(1)] a(2) have "0 \<le> al_floor a" by fastforce
  with v i(2) assms(3) show ?thesis by simp
qed

end

section \<open>Shares back in their places\<close>

lemma scatter_simps: "scatter [] xs a = a" "scatter (i # js) (x # xs) a = scatter js xs (a[i := x])"
  by (simp_all add: scatter_def)

lemma scatter_spec:
  assumes "length xs = length js" "distinct js" "\<forall>i\<in>set js. i < length a"
  shows "length (scatter js xs a) = length a \<and> map ((!) (scatter js xs a)) js = xs
    \<and> (\<forall>i. i \<notin> set js \<longrightarrow> scatter js xs a ! i = a ! i)"
  using assms
proof (induction js arbitrary: xs a)
  case (Cons j js)
  then obtain x ys where xs: "xs = x # ys" by (cases xs) auto
  have "length (scatter js ys (a[j := x])) = length a \<and> map ((!) (scatter js ys (a[j := x]))) js = ys
    \<and> (\<forall>i. i \<notin> set js \<longrightarrow> scatter js ys (a[j := x]) ! i = a[j := x] ! i)"
    using Cons.IH [of ys "a[j := x]"] Cons.prems by (simp add: xs)
  with Cons.prems show ?case by (simp add: xs scatter_simps)
qed (simp add: scatter_simps)

lemma groups_fold:
  assumes "foldR (\<lambda>a g. bindR (f g) (\<lambda>xs. Inr (scatter (js g) xs a))) a gs = Inr b" "distinct gs"
    and "\<And>g xs. g \<in> set gs \<Longrightarrow> f g = Inr xs \<Longrightarrow> length xs = length (js g)"
    and "\<And>g. distinct (js g)" "\<And>g i. i \<in> set (js g) \<Longrightarrow> i < length a"
    and "\<And>g g' i. i \<in> set (js g) \<Longrightarrow> i \<in> set (js g') \<Longrightarrow> g = g'"
  shows "length b = length a \<and> (\<forall>g\<in>set gs. f g = Inr (map ((!) b) (js g)))
    \<and> (\<forall>i. (\<forall>g\<in>set gs. i \<notin> set (js g)) \<longrightarrow> b ! i = a ! i)"
  using assms
proof (induction gs arbitrary: a)
  case (Cons g gs)
  from Cons.prems(1) obtain xs where xs: "f g = Inr xs"
    and rest: "foldR (\<lambda>a g. bindR (f g) (\<lambda>xs. Inr (scatter (js g) xs a))) (scatter (js g) xs a) gs = Inr b" by auto
  have sc: "length (scatter (js g) xs a) = length a" "map ((!) (scatter (js g) xs a)) (js g) = xs"
    "\<And>i. i \<notin> set (js g) \<Longrightarrow> scatter (js g) xs a ! i = a ! i"
    using scatter_spec [of xs "js g" a] Cons.prems(3) [OF _ xs] Cons.prems(4,5) by auto
  have IH: "length b = length a" "\<forall>g\<in>set gs. f g = Inr (map ((!) b) (js g))"
    "\<And>i. \<forall>g\<in>set gs. i \<notin> set (js g) \<Longrightarrow> b ! i = scatter (js g) xs a ! i"
    using Cons.IH [OF rest] Cons.prems(2-6) sc(1) by auto
  have "map ((!) b) (js g) = map ((!) (scatter (js g) xs a)) (js g)"
    using Cons.prems(2,6) IH(3) by (intro map_cong refl) (metis distinct.simps(2))
  with sc IH xs show ?case by simp
qed simp

section \<open>The amounts of a fraction\<close>

text \<open>What a journal moves in a currency on a side.\<close>

definition group_total :: "db \<Rightarrow> int \<Rightarrow> int \<times> EntryType \<Rightarrow> int" where
  "group_total s j g = (\<Sum>e\<leftarrow>filter (\<lambda>e. groupOf e = g) (ListJournalEntries s j). er_Amount e)"

definition dimGroup :: "entryDimKey \<Rightarrow> int \<times> EntryType" where
  "dimGroup key = (case key of (_, c, _, t) \<Rightarrow> (c, t))"

lemma dimGroup_row: "dimGroup (rowDimKey e) = groupOf e"
  by (simp add: dimGroup_def rowDimKey_def groupOf_def)

context store_env
begin

lemma groupShares_Inr:
  assumes "groupShares E s es num den g = Inr xs" "0 < den" "0 < num" "int (length es) \<le> int64_max"
    and "\<forall>e\<in>set es. 0 < er_Amount e"
  shows "\<exists>cur. currencyOfID s (fst g) = Inr cur \<and> length xs = length (filter (\<lambda>e. groupOf e = g) es)
    \<and> (\<forall>x\<in>set xs. 0 \<le> dval (envD E) x)
    \<and> \<bar>(\<Sum>x\<leftarrow>xs. dval (envD E) x)
         - unit_val (\<Sum>e\<leftarrow>filter (\<lambda>e. groupOf e = g) es. er_Amount e) * of_int num / of_int den\<bar>
       \<le> (10 powi (- dc_Exponent cur) + 10 powi (- (dc_Exponent cur + 12))) / 2"
proof -
  let ?D = "envD E" and ?grp = "filter (\<lambda>e. groupOf e = g) es"
  let ?ws = "map (\<lambda>e. numericToDecimal E (er_Amount e)) ?grp"
  let ?tot = "foldl (dAdd ?D) (dZero ?D) ?ws"
  obtain cur r where c: "currencyOfID s (fst g) = Inr cur"
    and r: "scaleByFraction ?D ?tot num den (dc_Exponent cur) = Inr r" and xs: "Allocate ?D r ?ws (dc_Exponent cur) = Inr xs"
    using assms(1) by (auto simp: groupShares_def Let_def)
  have len: "int (length ?ws) \<le> int64_max" using assms(4) length_filter_le [of "\<lambda>e. groupOf e = g" es] by (simp del: length_filter_le)
  have fold: "dval ?D (foldl (dAdd ?D) z ws) = dval ?D z + (\<Sum>w\<leftarrow>ws. dval ?D w)" for z ws
    by (induction ws arbitrary: z) (simp_all add: Add)
  have tot: "dval ?D ?tot = unit_val (\<Sum>e\<leftarrow>?grp. er_Amount e)"
    by (simp add: fold Zero comp_def numericToDecimal_val unit_val_sum)
  have "0 \<le> (\<Sum>e\<leftarrow>?grp. er_Amount e)" using assms(5) by (intro sum_list_nonneg) (auto simp: less_imp_le)
  then have "0 \<le> dval ?D ?tot" unfolding tot using unit_val_order(2) [of 0] by (simp add: unit_val_simps(1))
  then have "0 \<le> dval ?D r" using scaleByFraction_nonneg [OF r] assms(2,3) by simp
  then have "\<forall>x\<in>set xs. 0 \<le> dval ?D x" using Allocate_nonneg [OF xs len] by blast
  with c Allocate_sum [OF xs len] scaleByFraction_close [OF r assms(2)] tot show ?thesis by (intro exI [of _ cur]) simp
qed

lemma fraction_items_total:
  assumes "fractionAmounts E s es num den = Inr xs" "0 < den" "0 < num" "int (length es) \<le> int64_max"
    and "\<forall>e\<in>set es. 0 < er_Amount e"
  shows "length xs = length es"
    "g \<in> groupOf ` set es \<Longrightarrow> \<exists>cur. currencyOfID s (fst g) = Inr cur
      \<and> \<bar>(\<Sum>item\<leftarrow>fractionItems E es xs. if dimGroup (fst item) = g then dval (envD E) (snd item) else 0)
           - unit_val (\<Sum>e\<leftarrow>filter (\<lambda>e. groupOf e = g) es. er_Amount e) * of_int num / of_int den\<bar>
         \<le> (10 powi (- dc_Exponent cur) + 10 powi (- (dc_Exponent cur + 12))) / 2"
proof -
  let ?D = "envD E" and ?js = "\<lambda>g. filter (\<lambda>i. groupOf (es ! i) = g) [0..<length es]"
  have js: "map ((!) es) (?js g) = filter (\<lambda>e. groupOf e = g) es" for g
    using filter_map [of "\<lambda>e. groupOf e = g" "(!) es" "[0..<length es]"] by (simp add: map_nth comp_def)
  have len: "length ys = length (?js g)" if "groupShares E s es num den g = Inr ys" for g ys
  proof -
    have "length ys = length (filter (\<lambda>e. groupOf e = g) es)" using groupShares_Inr [OF that assms(2-5)] by blast
    then show ?thesis unfolding js [symmetric] by simp
  qed
  have fold: "length xs = length es \<and> (\<forall>g\<in>set (dedupe (map groupOf es)).
      groupShares E s es num den g = Inr (map ((!) xs) (?js g)))"
  proof -
    note f = groups_fold [where f = "groupShares E s es num den" and js = ?js, OF assms(1) [unfolded fractionAmounts_def]]
    have "length xs = length (replicate (length es) (dZero ?D)) \<and> (\<forall>g\<in>set (dedupe (map groupOf es)).
        groupShares E s es num den g = Inr (map ((!) xs) (?js g)))"
      by (rule conjI [OF f [THEN conjunct1] f [THEN conjunct2, THEN conjunct1]]) (use len in auto)
    then show ?thesis by simp
  qed
  then show lx: "length xs = length es" by simp
  assume g: "g \<in> groupOf ` set es"
  from fold have all: "groupShares E s es num den h = Inr (map ((!) xs) (?js h))" if "h \<in> groupOf ` set es" for h
    using that by auto
  have nn: "0 \<le> dval ?D (xs ! i)" if "i < length es" for i
  proof -
    have "groupOf (es ! i) \<in> groupOf ` set es" using that by simp
    from groupShares_Inr [OF all [OF this] assms(2-5)] have "\<forall>x\<in>set (map ((!) xs) (?js (groupOf (es ! i)))). 0 \<le> dval ?D x" by blast
    with that show ?thesis by simp
  qed
  have items: "fractionItems E es xs = filter (\<lambda>item. dIsPositive ?D (snd item)) (map (\<lambda>i. (rowDimKey (es ! i), xs ! i)) [0..<length es])"
    unfolding fractionItems_def
    by (intro arg_cong [of _ _ "filter _"] nth_equalityI) (simp_all add: lx)
  have "(\<Sum>item\<leftarrow>fractionItems E es xs. if dimGroup (fst item) = g then dval ?D (snd item) else 0)
      = (\<Sum>i\<leftarrow>[0..<length es]. if groupOf (es ! i) = g then dval ?D (xs ! i) else 0)"
    unfolding items sum_filter_if map_map comp_def
    by (intro arg_cong [of _ _ sum_list] map_cong refl)
      (use nn in \<open>auto simp: dimGroup_row IsPositive order.order_iff_strict\<close>)
  also have "\<dots> = (\<Sum>x\<leftarrow>map ((!) xs) (?js g). dval ?D x)" by (simp add: sum_filter_if comp_def)
  finally show "\<exists>cur. currencyOfID s (fst g) = Inr cur
      \<and> \<bar>(\<Sum>item\<leftarrow>fractionItems E es xs. if dimGroup (fst item) = g then dval ?D (snd item) else 0)
           - unit_val (\<Sum>e\<leftarrow>filter (\<lambda>e. groupOf e = g) es. er_Amount e) * of_int num / of_int den\<bar>
         \<le> (10 powi (- dc_Exponent cur) + 10 powi (- (dc_Exponent cur + 12))) / 2"
    using groupShares_Inr [OF all [OF g] assms(2-5)] by (simp only:) blast
qed

end

lemma fraction_types:
  assumes "\<forall>e\<in>set es. EntryType_IsValid (er_EntryType e)"
  shows "\<forall>item\<in>set (fractionItems E es xs). EntryType_IsValid (snd (snd (snd (fst item))))"
  using assms by (auto simp: fractionItems_def rowDimKey_def dest!: set_zip_leftD)

lemma row_group:
  assumes "EntryType_IsValid (snd g)" "EntryType_IsValid (ei_EntryType r)"
  shows "groupOf (entryRowOf E j t i r) = (fst g, flipEntryType (snd g)) \<longleftrightarrow> dimGroup (newDimKey r) = g"
proof -
  obtain c y where g: "g = (c, y)" by (cases g)
  have "ei_EntryType r = flipEntryType y \<longleftrightarrow> flipEntryType (ei_EntryType r) = y"
    using assms g flip_flip by (metis snd_conv)
  then show ?thesis by (simp add: groupOf_def entryRowOf_def dimGroup_def newDimKey_def g)
qed

lemma posted_group:
  assumes "\<forall>r\<in>set rs. EntryType_IsValid (ei_EntryType r)" "EntryType_IsValid (snd g)"
    and "\<forall>r\<in>set rs. dval (envD E) (ei_Amount r) = unit_val (units (envD E) (ei_Amount r))"
    and "list_all2 (\<lambda>item r. newDimKey r = fst item \<and> ei_Amount r = snd item) items rs"
  shows "unit_val (\<Sum>e\<leftarrow>filter (\<lambda>e. groupOf e = (fst g, flipEntryType (snd g))) (entryRowsOf E j t n rs). er_Amount e)
     = (\<Sum>item\<leftarrow>items. if dimGroup (fst item) = g then dval (envD E) (snd item) else 0)"
proof -
  have "(\<Sum>e\<leftarrow>filter (\<lambda>e. groupOf e = (fst g, flipEntryType (snd g))) (entryRowsOf E j t n rs). er_Amount e)
      = (\<Sum>r\<leftarrow>rs. if dimGroup (newDimKey r) = g then units (envD E) (ei_Amount r) else 0)"
    using assms(1)
  proof (induction rs arbitrary: n)
    case (Cons r rs)
    then show ?case using row_group [OF assms(2), of r] by (simp add: entryRowOf_def)
  qed simp
  moreover have "unit_val (\<Sum>r\<leftarrow>rs. if dimGroup (newDimKey r) = g then units (envD E) (ei_Amount r) else 0)
      = (\<Sum>r\<leftarrow>rs. if dimGroup (newDimKey r) = g then dval (envD E) (ei_Amount r) else 0)"
    unfolding unit_val_sum using assms(3) by (intro arg_cong [of _ _ sum_list] map_cong) (simp_all add: unit_val_simps)
  ultimately show ?thesis
    using items_sum [OF assms(4), of "\<lambda>k a. if dimGroup k = g then dval (envD E) a else 0"] by simp
qed

text \<open>C8. A fractional reversal moves the fraction: in every currency and on each side of the original, the
  reversal posts on the other side the scaled total, within half a unit of the currency (and the
  guard digits) of the exact fraction, however the total is spread over entries.\<close>

theorem fraction_moves_its_share:
  assumes "store_env E" "ledger_ok E s" "ReverseJournalFraction E uid num den reason key s = Inr (j, t)" "t \<noteq> s"
    and "num \<noteq> den" "cur \<in> set (dbCurrencies s)" "EntryType_IsValid side" "int (length (dbEntries s)) \<le> int64_max"
  shows "\<exists>orig row. GetJournalByUID s (jr_UID orig) = Some orig \<and> envParseUID E uid = Some (jr_UID orig)
    \<and> dbJournals t = dbJournals s @ [row] \<and> jr_ReversalOf row = Some (jr_ID orig)
    \<and> \<bar>unit_val (group_total t (jr_ID row) (cur_ID cur, flipEntryType side))
         - unit_val (group_total s (jr_ID orig) (cur_ID cur, side)) * of_int num / of_int den\<bar>
       \<le> (10 powi (- cur_Exponent cur) + 10 powi (- (cur_Exponent cur + 12))) / 2"
proof -
  let ?g = "(cur_ID cur, side)"
  have ok: "ids_ok s" "\<forall>e\<in>set (dbEntries s). entry_ok s e" "dims_ok s" using assms(2) by (simp_all add: ledger_ok_def)
  obtain pg orig m es jtUID preAuth fallback where
    r: "envParseUID E uid = Some pg" "GetJournalByUID s pg = Some orig"
    and es: "reversalEntriesFor E s (ListJournalEntries s (jr_ID orig)) m num den = Inr es"
    and post: "postReversal E (reversalInput jtUID key es uid
          [(''reason'', reason), (''reversal_fraction'', fractionString num den)]) preAuth fallback s = Inr (j, t)"
    and pos: "0 < num" "num \<le> den"
    using ReverseJournalFraction_Inr [OF assms(3,4)] by blast
  let ?es = "ListJournalEntries s (jr_ID orig)"
  have e: "\<forall>e\<in>set ?es. EntryType_IsValid (er_EntryType e)" "\<forall>e\<in>set ?es. 0 < er_Amount e"
    "int (length ?es) \<le> int64_max"
    using ok(2) assms(8) length_filter_le [of "\<lambda>e. er_JournalID e = jr_ID orig" "dbEntries s"]
    by (auto simp: ListJournalEntries_def entry_ok_def simp del: length_filter_le)
  obtain xs where xs: "fractionAmounts E s ?es num den = Inr xs"
    and items: "mapR (reversalEntry s) (fractionItems E ?es xs) = Inr es"
    using es assms(5) by (auto simp: reversalEntriesFor_def Let_def split: if_splits)
  note types = fraction_types [OF e(1)]
  obtain rs jtID eventID eff auth row where
    p: "posting E (reversalInput jtUID key es uid
          [(''reason'', reason), (''reversal_fraction'', fractionString num den)]) rs jtID eventID (jr_ID orig) eff auth s row t"
    and l: "list_all2 (\<lambda>item r. newDimKey r = fst item \<and> ei_Amount r = snd item) (fractionItems E ?es xs) rs"
    and u: "\<forall>r\<in>set rs. dval (envD E) (ei_Amount r) = unit_val (units (envD E) (ei_Amount r))"
    by (rule reversal_posted [OF assms(1,2) r items types post assms(4)], rule that)
  note o = journal_found [OF assms(2) r(2)] and q = posting_tables [OF p] and w = posting_row [OF p]
  have v: "\<forall>r\<in>set rs. EntryType_IsValid (ei_EntryType r)" using q(7) by (simp add: entry_insertable_def)
  have moved: "unit_val (group_total t (jr_ID row) (cur_ID cur, flipEntryType side))
      = (\<Sum>item\<leftarrow>fractionItems E ?es xs. if dimGroup (fst item) = ?g then dval (envD E) (snd item) else 0)"
    using posted_group [OF v _ u l, of ?g] assms(7) by (simp add: group_total_def w(1) posting_lists(1) [OF p ok(1,2)])
  have bound: "\<bar>unit_val (group_total t (jr_ID row) (cur_ID cur, flipEntryType side))
         - unit_val (group_total s (jr_ID orig) ?g) * of_int num / of_int den\<bar>
       \<le> (10 powi (- cur_Exponent cur) + 10 powi (- (cur_Exponent cur + 12))) / 2"
  proof (cases "?g \<in> groupOf ` set ?es")
    case True
    obtain cd where cd: "currencyOfID s (cur_ID cur) = Inr cd"
      and b: "\<bar>(\<Sum>item\<leftarrow>fractionItems E ?es xs. if dimGroup (fst item) = ?g then dval (envD E) (snd item) else 0)
           - unit_val (group_total s (jr_ID orig) ?g) * of_int num / of_int den\<bar>
         \<le> (10 powi (- dc_Exponent cd) + 10 powi (- (dc_Exponent cd + 12))) / 2"
      using store_env.fraction_items_total(2) [OF assms(1) xs _ pos(1) e(3,2) True] pos unfolding group_total_def by auto
    have "currencyDim cur \<in> set (ListCurrencyDims s)" using assms(6) by (simp add: ListCurrencyDims_def)
    with dims_unique_find(2) [of s "currencyDim cur"] ok(3) cd have "dc_Exponent cd = cur_Exponent cur"
      by (auto simp: dims_ok_def currencyDim_def)
    with b moved show ?thesis by simp
  next
    case False
    then have z: "filter (\<lambda>e. groupOf e = ?g) ?es = []" by (force simp: filter_empty_conv image_iff)
    have "fractionItems E ?es xs = filter (\<lambda>item. dIsPositive (envD E) (snd item)) (zip (map rowDimKey ?es) xs)"
      by (simp add: fractionItems_def)
    then have "\<forall>item\<in>set (fractionItems E ?es xs). dimGroup (fst item) \<noteq> ?g"
      using False by (fastforce dest!: set_zip_leftD simp: dimGroup_row image_iff)
    then have "(\<Sum>item\<leftarrow>fractionItems E ?es xs. if dimGroup (fst item) = ?g then dval (envD E) (snd item) else 0) = 0"
      by (intro sum_list_zero) auto
    with moved z show ?thesis by (simp add: group_total_def unit_val_simps(1))
  qed
  have "jr_ReversalOf row = Some (jr_ID orig)" using w(4) o(3) by (simp add: zeroInt64ToNil_def)
  with bound r o(2) q(2) show ?thesis by (intro exI [of _ orig] exI [of _ row]) simp
qed

theorem fraction_moves_its_share_witness:
  "\<exists>row. dbJournals third_reversed = dbJournals posted_ledger @ [row]
    \<and> \<bar>unit_val (group_total third_reversed (jr_ID row) (1, EntryTypeDebit)) - 7 / 2\<bar> \<le> (10 powi (- 2) + 10 powi (- 14)) / 2"
proof -
  let ?cur = "hd (dbCurrencies base_ledger)"
  obtain j where run: "ReverseJournalFraction ref_env ''u5'' 1 3 ''fee'' ''r1'' posted_ledger = Inr (j, third_reversed)"
    using third_run by (cases "ReverseJournalFraction ref_env ''u5'' 1 3 ''fee'' ''r1'' posted_ledger") auto
  have ne: "third_reversed \<noteq> posted_ledger" by code_simp
  have cur: "?cur \<in> set (dbCurrencies posted_ledger)" "cur_ID ?cur = 1" "cur_Exponent ?cur = 2"
    by (simp_all add: posted_ledger_def base_ledger_def)
  have v: "EntryType_IsValid EntryTypeCredit" "int (length (dbEntries posted_ledger)) \<le> int64_max"
    "flipEntryType EntryTypeCredit = EntryTypeDebit" by code_simp+
  obtain orig row where o: "GetJournalByUID posted_ledger (jr_UID orig) = Some orig" "envParseUID ref_env ''u5'' = Some (jr_UID orig)"
    and row: "dbJournals third_reversed = dbJournals posted_ledger @ [row]"
    and b: "\<bar>unit_val (group_total third_reversed (jr_ID row) (1, EntryTypeDebit))
         - unit_val (group_total posted_ledger (jr_ID orig) (1, EntryTypeCredit)) * of_int 1 / of_int 3\<bar>
       \<le> (10 powi (- 2) + 10 powi (- (2 + 12))) / 2"
    using fraction_moves_its_share [OF renv.store_env_axioms ledger_ok_posted run ne _ cur(1) v(1,2)] unfolding cur(2,3) v(3) by auto
  have "case GetJournalByUID posted_ledger ''u5'' of None \<Rightarrow> False | Some r \<Rightarrow> jr_ID r = 5" by code_simp
  then have "jr_ID orig = 5" using o by (simp add: ref_env_def)
  moreover have "unit_val (group_total posted_ledger 5 (1, EntryTypeCredit)) * of_int 1 / of_int 3 = 7 / 2" by code_simp
  ultimately have "\<bar>unit_val (group_total third_reversed (jr_ID row) (1, EntryTypeDebit)) - 7 / 2\<bar>
      \<le> (10 powi (- 2) + 10 powi (- 14)) / 2" using b by (simp only: ) simp
  with row show ?thesis by blast
qed

section \<open>Rounding twice\<close>

text \<open>Rounding to twelve more digits first does not change the result, as long as the denominator has fewer.\<close>

lemma double_half_up:
  fixes a den :: int
  assumes "0 < den" "den < 10 ^ 12" "0 \<le> a"
  shows "half_up_rat (of_int (half_up_rat (of_int a / of_int den * 10 ^ 12)) / 10 ^ 12) = half_up_rat (of_int a / of_int den)"
proof -
  define x :: rat where "x = of_int a / of_int den"
  define y :: rat where "y = of_int (half_up_rat (x * 10 ^ 12)) / 10 ^ 12"
  define n where "n = \<lfloor>x + 1 / 2\<rfloor>"
  define u :: rat where "u = 1 / (2 * of_int den)"
  define g where "g = (\<lambda>i. 2 * a + den - 2 * den * i)"
  have x: "0 \<le> x" using assms by (simp add: x_def)
  have d: "1 / (2 * 10 ^ 12) < u" "0 < u" using assms(1,2) by (simp_all add: u_def field_simps)
  have "\<bar>of_int (half_up_rat (x * 10 ^ 12)) - x * 10 ^ 12\<bar> \<le> 1 / 2" by (rule half_up_rat_bound)
  then have close: "\<bar>y - x\<bar> \<le> 1 / (2 * 10 ^ 12)" by (simp add: y_def abs_le_iff field_simps)
  have n: "of_int n \<le> x + 1 / 2" "x + 1 / 2 < of_int n + 1" unfolding n_def by (rule floor_facts)+
  have gap: "x + 1 / 2 - of_int i = of_int (g i) * u" for i
    using assms(1) by (simp add: x_def u_def g_def field_simps)
  have up: "x + 1 / 2 \<le> of_int n + 1 - u"
  proof -
    have "of_int (g (n + 1)) * u < 0" unfolding gap [symmetric] using n(2) by simp
    then have "g (n + 1) \<le> - 1" using d(2) by (simp add: mult_less_0_iff)
    then have "(of_int (g (n + 1)) :: rat) \<le> of_int (- 1)" by (simp only: of_int_le_iff)
    then have "of_int (g (n + 1)) * u \<le> of_int (- 1) * u" using d(2) by (intro mult_right_mono) simp_all
    then show ?thesis using gap [of "n + 1"] by simp
  qed
  have "of_int n \<le> y + 1 / 2"
  proof (cases "x + 1 / 2 = of_int n")
    case True
    then have "x = of_int n - 1 / 2" by linarith
    then have "x * 10 ^ 12 = of_int ((2 * n - 1) * 500000000000)" by simp
    then have "y = x" unfolding y_def by (simp only: half_up_rat_of_int) (simp add: field_simps)
    with True show ?thesis by simp
  next
    case False
    then have "0 < of_int (g n) * u" unfolding gap [symmetric] using n(1) by simp
    then have "1 \<le> g n" using d(2) by (simp add: zero_less_mult_iff)
    then have "1 * u \<le> of_int (g n) * u" using d(2) by (intro mult_right_mono) simp_all
    then show ?thesis using gap [of n] close d(1) by linarith
  qed
  moreover have "y + 1 / 2 < of_int n + 1" using up close d(1) by linarith
  ultimately have "\<lfloor>y + 1 / 2\<rfloor> = n" by (simp add: floor_eq_iff)
  moreover have "0 \<le> y" using rat_nonneg_mono(3) [of "x * 10 ^ 12"] x by (simp add: y_def)
  ultimately show ?thesis using x unfolding x_def [symmetric] y_def [symmetric] by (simp add: half_up_rat_def n_def)
qed

text \<open>C18. Scaling a total rounds once: for a total in whole units and a denominator below \<open>10^12\<close> the result
  is the exact fraction rounded half up, the twelve guard digits notwithstanding. For larger
  denominators they do decide: a little less than half a cent, scaled by
  \<open>10^13 / (2 * 10^13 + 1)\<close>, is carried up to a full cent.\<close>

theorem scaleByFraction_rounding:
  assumes "decimal_lib D" "scaleByFraction D tot num den e = Inr r" "0 < den" "den < 10 ^ 12" "0 \<le> num"
    and "dval D tot * 10 powi e = of_int k" "0 \<le> k"
  shows "dval D r = rescaled half_up_rat (dval D tot * of_int num / of_int den) e
    \<and> scaleByFraction ref_decimal (1, - 2) (10 ^ 13) (2 * 10 ^ 13 + 1) 2 = Inr (1, - 2)
    \<and> rescaled half_up_rat (dval ref_decimal (1, - 2) * 10 ^ 13 / (2 * 10 ^ 13 + 1)) 2 = 0"
proof -
  let ?x = "of_int (k * num) / of_int den :: rat"
  have x: "dval D tot * of_int num / of_int den * 10 powi e = ?x"
    using assms(6) by (simp add: mult.commute mult.left_commute mult.assoc)
  have p: "10 powi (e + 12) = (10 powi e * 10 ^ 12 :: rat)" by (simp add: power_int_add)
  have m: "(v :: rat) * 10 powi (- (e + 12)) * 10 powi e = v / 10 ^ 12" for v
  proof -
    have "v * inverse (P * 10 ^ 12) * P = v / 10 ^ 12" if "P \<noteq> 0" for P :: rat
      using that by (simp add: field_simps)
    then show ?thesis unfolding power_int_minus p by simp
  qed
  have "rescaled half_up_rat (dval D tot * of_int num / of_int den) (e + 12) * 10 powi e
      = of_int (half_up_rat (?x * 10 ^ 12)) / 10 ^ 12"
    unfolding rescaled_def m p mult.assoc [symmetric] x ..
  moreover have "0 \<le> k * num" using assms(5,7) by simp
  ultimately have "dval D r = rescaled half_up_rat (dval D tot * of_int num / of_int den) e"
    unfolding decimal_lib.scaleByFraction_val [OF assms(1-3)] rescaled_def [of _ _ e] x
    by (simp only: double_half_up [OF assms(3,4)])
  moreover have "scaleByFraction ref_decimal (1, - 2) (10 ^ 13) (2 * 10 ^ 13 + 1) 2 = Inr (1, - 2)"
    "rescaled half_up_rat (dval ref_decimal (1, - 2) * 10 ^ 13 / (2 * 10 ^ 13 + 1)) 2 = 0" by code_simp+
  ultimately show ?thesis by blast
qed

theorem scaleByFraction_rounding_witness:
  "scaleByFraction ref_decimal (10001, - 2) 1 3 2 = Inr (3334, - 2)
   \<and> dval ref_decimal (3334, - 2) = rescaled half_up_rat (dval ref_decimal (10001, - 2) * 1 / 3) 2"
proof -
  have run: "scaleByFraction ref_decimal (10001, - 2) 1 3 2 = Inr (3334, - 2)" by code_simp
  have "dval ref_decimal (10001, - 2) * 10 powi 2 = of_int 10001" by code_simp
  from scaleByFraction_rounding [OF ref.decimal_lib_axioms run _ _ _ this] run show ?thesis by simp
qed

end
