(* ===== verification/Checkpoints.thy ===== *)
theory Checkpoints
  imports Balances
begin

text \<open>
  Balance checkpoints: the background rollup (\<^verbatim>\<open>service/rollup.go\<close> over \<^verbatim>\<open>postgres/rollup_adapter.go\<close>)
  that advances them, and the recomputation and repair of \<^verbatim>\<open>postgres/checkpoint_integrity_store.go\<close>.
  Each statement of the rollup is a transaction of its own. Both writers keep the invariant of the
  books, so no balance read changes its answer, and a repair needs no invariant to restore it.
\<close>

section \<open>Queries\<close>

definition dim_hit :: "int \<Rightarrow> int \<Rightarrow> int \<Rightarrow> CheckpointRow \<Rightarrow> bool" where
  "dim_hit holder currencyID classificationID c \<longleftrightarrow>
     cp_AccountHolder c = holder \<and> cp_CurrencyID c = currencyID \<and> cp_ClassificationID c = classificationID"

text \<open>The sum, the last id and the last time of all entries of a dimension; no row without the
  classification. The epoch stands for the time of no entry.\<close>

definition epoch :: gotime where "epoch = 62135596800 * 1000000000"

definition maxOr :: "int \<Rightarrow> int list \<Rightarrow> int" where
  "maxOr d xs = (case xs of [] \<Rightarrow> d | y # ys \<Rightarrow> fold max ys y)"

definition RecomputeCheckpointFromEntries ::
  "db \<Rightarrow> int \<Rightarrow> int \<Rightarrow> int \<Rightarrow> (int \<times> int \<times> gotime) option result" where
  "RecomputeCheckpointFromEntries s holder currencyID classificationID =
     (case GetClassification s classificationID of
        None \<Rightarrow> Inr None
      | Some c \<Rightarrow>
          (let rows = filter (on_dim holder currencyID (cls_ID c)) (dbEntries s)
           in bindR (foldR (\<lambda>sum e. bindR (ledger_signed_amount (cls_NormalSide c) (er_EntryType e) (er_Amount e))
                  (\<lambda>a. Inr (sum + a))) 0 rows) (\<lambda>balance.
              Inr (Some (balance, maxOr 0 (map er_ID rows), maxOr epoch (map er_CreatedAt rows))))))"

definition CountPendingRollupForDimension :: "db \<Rightarrow> int \<Rightarrow> int \<Rightarrow> int \<Rightarrow> int" where
  "CountPendingRollupForDimension s holder currencyID classificationID =
     int (length (filter (\<lambda>r. rq_AccountHolder r = holder \<and> rq_CurrencyID r = currencyID
        \<and> rq_ClassificationID r = classificationID \<and> rq_ProcessedAt r = None \<and> rq_FailedAttempts r < 10)
      (dbQueue s)))"

text \<open>One group per classification and entry type that occurs.\<close>

definition SumEntriesSinceCheckpoint :: "db \<Rightarrow> int \<Rightarrow> int \<Rightarrow> int \<Rightarrow> (int \<times> string \<times> int) list" where
  "SumEntriesSinceCheckpoint s holder currencyID sinceEntryID =
     (let rows = filter (\<lambda>e. er_AccountHolder e = holder \<and> er_CurrencyID e = currencyID
                   \<and> sinceEntryID < er_ID e) (dbEntries s)
      in map (\<lambda>(k, t). (k, t, \<Sum>e\<leftarrow>filter (\<lambda>e. er_ClassificationID e = k \<and> er_EntryType e = t) rows. er_Amount e))
           (remdups (map (\<lambda>e. (er_ClassificationID e, er_EntryType e)) rows)))"

definition GetMaxEntryForAccountCurrencySince :: "db \<Rightarrow> int \<Rightarrow> int \<Rightarrow> int \<Rightarrow> int \<times> gotime" where
  "GetMaxEntryForAccountCurrencySince s holder currencyID sinceEntryID =
     (let rows = filter (\<lambda>e. er_AccountHolder e = holder \<and> er_CurrencyID e = currencyID
                   \<and> sinceEntryID < er_ID e) (dbEntries s)
      in (maxOr 0 (map er_ID rows), maxOr epoch (map er_CreatedAt rows)))"

section \<open>Statements that write\<close>

text \<open>An upsert of one checkpoint; \<open>guarded\<close> is the \<^verbatim>\<open>WHERE\<close> clause that lets a checkpoint only advance.\<close>

definition putCheckpoint :: "'d env \<Rightarrow> bool \<Rightarrow> CheckpointRow \<Rightarrow> db \<Rightarrow> db" where
  "putCheckpoint E guarded cp s =
     (let hit = dim_hit (cp_AccountHolder cp) (cp_CurrencyID cp) (cp_ClassificationID cp)
      in case List.find hit (dbCheckpoints s) of
           None \<Rightarrow> s\<lparr>dbCheckpoints := dbCheckpoints s @ [cp]\<rparr>
         | Some old \<Rightarrow>
             if guarded \<and> \<not> cp_LastEntryID old < cp_LastEntryID cp then s
             else s\<lparr>dbCheckpoints := map (\<lambda>c. if hit c then cp else c) (dbCheckpoints s)\<rparr>)"

definition UpsertBalanceCheckpoint ::
  "'d env \<Rightarrow> int \<Rightarrow> int \<Rightarrow> int \<Rightarrow> 'd \<Rightarrow> int \<Rightarrow> gotime \<Rightarrow> db \<Rightarrow> db result" where
  "UpsertBalanceCheckpoint E holder currencyID classificationID balance lastEntryID lastEntryAt s =
     (case storeNumeric (decimalToNumeric (envD E) balance) of
        Inl _ \<Rightarrow> Inl []
      | Inr b \<Rightarrow> if holder = 0 then Inl [] else Inr (putCheckpoint E True \<lparr>cp_AccountHolder = holder, cp_CurrencyID = currencyID,
          cp_ClassificationID = classificationID, cp_Balance = b, cp_LastEntryID = lastEntryID,
          cp_LastEntryAt = timestamptz lastEntryAt, cp_UpdatedAt = timestamptz (envNow E)\<rparr> s))"

definition RebuildBalanceCheckpoint ::
  "'d env \<Rightarrow> int \<Rightarrow> int \<Rightarrow> int \<Rightarrow> 'd \<Rightarrow> int \<Rightarrow> gotime \<Rightarrow> db \<Rightarrow> db result" where
  "RebuildBalanceCheckpoint E holder currencyID classificationID balance lastEntryID lastEntryAt s =
     (case storeNumeric (decimalToNumeric (envD E) balance) of
        Inl _ \<Rightarrow> Inl []
      | Inr b \<Rightarrow> if holder = 0 then Inl [] else Inr (putCheckpoint E False \<lparr>cp_AccountHolder = holder, cp_CurrencyID = currencyID,
          cp_ClassificationID = classificationID, cp_Balance = b, cp_LastEntryID = lastEntryID,
          cp_LastEntryAt = timestamptz lastEntryAt, cp_UpdatedAt = timestamptz (envNow E)\<rparr> s))"

definition InsertCheckpointRebuildAudit ::
  "'d env \<Rightarrow> int \<Rightarrow> int \<Rightarrow> int \<Rightarrow> 'd \<Rightarrow> int \<Rightarrow> 'd \<Rightarrow> int \<Rightarrow> 'd \<Rightarrow> int \<Rightarrow> db \<Rightarrow> db result" where
  "InsertCheckpointRebuildAudit E holder currencyID classificationID previousBalance previousLastEntryID
      newBalance newLastEntryID drift actorID s =
     (case (storeNumeric (decimalToNumeric (envD E) previousBalance),
            storeNumeric (decimalToNumeric (envD E) newBalance),
            storeNumeric (decimalToNumeric (envD E) drift)) of
        (Inr p, Inr n, Inr d) \<Rightarrow> Inr (s\<lparr>dbRebuilds := dbRebuilds s @ [\<lparr>rb_ID = dbSeq s + 1,
            rb_UID = envNewUID E (dbSeq s + 1), rb_AccountHolder = holder, rb_CurrencyID = currencyID,
            rb_ClassificationID = classificationID, rb_PreviousBalance = p,
            rb_PreviousLastEntryID = previousLastEntryID, rb_NewBalance = n,
            rb_NewLastEntryID = newLastEntryID, rb_Drift = d, rb_ActorID = actorID,
            rb_CreatedAt = timestamptz (envNow E)\<rparr>], dbSeq := dbSeq s + 1\<rparr>)
      | _ \<Rightarrow> Inl [])"

section \<open>Repair\<close>

definition RecomputeBalance :: "'d env \<Rightarrow> db \<Rightarrow> int \<Rightarrow> string \<Rightarrow> string \<Rightarrow> 'd result" where
  "RecomputeBalance E s holder currencyUID classificationUID =
     bindR (currencyOfUID s currencyUID) (\<lambda>cur.
     bindR (classOfUID s classificationUID) (\<lambda>cls.
     bindR (RecomputeCheckpointFromEntries s holder (dc_ID cur) (dk_ID cls)) (\<lambda>row.
       case row of None \<Rightarrow> Inl [] | Some (balance, _) \<Rightarrow> Inr (numericToDecimal E balance))))"

record 'd BalanceCheckpoint =
  bc_AccountHolder :: int
  bc_CurrencyUID :: string
  bc_ClassificationUID :: string
  bc_Balance :: 'd
  bc_LastEntryAt :: gotime

definition rebuildWithQueries ::
  "'d env \<Rightarrow> int \<Rightarrow> int \<Rightarrow> int \<Rightarrow> int \<Rightarrow> db \<Rightarrow> (('d \<times> gotime) \<times> db) result" where
  "rebuildWithQueries E holder currencyID classificationID actorID s =
     (if 0 < CountPendingRollupForDimension s holder currencyID classificationID
      then Inl [ErrRollupPending]
      else let D = envD E; previous = GetBalanceCheckpoint s holder currencyID classificationID;
           previousBalance = (case previous of None \<Rightarrow> dZero D | Some p \<Rightarrow> numericToDecimal E (cp_Balance p));
           previousLastEntryID = (case previous of None \<Rightarrow> 0 | Some p \<Rightarrow> cp_LastEntryID p)
      in bindR (RecomputeCheckpointFromEntries s holder currencyID classificationID) (\<lambda>row.
        case row of None \<Rightarrow> Inl []
        | Some (recomputed, lastEntryID, lastEntryAt) \<Rightarrow>
            let balance = numericToDecimal E recomputed; drift = dSub D previousBalance balance
            in bindR (RebuildBalanceCheckpoint E holder currencyID classificationID balance lastEntryID
                 lastEntryAt s) (\<lambda>s1.
               bindR (InsertCheckpointRebuildAudit E holder currencyID classificationID previousBalance
                 previousLastEntryID balance lastEntryID drift actorID s1) (\<lambda>s2.
               Inr ((balance, lastEntryAt), s2)))))"

definition RebuildCheckpoint ::
  "'d env \<Rightarrow> int \<Rightarrow> string \<Rightarrow> string \<Rightarrow> int \<Rightarrow> db \<Rightarrow> ('d BalanceCheckpoint \<times> db) result" where
  "RebuildCheckpoint E holder currencyUID classificationUID actorID s =
     bindR (currencyOfUID s currencyUID) (\<lambda>cur.
     bindR (classOfUID s classificationUID) (\<lambda>cls.
     bindR (rebuildWithQueries E holder (dc_ID cur) (dk_ID cls) actorID s) (\<lambda>((balance, lastEntryAt), t).
       Inr (\<lparr>bc_AccountHolder = holder, bc_CurrencyUID = currencyUID,
         bc_ClassificationUID = classificationUID, bc_Balance = balance, bc_LastEntryAt = lastEntryAt\<rparr>, t))))"

section \<open>Rollup\<close>

record RollupQueueItem =
  qi_ID :: int
  qi_AccountHolder :: int
  qi_CurrencyID :: int
  qi_ClassificationID :: int
  qi_CreatedAt :: gotime
  qi_ClaimedUntil :: gotime

definition rollupClaimLease :: duration where "rollupClaimLease = 2 * minute"

text \<open>The claim: the oldest unprocessed rows that nobody holds get a lease that ends at the given time.\<close>

definition claimable :: "'d env \<Rightarrow> QueueRow \<Rightarrow> bool" where
  "claimable E r \<longleftrightarrow> rq_ProcessedAt r = None
     \<and> (case rq_ClaimedUntil r of None \<Rightarrow> True | Some t \<Rightarrow> t < timestamptz (envNow E))
     \<and> rq_FailedAttempts r < 10"

definition DequeueRollupBatch ::
  "'d env \<Rightarrow> duration \<Rightarrow> nat \<Rightarrow> db \<Rightarrow> RollupQueueItem list \<times> db" where
  "DequeueRollupBatch E claimLease batchSize s =
     (let claimed = take batchSize (sort_key (\<lambda>r. (rq_CreatedAt r, rq_ID r)) (filter (claimable E) (dbQueue s)));
          until = timestamptz (envNow E + claimLease)
      in (map (\<lambda>r. \<lparr>qi_ID = rq_ID r, qi_AccountHolder = rq_AccountHolder r, qi_CurrencyID = rq_CurrencyID r,
              qi_ClassificationID = rq_ClassificationID r, qi_CreatedAt = rq_CreatedAt r,
              qi_ClaimedUntil = until\<rparr>) claimed,
          s\<lparr>dbQueue := map (\<lambda>r. if rq_ID r \<in> set (map rq_ID claimed) then r\<lparr>rq_ClaimedUntil := Some until\<rparr> else r)
              (dbQueue s)\<rparr>))"

definition MarkRollupProcessed :: "'d env \<Rightarrow> int \<Rightarrow> gotime \<Rightarrow> db \<Rightarrow> bool \<times> db" where
  "MarkRollupProcessed E i claimToken s =
     (let hit = (\<lambda>r. rq_ID r = i \<and> rq_ClaimedUntil r = Some (timestamptz claimToken))
      in (\<exists>r\<in>set (dbQueue s). hit r,
          s\<lparr>dbQueue := map (\<lambda>r. if hit r
              then r\<lparr>rq_ProcessedAt := Some (timestamptz (envNow E)), rq_ClaimedUntil := None\<rparr> else r) (dbQueue s)\<rparr>))"

definition ReleaseRollupClaim :: "int \<Rightarrow> gotime \<Rightarrow> db \<Rightarrow> db" where
  "ReleaseRollupClaim i claimToken s =
     s\<lparr>dbQueue := map (\<lambda>r. if rq_ID r = i \<and> rq_ProcessedAt r = None
            \<and> rq_ClaimedUntil r = Some (timestamptz claimToken)
          then r\<lparr>rq_ClaimedUntil := None, rq_FailedAttempts := rq_FailedAttempts r + 1\<rparr> else r) (dbQueue s)\<rparr>"

definition ResetRollupClaim :: "int \<Rightarrow> db \<Rightarrow> db result" where
  "ResetRollupClaim i s =
     (if \<exists>r\<in>set (dbQueue s). rq_ID r = i \<and> rq_ProcessedAt r = None
      then Inr (s\<lparr>dbQueue := map (\<lambda>r. if rq_ID r = i \<and> rq_ProcessedAt r = None
             then r\<lparr>rq_ClaimedUntil := None, rq_FailedAttempts := 0\<rparr> else r) (dbQueue s)\<rparr>)
      else Inl [ErrNotFound])"

definition SumEntriesSince ::
  "'d env \<Rightarrow> db \<Rightarrow> int \<Rightarrow> int \<Rightarrow> int \<Rightarrow> (int \<times> 'd) list \<times> (int \<times> 'd) list \<times> int \<times> gotime" where
  "SumEntriesSince E s holder currencyID sinceEntryID =
     (let rows = SumEntriesSinceCheckpoint s holder currencyID sinceEntryID;
          side = (\<lambda>t. sumBy (envD E) fst (\<lambda>(_, _, a). numericToDecimal E a)
             (filter (\<lambda>(_, u, _). u = t) rows));
          (maxEntryID, maxEntryAt) = GetMaxEntryForAccountCurrencySince s holder currencyID sinceEntryID
      in (side EntryTypeDebit, side EntryTypeCredit, maxEntryID,
          if maxEntryID = 0 then 0 else maxEntryAt))"

definition processItem :: "'d env \<Rightarrow> (int \<times> NormalSide) list \<Rightarrow> RollupQueueItem \<Rightarrow> db \<Rightarrow> db result" where
  "processItem E normalSides item s =
     (let D = envD E; holder = qi_AccountHolder item; currencyID = qi_CurrencyID item;
          classificationID = qi_ClassificationID item;
          cp = GetBalanceCheckpoint s holder currencyID classificationID;
          currentBalance = (case cp of None \<Rightarrow> dZero D | Some c \<Rightarrow> numericToDecimal E (cp_Balance c));
          sinceEntryID = (case cp of None \<Rightarrow> 0 | Some c \<Rightarrow> cp_LastEntryID c);
          (debitByClass, creditByClass, maxEntryID, maxEntryAt) = SumEntriesSince E s holder currencyID sinceEntryID
      in if maxEntryID = 0 \<or> maxEntryID \<le> sinceEntryID
         then Inr (snd (MarkRollupProcessed E (qi_ID item) (qi_ClaimedUntil item) s))
         else let ns = (case map_of normalSides classificationID of None \<Rightarrow> [] | Some n \<Rightarrow> n)
           in bindR (Delta D ns (valAt D debitByClass classificationID) (valAt D creditByClass classificationID)) (\<lambda>delta.
              bindR (UpsertBalanceCheckpoint E holder currencyID classificationID (dAdd D currentBalance delta)
                 maxEntryID maxEntryAt s) (\<lambda>s1.
              let (marked, s2) = MarkRollupProcessed E (qi_ID item) (qi_ClaimedUntil item) s1;
                  (freshDebit, freshCredit, _) = SumEntriesSince E s2 holder currencyID maxEntryID
              in Inr (if marked \<and> (map_of freshDebit classificationID \<noteq> None \<or> map_of freshCredit classificationID \<noteq> None)
                      then EnqueueRollup E (holder, currencyID, classificationID) s2 else s2))))"

definition rollupStep ::
  "'d env \<Rightarrow> (int \<times> NormalSide) list \<Rightarrow> nat \<times> db \<Rightarrow> RollupQueueItem \<Rightarrow> nat \<times> db" where
  "rollupStep E normalSides acc item =
     (case processItem E normalSides item (snd acc) of
        Inl _ \<Rightarrow> (fst acc, ReleaseRollupClaim (qi_ID item) (qi_ClaimedUntil item) (snd acc))
      | Inr t \<Rightarrow> (fst acc + 1, t))"

definition ProcessBatch :: "'d env \<Rightarrow> duration \<Rightarrow> nat \<Rightarrow> db \<Rightarrow> nat \<times> db" where
  "ProcessBatch E claimLease batchSize s =
     (let (items, s1) = DequeueRollupBatch E claimLease batchSize s;
          normalSides = map (\<lambda>c. (dk_ID c, dk_NormalSide c)) (ListClassificationDims s1)
      in foldl (rollupStep E normalSides) (0, s1) items)"

section \<open>Lemmas\<close>

lemma maxOr_facts:
  "x \<in> set xs \<Longrightarrow> x \<le> maxOr d xs" "xs \<noteq> [] \<Longrightarrow> maxOr d xs \<in> set xs" "xs = [] \<Longrightarrow> maxOr d xs = d"
proof -
  have "maxOr d (y # ys) = Max (set (y # ys))" for y ys using Max.set_eq_fold [of y ys] by (simp add: maxOr_def)
  then have m: "xs \<noteq> [] \<Longrightarrow> maxOr d xs = Max (set xs)" by (cases xs) simp_all
  show "x \<in> set xs \<Longrightarrow> x \<le> maxOr d xs" using m by (cases "xs = []") simp_all
  show "xs \<noteq> [] \<Longrightarrow> maxOr d xs \<in> set xs" using m Max_in [of "set xs"] by simp
  show "xs = [] \<Longrightarrow> maxOr d xs = d" by (simp add: maxOr_def)
qed

lemma maxOr_le: "\<forall>x\<in>set xs. x \<le> b \<Longrightarrow> d \<le> b \<Longrightarrow> maxOr d xs \<le> b"
  using maxOr_facts(2,3) [of xs d] by (cases "xs = []") auto

lemma GetBalanceCheckpoint_hit: "GetBalanceCheckpoint s h c k = List.find (dim_hit h c k) (dbCheckpoints s)"
  by (simp add: GetBalanceCheckpoint_def dim_hit_def [abs_def])

lemma dim_hit_other: "dim_hit h c k cp \<Longrightarrow> (h', c', k') \<noteq> (h, c, k) \<Longrightarrow> \<not> dim_hit h' c' k' cp"
  by (auto simp: dim_hit_def)

text \<open>A written checkpoint answers for its dimension and leaves the others alone.\<close>

lemma putCheckpoint_facts:
  assumes "t = putCheckpoint E g cp s" "dim_hit h c k cp"
  shows "t = s\<lparr>dbCheckpoints := dbCheckpoints t\<rparr>"
    "set (dbCheckpoints t) \<subseteq> insert cp (set (dbCheckpoints s))"
    "(h', c', k') \<noteq> (h, c, k) \<Longrightarrow> GetBalanceCheckpoint t h' c' k' = GetBalanceCheckpoint s h' c' k'"
    "(case GetBalanceCheckpoint s h c k of Some old \<Rightarrow> g \<longrightarrow> cp_LastEntryID old < cp_LastEntryID cp | None \<Rightarrow> True)
       \<Longrightarrow> GetBalanceCheckpoint t h c k = Some cp
         \<and> set (dbCheckpoints t) \<subseteq> insert cp {x \<in> set (dbCheckpoints s). \<not> dim_hit h c k x}"
proof -
  have hit: "cp_AccountHolder cp = h" "cp_CurrencyID cp = c" "cp_ClassificationID cp = k"
    using assms(2) by (simp_all add: dim_hit_def)
  note t = assms(1) [unfolded putCheckpoint_def Let_def hit]
  show "t = s\<lparr>dbCheckpoints := dbCheckpoints t\<rparr>" using t by (auto split: option.splits)
  show "set (dbCheckpoints t) \<subseteq> insert cp (set (dbCheckpoints s))" using t by (auto split: option.splits)
  show "GetBalanceCheckpoint t h' c' k' = GetBalanceCheckpoint s h' c' k'" if "(h', c', k') \<noteq> (h, c, k)"
  proof -
    have "List.find (dim_hit h' c' k') (xs @ [cp]) = List.find (dim_hit h' c' k') xs"
      "List.find (dim_hit h' c' k') (map (\<lambda>x. if dim_hit h c k x then cp else x) xs) = List.find (dim_hit h' c' k') xs" for xs
      using dim_hit_other [OF assms(2) that] dim_hit_other [OF _ that] by (induction xs) auto
    then show ?thesis by (simp add: GetBalanceCheckpoint_hit t split: option.splits)
  qed
  assume adv: "case GetBalanceCheckpoint s h c k of Some old \<Rightarrow> g \<longrightarrow> cp_LastEntryID old < cp_LastEntryID cp | None \<Rightarrow> True"
  have new: "List.find (dim_hit h c k) (xs @ [cp]) = Some cp" if "List.find (dim_hit h c k) xs = None" for xs
    using that assms(2) by (induction xs) (auto split: if_splits)
  have old: "List.find (dim_hit h c k) (map (\<lambda>x. if dim_hit h c k x then cp else x) xs) = Some cp"
    if "List.find (dim_hit h c k) xs = Some y" for xs y
    using that assms(2) by (induction xs) (auto split: if_splits)
  show "GetBalanceCheckpoint t h c k = Some cp
      \<and> set (dbCheckpoints t) \<subseteq> insert cp {x \<in> set (dbCheckpoints s). \<not> dim_hit h c k x}"
  proof (cases "List.find (dim_hit h c k) (dbCheckpoints s)")
    case None
    then have "dbCheckpoints t = dbCheckpoints s @ [cp]" by (simp add: t)
    with new [OF None] None show ?thesis by (auto simp: GetBalanceCheckpoint_hit find_None_iff)
  next
    case (Some y)
    then have "dbCheckpoints t = map (\<lambda>x. if dim_hit h c k x then cp else x) (dbCheckpoints s)"
      using adv by (auto simp: GetBalanceCheckpoint_hit t)
    with old [OF Some] show ?thesis by (auto simp: GetBalanceCheckpoint_hit)
  qed
qed

text \<open>What a checkpoint that covers everything has to say.\<close>

lemma full_checkpoint_ok:
  assumes "cp_Balance cp = ledger_balance s (cp_AccountHolder cp) (cp_CurrencyID cp) (cp_ClassificationID cp)"
    and "\<forall>e\<in>set (dbEntries s). on_dim (cp_AccountHolder cp) (cp_CurrencyID cp) (cp_ClassificationID cp) e
       \<longrightarrow> er_ID e \<le> cp_LastEntryID cp" "cp_LastEntryID cp \<le> dbSeq s"
  shows "checkpoint_ok s cp"
proof -
  let ?on = "on_dim (cp_AccountHolder cp) (cp_CurrencyID cp) (cp_ClassificationID cp)"
  have "filter (\<lambda>e. ?on e \<and> er_ID e \<le> cp_LastEntryID cp) (dbEntries s) = filter ?on (dbEntries s)"
    using assms(2) by (intro filter_cong) auto
  then show ?thesis using assms(1,3) by (simp add: checkpoint_ok_def ledger_balance_def)
qed

text \<open>The tables whose contents the invariant reads.\<close>

lemma ledger_ok_cong:
  assumes "ledger_ok E s"
    and c: "dbCurrencies t = dbCurrencies s" "dbClassifications t = dbClassifications s" "dbJournalTypes t = dbJournalTypes s"
    and "dbJournals t = dbJournals s" "dbEntries t = dbEntries s" "dbEvents t = dbEvents s" "dbSeq s \<le> dbSeq t"
    and "\<forall>cp\<in>set (dbCheckpoints t). cp \<in> set (dbCheckpoints s) \<or> checkpoint_ok s cp"
  shows "ledger_ok E t"
proof -
  have "ids_ok t" using assms(1,8) by (fastforce simp: ledger_ok_def ids_ok_def assms(5-7))
  moreover have "dims_ok t"
    using assms(1) by (simp add: ledger_ok_def dims_ok_def dims_unique_def ListCurrencyDims_def
        ListClassificationDims_def ListJournalTypeDims_def c)
  moreover have "uids_ok E t" "\<forall>e\<in>set (dbEntries t). entry_ok t e" "events_ok t"
    using assms(1) by (simp_all add: ledger_ok_def uids_ok_def entry_ok_def events_ok_def assms(5-7) c)
  moreover have "balanced_ok t" "reversals_ok t"
    using assms(1) by (simp_all add: ledger_ok_def balanced_ok_def reversals_ok_def journal_net_def reversed_amount_def
        posted_amount_def ListReversalEntriesByOriginal_def ListReversalsByOriginalJournalID_def ListJournalEntries_def assms(5,6))
  moreover have "checkpoint_ok t cp" if "cp \<in> set (dbCheckpoints t)" for cp
  proof -
    have "checkpoint_ok s cp" using that assms(1,9) by (auto simp: ledger_ok_def)
    then show ?thesis
      using assms(8) by (simp add: checkpoint_ok_def assms(6) normal_side_of_def GetClassification_def c)
  qed
  ultimately show ?thesis by (simp add: ledger_ok_def)
qed

lemma signed_fold:
  assumes "NormalSide_IsValid n" "\<forall>e\<in>set es. EntryType_IsValid (er_EntryType e)"
  shows "foldR (\<lambda>sum e. bindR (ledger_signed_amount n (er_EntryType e) (er_Amount e)) (\<lambda>a. Inr (sum + a))) x es
     = Inr (x + (\<Sum>e\<leftarrow>es. signed_entry n e))"
  using assms(2) by (induction es arbitrary: x) (simp_all add: ledger_signed_amount_signed assms(1) add_ac)

lemma Recompute_eq:
  assumes "dims_ok s" "\<forall>e\<in>set (dbEntries s). entry_ok s e" "cl \<in> set (dbClassifications s)"
  shows "RecomputeCheckpointFromEntries s h c (cls_ID cl) =
     (let rows = filter (on_dim h c (cls_ID cl)) (dbEntries s)
      in Inr (Some (ledger_balance s h c (cls_ID cl), maxOr 0 (map er_ID rows), maxOr epoch (map er_CreatedAt rows))))"
proof -
  note cl = class_row [OF assms(1,3)]
  have "\<forall>e\<in>set (filter P (dbEntries s)). EntryType_IsValid (er_EntryType e)" for P
    using assms(2) by (simp add: entry_ok_def)
  then show ?thesis
    by (simp add: RecomputeCheckpointFromEntries_def cl signed_fold ledger_balance_def Let_def)
qed

text \<open>The two maps of the delta query, read at one classification.\<close>

lemma since_rows_sum:
  "(\<Sum>(k', t', n)\<leftarrow>SumEntriesSinceCheckpoint s h c i. if k' = k \<and> t' = side then n else 0)
     = (\<Sum>e\<leftarrow>filter (\<lambda>e. on_dim h c k e \<and> er_EntryType e = side \<and> i < er_ID e) (dbEntries s). er_Amount e)"
proof -
  let ?rows = "filter (\<lambda>e. er_AccountHolder e = h \<and> er_CurrencyID e = c \<and> i < er_ID e) (dbEntries s)"
  let ?f = "\<lambda>(k, t). \<Sum>e\<leftarrow>filter (\<lambda>e. er_ClassificationID e = k \<and> er_EntryType e = t) ?rows. er_Amount e"
  let ?keys = "remdups (map (\<lambda>e. (er_ClassificationID e, er_EntryType e)) ?rows)"
  have "(\<Sum>(k', t', n)\<leftarrow>SumEntriesSinceCheckpoint s h c i. if k' = k \<and> t' = side then n else 0)
      = (\<Sum>x\<leftarrow>?keys. if x = (k, side) then ?f x else 0)"
    unfolding SumEntriesSinceCheckpoint_def Let_def map_map
    by (intro arg_cong [of _ _ sum_list] map_cong refl) (auto split: if_splits)
  also have "\<dots> = (if (k, side) \<in> set ?keys then ?f (k, side) else 0)" by (rule sum_single) simp
  also have "\<dots> = ?f (k, side)" by (auto simp: filter_empty_conv intro!: sum_list_zero)
  also have "\<dots> = (\<Sum>e\<leftarrow>filter (\<lambda>e. on_dim h c k e \<and> er_EntryType e = side \<and> i < er_ID e) (dbEntries s). er_Amount e)"
    by (simp add: on_dim_def conj_ac cong: filter_cong)
  finally show ?thesis .
qed

lemma since_rows_key:
  "(k, side, n) \<in> set (SumEntriesSinceCheckpoint s h c i) \<Longrightarrow> \<exists>e\<in>set (dbEntries s). on_dim h c k e \<and> i < er_ID e"
  by (auto simp: SumEntriesSinceCheckpoint_def Let_def on_dim_def)

context store_env
begin

lemma SumEntriesSince_val:
  assumes "SumEntriesSince E s h c i = (debits, credits, m, mt)"
  shows "dval (envD E) (valAt (envD E) debits k) = unit_val
      (\<Sum>e\<leftarrow>filter (\<lambda>e. on_dim h c k e \<and> er_EntryType e = EntryTypeDebit \<and> i < er_ID e) (dbEntries s). er_Amount e)"
    "dval (envD E) (valAt (envD E) credits k) = unit_val
      (\<Sum>e\<leftarrow>filter (\<lambda>e. on_dim h c k e \<and> er_EntryType e = EntryTypeCredit \<and> i < er_ID e) (dbEntries s). er_Amount e)"
    "m = maxOr 0 (map er_ID (filter (\<lambda>e. er_AccountHolder e = h \<and> er_CurrencyID e = c \<and> i < er_ID e) (dbEntries s)))"
proof -
  have side: "dval (envD E) (valAt (envD E) (sumBy (envD E) fst (\<lambda>(_, _, a). numericToDecimal E a)
        (filter (\<lambda>(_, u, _). u = t) rows)) k)
      = unit_val (\<Sum>(k', t', n)\<leftarrow>rows. if k' = k \<and> t' = t then n else 0)" for t and rows :: "(int \<times> string \<times> int) list"
    unfolding sumBy_val by (induction rows) (auto simp: unit_val_simps numericToDecimal_val split: prod.splits)
  show "dval (envD E) (valAt (envD E) debits k) = unit_val
      (\<Sum>e\<leftarrow>filter (\<lambda>e. on_dim h c k e \<and> er_EntryType e = EntryTypeDebit \<and> i < er_ID e) (dbEntries s). er_Amount e)"
    "dval (envD E) (valAt (envD E) credits k) = unit_val
      (\<Sum>e\<leftarrow>filter (\<lambda>e. on_dim h c k e \<and> er_EntryType e = EntryTypeCredit \<and> i < er_ID e) (dbEntries s). er_Amount e)"
    using assms by (auto simp: SumEntriesSince_def Let_def side since_rows_sum split: prod.splits)
  show "m = maxOr 0 (map er_ID (filter (\<lambda>e. er_AccountHolder e = h \<and> er_CurrencyID e = c \<and> i < er_ID e) (dbEntries s)))"
    using assms by (auto simp: SumEntriesSince_def Let_def GetMaxEntryForAccountCurrencySince_def)
qed

end

text \<open>What the rollup touches, and when a checkpoint has caught up with its account.\<close>

definition rollup_only :: "db \<Rightarrow> db \<Rightarrow> bool" where
  "rollup_only s t \<longleftrightarrow> s\<lparr>dbCheckpoints := [], dbQueue := [], dbSeq := 0\<rparr> = t\<lparr>dbCheckpoints := [], dbQueue := [], dbSeq := 0\<rparr>
     \<and> dbSeq s \<le> dbSeq t"

lemma rollup_only_fields:
  assumes "rollup_only s t"
  shows "dbCurrencies t = dbCurrencies s" "dbClassifications t = dbClassifications s" "dbJournalTypes t = dbJournalTypes s"
    "dbJournals t = dbJournals s" "dbEntries t = dbEntries s" "dbEvents t = dbEvents s" "dbSeq s \<le> dbSeq t"
    "ledger_balance t h c k = ledger_balance s h c k"
  using assms
  by (cases s, cases t, simp add: rollup_only_def ledger_balance_def normal_side_of_def GetClassification_def)+

lemma rollup_only_trans: "rollup_only s t \<Longrightarrow> rollup_only t u \<Longrightarrow> rollup_only s u"
  by (simp add: rollup_only_def)

definition covered :: "db \<Rightarrow> int \<Rightarrow> int \<Rightarrow> int \<Rightarrow> bool" where
  "covered t h c k \<longleftrightarrow>
     (case GetBalanceCheckpoint t h c k of
        None \<Rightarrow> \<forall>e\<in>set (dbEntries t). \<not> on_dim h c k e
      | Some cp \<Rightarrow> cp_Balance cp = ledger_balance t h c k
          \<and> (\<forall>e\<in>set (dbEntries t). on_dim h c k e \<longrightarrow> er_ID e \<le> cp_LastEntryID cp))"

definition since_of :: "db \<Rightarrow> int \<Rightarrow> int \<Rightarrow> int \<Rightarrow> int" where
  "since_of s h c k = (case GetBalanceCheckpoint s h c k of None \<Rightarrow> 0 | Some cp \<Rightarrow> cp_LastEntryID cp)"

text \<open>Nothing after the checkpoint: it already covers the account.\<close>

lemma nothing_new_covered:
  assumes "ledger_ok E s" "\<forall>e\<in>set (dbEntries s). on_dim h c k e \<longrightarrow> er_ID e \<le> since_of s h c k"
  shows "covered s h c k"
proof (cases "GetBalanceCheckpoint s h c k")
  case None
  have "0 < er_ID e" if "e \<in> set (dbEntries s)" for e using assms(1) that by (simp add: ledger_ok_def ids_ok_def)
  with None assms(2) show ?thesis by (fastforce simp: covered_def since_of_def)
next
  case (Some cp)
  have none: "filter (\<lambda>e. on_dim h c k e \<and> cp_LastEntryID cp < er_ID e) (dbEntries s) = []"
    using Some assms(2) by (auto simp: since_of_def filter_empty_conv)
  with checkpoint_delta [OF assms(1), of h c k] Some assms(2) show ?thesis by (simp add: covered_def since_of_def)
qed

lemma queue_only_rollup: "queue_only s t \<Longrightarrow> rollup_only s t \<and> dbCheckpoints t = dbCheckpoints s"
  by (cases s, cases t, simp add: queue_only_def rollup_only_def)

lemma covered_cong:
  assumes "rollup_only s t" "GetBalanceCheckpoint t h c k = GetBalanceCheckpoint s h c k"
  shows "covered t h c k \<longleftrightarrow> covered s h c k"
  using assms by (simp add: covered_def rollup_only_fields split: option.splits)

lemma Mark_rollup:
  "rollup_only s (snd (MarkRollupProcessed E i tok s))"
  "dbCheckpoints (snd (MarkRollupProcessed E i tok s)) = dbCheckpoints s"
  by (simp_all add: MarkRollupProcessed_def Let_def rollup_only_def)

lemma after_mark:
  assumes "t = (if b then EnqueueRollup E key (snd (MarkRollupProcessed E i tok s)) else snd (MarkRollupProcessed E i tok s))"
  shows "rollup_only s t" "dbCheckpoints t = dbCheckpoints s"
  using assms Mark_rollup [where s = s and E = E and i = i and tok = tok] queue_only_rollup [OF queue_only_enqueue [where s = "snd (MarkRollupProcessed E i tok s)" and E = E and key = key]]
  by (auto intro: rollup_only_trans)

text \<open>The write of the rollup: the new checkpoint carries the balance of the books.\<close>

lemma rollup_write:
  assumes "store_env E" "ledger_ok E s" "cl \<in> set (dbClassifications s)" "k = cls_ID cl"
    and "Delta (envD E) (cls_NormalSide cl) debit credit = Inr delta"
    and "dval (envD E) debit = unit_val (side_since s EntryTypeDebit h c k)"
    and "dval (envD E) credit = unit_val (side_since s EntryTypeCredit h c k)"
    and "UpsertBalanceCheckpoint E h c k (dAdd (envD E) (case GetBalanceCheckpoint s h c k of None \<Rightarrow> dZero (envD E)
          | Some cp \<Rightarrow> numericToDecimal E (cp_Balance cp)) delta) m mt s = Inr s1"
    and "since_of s h c k < m" "\<forall>e\<in>set (dbEntries s). on_dim h c k e \<longrightarrow> er_ID e \<le> m" "m \<le> dbSeq s"
  shows "rollup_only s s1" "ledger_ok E s1" "covered s1 h c k"
    "(h', c', k') \<noteq> (h, c, k) \<Longrightarrow> GetBalanceCheckpoint s1 h' c' k' = GetBalanceCheckpoint s h' c' k'"
proof -
  let ?D = "envD E" and ?cp = "GetBalanceCheckpoint s h c k"
  let ?b = "case ?cp of None \<Rightarrow> dZero ?D | Some cp \<Rightarrow> numericToDecimal E (cp_Balance cp)"
  have D: "decimal_lib ?D" using assms(1) by (simp add: store_env_def)
  have "dims_ok s" using assms(2) by (simp add: ledger_ok_def)
  note cl = class_row [OF this assms(3)]
  have "dval ?D ?b = unit_val (case ?cp of None \<Rightarrow> 0 | Some cp \<Rightarrow> cp_Balance cp)"
    by (simp add: decimal_lib.Zero [OF D] unit_val_simps store_env.numericToDecimal_val [OF assms(1)] split: option.splits)
  moreover have "dval ?D delta = side_net (normal_side_of s k) (unit_val (side_since s EntryTypeDebit h c k))
      (unit_val (side_since s EntryTypeCredit h c k))"
    using decimal_lib.Delta_val [OF D assms(5)] by (simp add: assms(4,6,7) cl(2))
  ultimately have bal: "dval ?D (dAdd ?D ?b delta) = unit_val (ledger_balance s h c k)"
    using side_since_net [OF assms(2), of k h c] cl(3)
    unfolding decimal_lib.Add [OF D] checkpoint_delta [OF assms(2), symmetric] unit_val_simps(2)
    by (simp add: assms(4) cl(2))
  define cp where "cp = \<lparr>cp_AccountHolder = h, cp_CurrencyID = c, cp_ClassificationID = k,
    cp_Balance = ledger_balance s h c k, cp_LastEntryID = m, cp_LastEntryAt = timestamptz mt,
    cp_UpdatedAt = timestamptz (envNow E)\<rparr>"
  have s1: "s1 = putCheckpoint E True cp s"
    using assms(8) unit_val_units [OF bal]
    by (simp add: UpsertBalanceCheckpoint_def storeNumeric_units cp_def split: if_splits)
  have hit: "dim_hit h c k cp" by (simp add: dim_hit_def cp_def)
  note put = putCheckpoint_facts [OF s1 hit]
  have adv: "case ?cp of Some old \<Rightarrow> True \<longrightarrow> cp_LastEntryID old < cp_LastEntryID cp | None \<Rightarrow> True"
    using assms(9) by (simp add: since_of_def cp_def split: option.splits)
  show only: "rollup_only s s1" by (subst put(1)) (simp add: rollup_only_def)
  have "checkpoint_ok s cp" by (rule full_checkpoint_ok) (use assms(10,11) in \<open>simp_all add: cp_def\<close>)
  then show "ledger_ok E s1"
    using put(2) by (intro ledger_ok_cong [OF assms(2) rollup_only_fields(1-7) [OF only]]) auto
  show "covered s1 h c k"
    using put(4) [OF adv] assms(10) by (simp add: covered_def rollup_only_fields [OF only]) (simp add: cp_def)
  show "GetBalanceCheckpoint s1 h' c' k' = GetBalanceCheckpoint s h' c' k'" if "(h', c', k') \<noteq> (h, c, k)"
    using put(3) [OF that] .
qed

definition item_covered :: "db \<Rightarrow> RollupQueueItem \<Rightarrow> bool" where
  "item_covered t item = covered t (qi_AccountHolder item) (qi_CurrencyID item) (qi_ClassificationID item)"

lemma class_of_side:
  assumes "map_of (map (\<lambda>c. (dk_ID c, dk_NormalSide c)) (ListClassificationDims s)) k = Some n"
  obtains cl where "cl \<in> set (dbClassifications s)" "k = cls_ID cl" "n = cls_NormalSide cl"
  using map_of_SomeD [OF assms] by (auto simp: ListClassificationDims_def classDim_def)

lemma processItem_ok:
  assumes "store_env E" "ledger_ok E s"
    and "processItem E (map (\<lambda>c. (dk_ID c, dk_NormalSide c)) (ListClassificationDims s)) item s = Inr t"
  shows "rollup_only s t" "ledger_ok E t" "item_covered t item" "covered s h c k \<Longrightarrow> covered t h c k"
proof -
  let ?D = "envD E" and ?h = "qi_AccountHolder item" and ?c = "qi_CurrencyID item" and ?k = "qi_ClassificationID item"
  let ?since = "since_of s ?h ?c ?k"
  have D: "decimal_lib ?D" using assms(1) by (simp add: store_env_def)
  have dims: "dims_ok s" using assms(2) by (simp add: ledger_ok_def)
  obtain debits credits m mt where sum: "SumEntriesSince E s ?h ?c ?since = (debits, credits, m, mt)"
    by (metis prod_cases4)
  note sums = store_env.SumEntriesSince_val [OF assms(1) sum]
  let ?rows = "filter (\<lambda>e. er_AccountHolder e = ?h \<and> er_CurrencyID e = ?c \<and> ?since < er_ID e) (dbEntries s)"
  note item = assms(3) [unfolded processItem_def Let_def, folded since_of_def, unfolded sum prod.case]
  have ids: "0 < er_ID e \<and> er_ID e \<le> dbSeq s" if "e \<in> set (dbEntries s)" for e
    using assms(2) that by (simp add: ledger_ok_def ids_ok_def)
  have le: "\<forall>e\<in>set (dbEntries s). on_dim ?h ?c ?k e \<longrightarrow> er_ID e \<le> max m ?since"
    using maxOr_facts(1) [of _ "map er_ID ?rows" 0] by (fastforce simp: sums(3) on_dim_def)
  have all: "rollup_only s t \<and> ledger_ok E t \<and> item_covered t item
      \<and> ((h, c, k) \<noteq> (?h, ?c, ?k) \<longrightarrow> GetBalanceCheckpoint t h c k = GetBalanceCheckpoint s h c k)"
  proof (cases "m = 0 \<or> m \<le> ?since")
    case True
    have "?rows = []"
    proof (rule ccontr)
      assume "?rows \<noteq> []"
      then have "m \<in> set (map er_ID ?rows)" unfolding sums(3) by (intro maxOr_facts(2)) simp
      with True ids show False by fastforce
    qed
    then have "\<forall>e\<in>set (dbEntries s). on_dim ?h ?c ?k e \<longrightarrow> er_ID e \<le> ?since"
      by (fastforce simp: filter_empty_conv on_dim_def)
    note cov = nothing_new_covered [OF assms(2) this]
    have t: "t = snd (MarkRollupProcessed E (qi_ID item) (qi_ClaimedUntil item) s)" using item True by simp
    note m = Mark_rollup [where s = s and E = E and i = "qi_ID item" and tok = "qi_ClaimedUntil item", folded t]
    have "ledger_ok E t" using m(2) by (intro ledger_ok_cong [OF assms(2) rollup_only_fields(1-7) [OF m(1)]]) simp
    moreover have "GetBalanceCheckpoint t h c k = GetBalanceCheckpoint s h c k" for h c k
      by (simp add: GetBalanceCheckpoint_def m(2))
    ultimately show ?thesis using cov m(1) covered_cong [OF m(1)] by (simp add: item_covered_def)
  next
    case False
    then obtain ns delta s1 where d: "Delta ?D ns (valAt ?D debits ?k) (valAt ?D credits ?k) = Inr delta"
      and ns: "ns = (case map_of (map (\<lambda>c. (dk_ID c, dk_NormalSide c)) (ListClassificationDims s)) ?k of None \<Rightarrow> [] | Some n \<Rightarrow> n)"
      and up: "UpsertBalanceCheckpoint E ?h ?c ?k (dAdd ?D (case GetBalanceCheckpoint s ?h ?c ?k of None \<Rightarrow> dZero ?D
          | Some cp \<Rightarrow> numericToDecimal E (cp_Balance cp)) delta) m mt s = Inr s1"
      and t: "\<exists>b. t = (if b then EnqueueRollup E (?h, ?c, ?k) (snd (MarkRollupProcessed E (qi_ID item) (qi_ClaimedUntil item) s1))
          else snd (MarkRollupProcessed E (qi_ID item) (qi_ClaimedUntil item) s1))"
      using item by (auto simp: case_prod_unfold)
    have "ns \<noteq> []" using decimal_lib.Delta_val [OF D d] by (auto simp: NormalSide_IsValid_def side_names)
    then have "map_of (map (\<lambda>c. (dk_ID c, dk_NormalSide c)) (ListClassificationDims s)) ?k = Some ns"
      using ns by (auto split: option.splits)
    then obtain cl where cl: "cl \<in> set (dbClassifications s)" "?k = cls_ID cl" "ns = cls_NormalSide cl"
      by (rule class_of_side)
    have "?rows \<noteq> []" using False by (auto simp: sums(3) maxOr_def)
    then have "m \<in> set (map er_ID ?rows)" unfolding sums(3) by (intro maxOr_facts(2)) simp
    then have m: "m \<le> dbSeq s" using ids by auto
    have "dval ?D (valAt ?D debits ?k) = unit_val (side_since s EntryTypeDebit ?h ?c ?k)"
      "dval ?D (valAt ?D credits ?k) = unit_val (side_since s EntryTypeCredit ?h ?c ?k)"
      by (simp_all add: sums(1,2) side_since_def since_of_def)
    note w = rollup_write [OF assms(1,2) cl(1,2) d [unfolded cl(3)] this up _ _ m]
    have lt: "?since < m" "\<forall>e\<in>set (dbEntries s). on_dim ?h ?c ?k e \<longrightarrow> er_ID e \<le> m" using False le by (simp_all add: max_def)
    from t obtain b where tb: "t = (if b then EnqueueRollup E (?h, ?c, ?k) (snd (MarkRollupProcessed E (qi_ID item) (qi_ClaimedUntil item) s1))
          else snd (MarkRollupProcessed E (qi_ID item) (qi_ClaimedUntil item) s1))" by blast
    note a = after_mark [OF tb]
    have "ledger_ok E t" using a(2) by (intro ledger_ok_cong [OF w(2) [OF lt] rollup_only_fields(1-7) [OF a(1)]]) simp
    moreover have "GetBalanceCheckpoint t h c k = GetBalanceCheckpoint s1 h c k" for h c k
      by (simp add: GetBalanceCheckpoint_def a(2))
    ultimately show ?thesis
      using w(3,4) [OF lt] rollup_only_trans [OF w(1) [OF lt] a(1)] covered_cong [OF a(1)] by (simp add: item_covered_def)
  qed
  then show "rollup_only s t" "ledger_ok E t" "item_covered t item" by simp_all
  show "covered t h c k" if "covered s h c k"
    using all that covered_cong [of s t h c k] by (cases "(h, c, k) = (?h, ?c, ?k)") (auto simp: item_covered_def)
qed

lemma rollupStep_ok:
  assumes "store_env E" "ledger_ok E (snd acc)"
    and "rollupStep E (map (\<lambda>c. (dk_ID c, dk_NormalSide c)) (ListClassificationDims (snd acc))) acc item = (n, t)"
  shows "rollup_only (snd acc) t \<and> ledger_ok E t \<and> (n = fst acc \<or> n = fst acc + 1 \<and> item_covered t item)
     \<and> (covered (snd acc) h c k \<longrightarrow> covered t h c k)"
proof (cases "processItem E (map (\<lambda>c. (dk_ID c, dk_NormalSide c)) (ListClassificationDims (snd acc))) item (snd acc)")
  case (Inl e)
  then have t: "n = fst acc" "t = ReleaseRollupClaim (qi_ID item) (qi_ClaimedUntil item) (snd acc)"
    using assms(3) by (simp_all add: rollupStep_def)
  have r: "rollup_only (snd acc) t" "dbCheckpoints t = dbCheckpoints (snd acc)"
    by (simp_all add: t(2) ReleaseRollupClaim_def rollup_only_def)
  have "ledger_ok E t" using r(2) by (intro ledger_ok_cong [OF assms(2) rollup_only_fields(1-7) [OF r(1)]]) simp
  moreover have "GetBalanceCheckpoint t h c k = GetBalanceCheckpoint (snd acc) h c k"
    by (simp add: GetBalanceCheckpoint_def r(2))
  ultimately show ?thesis using r(1) covered_cong [OF r(1), of h c k] t(1) by simp
next
  case (Inr u)
  then have "n = fst acc + 1" "t = u" using assms(3) by (simp_all add: rollupStep_def)
  with processItem_ok [OF assms(1,2) Inr] show ?thesis by simp
qed

lemma rollup_items:
  assumes "store_env E" "ledger_ok E (snd acc)"
    and "foldl (rollupStep E (map (\<lambda>c. (dk_ID c, dk_NormalSide c)) (ListClassificationDims (snd acc)))) acc items = (n, t)"
  shows "rollup_only (snd acc) t \<and> ledger_ok E t \<and> n \<le> fst acc + length items
     \<and> (n = fst acc + length items \<longrightarrow> (\<forall>item\<in>set items. item_covered t item))
     \<and> (\<forall>h c k. covered (snd acc) h c k \<longrightarrow> covered t h c k)"
  using assms(2,3)
proof (induction items arbitrary: acc)
  case Nil
  then show ?case by (simp add: rollup_only_def)
next
  case (Cons item items)
  let ?sides = "\<lambda>s. map (\<lambda>c. (dk_ID c, dk_NormalSide c)) (ListClassificationDims s)"
  obtain m u where step: "rollupStep E (?sides (snd acc)) acc item = (m, u)" by fastforce
  note one = rollupStep_ok [OF assms(1) Cons.prems(1) step]
  then have ro: "rollup_only (snd acc) u" by blast
  from rollup_only_fields(2) [OF ro] have "?sides u = ?sides (snd acc)" by (simp add: ListClassificationDims_def)
  then have rest: "foldl (rollupStep E (?sides (snd (m, u)))) (m, u) items = (n, t)"
    using Cons.prems(2) step by simp
  have "ledger_ok E (snd (m, u))" using one by simp
  note IH = Cons.IH [OF this rest]
  have m: "m = fst acc \<or> m = fst acc + 1" using one by blast
  then have "n \<le> fst acc + length (item # items)" using IH by auto
  moreover have "\<forall>x\<in>set items. item_covered t x" if "n = fst acc + length (item # items)" using that m IH by auto
  moreover have "item_covered t item" if "n = fst acc + length (item # items)"
    using that one IH unfolding item_covered_def by fastforce
  moreover have "\<forall>h c k. covered (snd acc) h c k \<longrightarrow> covered t h c k" "rollup_only (snd acc) t" "ledger_ok E t"
    using IH one rollup_only_trans [OF ro] by auto
  ultimately show ?case by auto
qed

text \<open>A repair, with every value it writes.\<close>

lemma drift_units:
  assumes "store_env E"
  shows "units (envD E) (numericToDecimal E n) = n"
    "units (envD E) (dSub (envD E) (case p of None \<Rightarrow> dZero (envD E) | Some x \<Rightarrow> numericToDecimal E (cp_Balance x)) (numericToDecimal E n))
       = (case p of None \<Rightarrow> 0 | Some x \<Rightarrow> cp_Balance x) - n"
    "units (envD E) (case p of None \<Rightarrow> dZero (envD E) | Some x \<Rightarrow> numericToDecimal E (cp_Balance x))
       = (case p of None \<Rightarrow> 0 | Some x \<Rightarrow> cp_Balance x)"
proof -
  have D: "decimal_lib (envD E)" using assms by (simp add: store_env_def)
  note v = store_env.numericToDecimal_val [OF assms] decimal_lib.Zero [OF D] decimal_lib.Sub [OF D]
  show "units (envD E) (numericToDecimal E n) = n" by (rule unit_val_units) (rule v)
  show "units (envD E) (dSub (envD E) (case p of None \<Rightarrow> dZero (envD E) | Some x \<Rightarrow> numericToDecimal E (cp_Balance x)) (numericToDecimal E n))
       = (case p of None \<Rightarrow> 0 | Some x \<Rightarrow> cp_Balance x) - n"
    "units (envD E) (case p of None \<Rightarrow> dZero (envD E) | Some x \<Rightarrow> numericToDecimal E (cp_Balance x))
       = (case p of None \<Rightarrow> 0 | Some x \<Rightarrow> cp_Balance x)"
    by (rule unit_val_units, simp add: v unit_val_simps split: option.splits)+
qed

definition claimed_balance :: "db \<Rightarrow> int \<Rightarrow> int \<Rightarrow> int \<Rightarrow> int" where
  "claimed_balance s h c k = (case GetBalanceCheckpoint s h c k of None \<Rightarrow> 0 | Some p \<Rightarrow> cp_Balance p)"

lemma rebuild_outcome:
  assumes "store_env E" "dims_ok s" "\<forall>e\<in>set (dbEntries s). entry_ok s e" "cl \<in> set (dbClassifications s)"
  shows "rebuildWithQueries E h c (cls_ID cl) actor s =
     (if 0 < CountPendingRollupForDimension s h c (cls_ID cl) then Inl [ErrRollupPending]
      else let k = cls_ID cl; b = ledger_balance s h c k; rows = filter (on_dim h c k) (dbEntries s);
           cp = \<lparr>cp_AccountHolder = h, cp_CurrencyID = c, cp_ClassificationID = k, cp_Balance = b,
             cp_LastEntryID = maxOr 0 (map er_ID rows), cp_LastEntryAt = timestamptz (maxOr epoch (map er_CreatedAt rows)),
             cp_UpdatedAt = timestamptz (envNow E)\<rparr>
      in if h \<noteq> 0 \<and> \<bar>b\<bar> < 10 ^ 30 \<and> \<bar>claimed_balance s h c k\<bar> < 10 ^ 30 \<and> \<bar>claimed_balance s h c k - b\<bar> < 10 ^ 30
         then Inr ((numericToDecimal E b, maxOr epoch (map er_CreatedAt rows)),
           (putCheckpoint E False cp s)\<lparr>dbRebuilds := dbRebuilds s @ [\<lparr>rb_ID = dbSeq s + 1, rb_UID = envNewUID E (dbSeq s + 1),
             rb_AccountHolder = h, rb_CurrencyID = c, rb_ClassificationID = k, rb_PreviousBalance = claimed_balance s h c k,
             rb_PreviousLastEntryID = since_of s h c k, rb_NewBalance = b, rb_NewLastEntryID = cp_LastEntryID cp,
             rb_Drift = claimed_balance s h c k - b, rb_ActorID = actor, rb_CreatedAt = timestamptz (envNow E)\<rparr>],
             dbSeq := dbSeq s + 1\<rparr>)
         else Inl [])"
proof -
  have seq: "dbSeq (putCheckpoint E False cp s) = dbSeq s \<and> dbRebuilds (putCheckpoint E False cp s) = dbRebuilds s" for cp
    by (simp add: putCheckpoint_def Let_def split: option.splits)
  note d = drift_units [OF assms(1)]
  show ?thesis
    by (simp add: rebuildWithQueries_def Recompute_eq [OF assms(2-4)] RebuildBalanceCheckpoint_def
        InsertCheckpointRebuildAudit_def storeNumeric_units d claimed_balance_def since_of_def seq Let_def)
qed

section \<open>Properties\<close>

text \<open>C9. The rollup is invisible: whatever a batch does, no journal, entry or event changes, the invariant of
  the books holds afterwards, and therefore every balance is what it was. When every claimed item is
  processed, the checkpoint of each of their dimensions has caught up: it carries the whole balance of
  the books and no entry of the account lies beyond it.\<close>

theorem rollup_keeps_books:
  assumes "store_env E" "ledger_ok E s" "ProcessBatch E lease n s = (processed, t)"
  shows "ledger_ok E t \<and> dbJournals t = dbJournals s \<and> dbEntries t = dbEntries s \<and> dbEvents t = dbEvents s
    \<and> (\<forall>h c k. ledger_balance t h c k = ledger_balance s h c k)
    \<and> processed \<le> length (fst (DequeueRollupBatch E lease n s))
    \<and> (processed = length (fst (DequeueRollupBatch E lease n s))
        \<longrightarrow> (\<forall>item\<in>set (fst (DequeueRollupBatch E lease n s)). item_covered t item))"
proof -
  obtain items s1 where d: "DequeueRollupBatch E lease n s = (items, s1)" by fastforce
  have r: "rollup_only s s1" "dbCheckpoints s1 = dbCheckpoints s"
    using d by (auto simp: DequeueRollupBatch_def Let_def rollup_only_def)
  have "ledger_ok E (snd (0 :: nat, s1))"
    using r(2) by (simp, intro ledger_ok_cong [OF assms(2) rollup_only_fields(1-7) [OF r(1)]]) simp
  from rollup_items [OF assms(1) this, of items processed t] assms(3)
  have all: "rollup_only s1 t" "ledger_ok E t" "processed \<le> length items"
    "processed = length items \<longrightarrow> (\<forall>item\<in>set items. item_covered t item)"
    by (simp_all add: ProcessBatch_def d)
  from rollup_only_fields [OF rollup_only_trans [OF r(1) all(1)]] all d show ?thesis by simp
qed

text \<open>The first item the deposit of the sample ledger queued.\<close>

theorem rollup_keeps_books_witness:
  "fst (ProcessBatch ref_env rollupClaimLease 1 posted_ledger) = 1
    \<and> ledger_ok ref_env (snd (ProcessBatch ref_env rollupClaimLease 1 posted_ledger))
    \<and> covered (snd (ProcessBatch ref_env rollupClaimLease 1 posted_ledger)) (- 7) 1 3"
proof -
  let ?run = "ProcessBatch ref_env rollupClaimLease 1 posted_ledger"
  have run: "fst ?run = 1" by code_simp
  have items: "map (\<lambda>i. (qi_AccountHolder i, qi_CurrencyID i, qi_ClassificationID i))
      (fst (DequeueRollupBatch ref_env rollupClaimLease 1 posted_ledger)) = [(- 7, 1, 3)]" by code_simp
  have "length (fst (DequeueRollupBatch ref_env rollupClaimLease 1 posted_ledger)) = 1"
    using arg_cong [OF items, of length] by simp
  moreover have "?run = (1, snd ?run)" using run by (simp add: prod_eq_iff)
  note rollup_keeps_books [OF renv.store_env_axioms ledger_ok_posted this]
  ultimately show ?thesis using run items by (fastforce simp: item_covered_def map_eq_Cons_conv)
qed

text \<open>C11. A repair trusts the entries only. Whatever the checkpoints claim, \<^verbatim>\<open>RebuildCheckpoint\<close> replaces the one
  of its dimension by the balance of the books, leaves the others as they are, and records what was
  claimed and by how much it was off; with no other checkpoint wrong the invariant holds again. It
  refuses only while a rollup of the dimension is pending, for the holder 0, and when a balance or the
  drift itself needs more than twelve integer digits.\<close>

theorem RebuildCheckpoint_repairs:
  assumes "store_env E" "ledger_ok E (s\<lparr>dbCheckpoints := []\<rparr>)" "cur \<in> set (dbCurrencies s)" "cl \<in> set (dbClassifications s)"
  defines "c \<equiv> cur_ID cur" and "k \<equiv> cls_ID cl"
  shows "case RebuildCheckpoint E h (cur_UID cur) (cls_UID cl) actor s of
      Inr (cp, t) \<Rightarrow> dval (envD E) (bc_Balance cp) = unit_val (ledger_balance s h c k) \<and> covered t h c k
        \<and> (\<forall>h' c' k'. ledger_balance t h' c' k' = ledger_balance s h' c' k'
            \<and> ((h', c', k') \<noteq> (h, c, k) \<longrightarrow> GetBalanceCheckpoint t h' c' k' = GetBalanceCheckpoint s h' c' k'))
        \<and> (\<exists>row. dbRebuilds t = dbRebuilds s @ [row] \<and> rb_PreviousBalance row = claimed_balance s h c k
            \<and> rb_NewBalance row = ledger_balance s h c k
            \<and> rb_Drift row = claimed_balance s h c k - ledger_balance s h c k \<and> rb_ActorID row = actor)
        \<and> ((\<forall>x\<in>set (dbCheckpoints s). dim_hit h c k x \<or> checkpoint_ok s x) \<longrightarrow> ledger_ok E t)
    | Inl e \<Rightarrow> e = [ErrRollupPending] \<and> 0 < CountPendingRollupForDimension s h c k
        \<or> e = [] \<and> (h = 0 \<or> 10 ^ 30 \<le> \<bar>ledger_balance s h c k\<bar> \<or> 10 ^ 30 \<le> \<bar>claimed_balance s h c k\<bar>
            \<or> 10 ^ 30 \<le> \<bar>claimed_balance s h c k - ledger_balance s h c k\<bar>)"
proof -
  let ?s0 = "s\<lparr>dbCheckpoints := []\<rparr>"
  have books: "dims_ok s" "\<forall>e\<in>set (dbEntries s). entry_ok s e" "\<forall>e\<in>set (dbEntries s). 0 < er_ID e \<and> er_ID e \<le> dbSeq s" "0 \<le> dbSeq s"
    using assms(2) by (simp_all add: ledger_ok_def ids_ok_def dims_ok_def dims_unique_def entry_ok_def
        ListCurrencyDims_def ListClassificationDims_def ListJournalTypeDims_def)
  have dims: "dims_unique s" using books(1) by (simp add: dims_ok_def)
  have cur: "currencyOfUID s (cur_UID cur) = Inr (currencyDim cur)" "classOfUID s (cls_UID cl) = Inr (classDim cl)"
    using dims_unique_find(1) [OF dims, of "currencyDim cur"] dims_unique_find(3) [OF dims, of "classDim cl"] assms(3,4)
    by (simp_all add: ListCurrencyDims_def ListClassificationDims_def currencyDim_def classDim_def)
  note out = rebuild_outcome [OF assms(1) books(1,2) assms(4), of h "cur_ID cur" actor, folded c_def k_def]
  show ?thesis
  proof (cases "RebuildCheckpoint E h (cur_UID cur) (cls_UID cl) actor s")
    case (Inl e)
    then show ?thesis
      by (auto simp: RebuildCheckpoint_def cur currencyDim_def classDim_def out Let_def simp flip: c_def k_def split: if_splits)
  next
    case (Inr r)
    let ?rows = "filter (on_dim h c k) (dbEntries s)"
    define cp where "cp = \<lparr>cp_AccountHolder = h, cp_CurrencyID = c, cp_ClassificationID = k, cp_Balance = ledger_balance s h c k,
      cp_LastEntryID = maxOr 0 (map er_ID ?rows), cp_LastEntryAt = timestamptz (maxOr epoch (map er_CreatedAt ?rows)),
      cp_UpdatedAt = timestamptz (envNow E)\<rparr>"
    define row where "row = \<lparr>rb_ID = dbSeq s + 1, rb_UID = envNewUID E (dbSeq s + 1),
      rb_AccountHolder = h, rb_CurrencyID = c, rb_ClassificationID = k, rb_PreviousBalance = claimed_balance s h c k,
      rb_PreviousLastEntryID = since_of s h c k, rb_NewBalance = ledger_balance s h c k, rb_NewLastEntryID = cp_LastEntryID cp,
      rb_Drift = claimed_balance s h c k - ledger_balance s h c k, rb_ActorID = actor, rb_CreatedAt = timestamptz (envNow E)\<rparr>"
    have q: "rebuildWithQueries E h c k actor s = Inr ((numericToDecimal E (ledger_balance s h c k), maxOr epoch (map er_CreatedAt ?rows)),
        (putCheckpoint E False cp s)\<lparr>dbRebuilds := dbRebuilds s @ [row], dbSeq := dbSeq s + 1\<rparr>)"
      using Inr out unfolding RebuildCheckpoint_def cur currencyDim_def classDim_def Let_def cp_def [symmetric]
      by (simp add: row_def flip: c_def k_def split: if_splits)
    have t: "fst r = \<lparr>bc_AccountHolder = h, bc_CurrencyUID = cur_UID cur, bc_ClassificationUID = cls_UID cl,
        bc_Balance = numericToDecimal E (ledger_balance s h c k), bc_LastEntryAt = maxOr epoch (map er_CreatedAt ?rows)\<rparr>"
      "snd r = (putCheckpoint E False cp s)\<lparr>dbRebuilds := dbRebuilds s @ [row], dbSeq := dbSeq s + 1\<rparr>"
      using Inr by (auto simp: RebuildCheckpoint_def cur currencyDim_def classDim_def q simp flip: c_def k_def)
    have row: "rb_PreviousBalance row = claimed_balance s h c k" "rb_NewBalance row = ledger_balance s h c k"
      "rb_Drift row = claimed_balance s h c k - ledger_balance s h c k" "rb_ActorID row = actor" by (simp_all add: row_def)
    have hit: "dim_hit h c k cp" by (simp add: dim_hit_def cp_def)
    note put = putCheckpoint_facts [OF refl hit, where E = E and g = False and s = s]
    have le: "\<forall>e\<in>set (dbEntries s). on_dim h c k e \<longrightarrow> er_ID e \<le> cp_LastEntryID cp"
      using maxOr_facts(1) [of _ "map er_ID ?rows"] by (simp add: cp_def)
    have "maxOr 0 (map er_ID ?rows) \<le> dbSeq s"
      using books(3,4) by (intro maxOr_le) auto
    then have ok: "checkpoint_ok s cp" using le by (intro full_checkpoint_ok) (simp_all add: cp_def)
    let ?p = "putCheckpoint E False cp s"
    have p: "?p = s\<lparr>dbCheckpoints := dbCheckpoints ?p\<rparr>" by (rule put(1))
    have adv: "GetBalanceCheckpoint ?p h c k = Some cp" "set (dbCheckpoints ?p) \<subseteq> insert cp {x \<in> set (dbCheckpoints s). \<not> dim_hit h c k x}"
      using put(4) by (simp_all split: option.splits)
    have t2: "snd r = s\<lparr>dbCheckpoints := dbCheckpoints ?p, dbRebuilds := dbRebuilds s @ [row], dbSeq := dbSeq s + 1\<rparr>"
      unfolding t(2) by (subst p) simp
    have get: "GetBalanceCheckpoint (snd r) h' c' k' = GetBalanceCheckpoint ?p h' c' k'"
      and bal: "ledger_balance (snd r) h' c' k' = ledger_balance s h' c' k'" for h' c' k'
      by (simp_all add: t2 GetBalanceCheckpoint_def ledger_balance_def normal_side_of_def GetClassification_def)
    have "covered (snd r) h c k" using le by (simp add: covered_def get adv(1) bal) (simp add: t2 cp_def)
    moreover have "ledger_ok E (snd r)" if "\<forall>x\<in>set (dbCheckpoints s). dim_hit h c k x \<or> checkpoint_ok s x"
    proof (rule ledger_ok_cong [OF assms(2)])
      show "\<forall>x\<in>set (dbCheckpoints (snd r)). x \<in> set (dbCheckpoints ?s0) \<or> checkpoint_ok ?s0 x"
        using that ok adv(2)
        by (auto simp: t2 checkpoint_ok_def normal_side_of_def GetClassification_def)
    qed (simp_all add: t2)
    ultimately show ?thesis
      using Inr row put(3) store_env.numericToDecimal_val [OF assms(1)]
      by (simp add: case_prod_unfold t(1) get bal) (simp add: t2)
  qed
qed

text \<open>A checkpoint somebody wrote by hand, claiming a thousand units more.\<close>

definition poisoned_ledger :: db where
  "poisoned_ledger = posted_ledger\<lparr>dbQueue := [], dbCheckpoints := [\<lparr>cp_AccountHolder = 7, cp_CurrencyID = 1,
     cp_ClassificationID = 2, cp_Balance = 1010500000000000000000, cp_LastEntryID = 7, cp_LastEntryAt = 0, cp_UpdatedAt = 0\<rparr>]\<rparr>"

theorem RebuildCheckpoint_repairs_witness:
  "\<exists>cp t. RebuildCheckpoint ref_env 7 ''c1'' ''k1'' 42 poisoned_ledger = Inr (cp, t) \<and> covered t 7 1 2 \<and> ledger_ok ref_env t
    \<and> map rb_Drift (dbRebuilds t) = [1000000000000000000000]"
proof -
  let ?c = "hd (dbCurrencies poisoned_ledger)" and ?k = "hd (dbClassifications poisoned_ledger)"
  have eq: "poisoned_ledger\<lparr>dbCheckpoints := []\<rparr> = posted_ledger\<lparr>dbQueue := []\<rparr>"
    by (simp add: poisoned_ledger_def posted_ledger_def base_ledger_def)
  have ok: "ledger_ok ref_env (poisoned_ledger\<lparr>dbCheckpoints := []\<rparr>)"
    unfolding eq by (rule ledger_ok_cong [OF ledger_ok_posted]) simp_all
  have run: "\<not> isl (RebuildCheckpoint ref_env 7 (cur_UID ?c) (cls_UID ?k) 42 poisoned_ledger)"
    and vals: "cur_ID ?c = 1" "cls_ID ?k = 2" "cur_UID ?c = ''c1''" "cls_UID ?k = ''k1''" "dbRebuilds poisoned_ledger = []"
      "claimed_balance poisoned_ledger 7 1 2 - ledger_balance poisoned_ledger 7 1 2 = 1000000000000000000000"
    and others: "list_all (\<lambda>x. dim_hit 7 1 2 x) (dbCheckpoints poisoned_ledger)"
    by code_simp+
  have "?c \<in> set (dbCurrencies poisoned_ledger)" "?k \<in> set (dbClassifications poisoned_ledger)"
    by (simp_all add: poisoned_ledger_def posted_ledger_def base_ledger_def)
  from RebuildCheckpoint_repairs [OF renv.store_env_axioms ok this, of 7 42] run others show ?thesis
    by (auto simp: vals list_all_iff split: sum.splits)
qed

end
