(* ===== verification/Verified_Balance.thy ===== *)
theory Verified_Balance
  imports Checkpoints Posting_Accepts
begin

text \<open>
  The verified balance (\<^verbatim>\<open>postgres/verified_balance_store.go\<close>, \<^verbatim>\<open>postgres/auth_material.go\<close>): a balance that
  is only answered when every journal behind it carries a signature over its present content, and that is
  then recomputed from the entries without the checkpoints. The verifier is an argument; an absent one
  was never configured.
\<close>

section \<open>Queries\<close>

text \<open>The entries of a dimension, each with its cached verdict; an entry without an attestation has none.\<close>

definition ListContributingEntryVerdicts :: "db \<Rightarrow> int \<Rightarrow> int \<Rightarrow> int \<Rightarrow> (int \<times> int \<times> JournalAuthVerdict) list" where
  "ListContributingEntryVerdicts s holder currencyID classificationID =
     map (\<lambda>e. (er_ID e, er_JournalID e,
         case List.find (\<lambda>a. ea_EntryID a = er_ID e) (dbEntryAttestations s) of None \<Rightarrow> [] | Some a \<Rightarrow> ea_AuthVerdict a))
       (filter (on_dim holder currencyID classificationID) (dbEntries s))"

text \<open>A journal with the uid of its type and of the journal it reverses.\<close>

definition ListJournalsForAuthCheck :: "db \<Rightarrow> int list \<Rightarrow> (JournalRow \<times> string \<times> string option) list" where
  "ListJournalsForAuthCheck s journalIDs =
     concat (map (\<lambda>j. case List.find (\<lambda>t. jt_ID t = jr_JournalTypeID j) (dbJournalTypes s) of
           None \<Rightarrow> []
         | Some jt \<Rightarrow> [(j, jt_UID jt, Option.bind (jr_ReversalOf j) (GetJournalUIDByID s))])
       (filter (\<lambda>j. jr_ID j \<in> set journalIDs) (dbJournals s)))"

definition ListEntriesForJournals :: "db \<Rightarrow> int list \<Rightarrow> EntryRow list" where
  "ListEntriesForJournals s journalIDs =
     sort_key (\<lambda>e. (er_JournalID e, er_ID e)) (filter (\<lambda>e. er_JournalID e \<in> set journalIDs) (dbEntries s))"

section \<open>The material of a signature\<close>

record 'd JournalAuthMaterial =
  am_Input :: "'d JournalInput"
  am_EffectiveAt :: gotime
  am_AuthDigest :: bytes
  am_AuthSignature :: bytes
  am_AuthKeyID :: string
  am_AuthStatus :: AuthStatus

definition materialEntry :: "'d env \<Rightarrow> db \<Rightarrow> EntryRow \<Rightarrow> 'd EntryInput result" where
  "materialEntry E s e =
     bindR (currencyOfID s (er_CurrencyID e)) (\<lambda>cur.
     bindR (classOfID s (er_ClassificationID e)) (\<lambda>cls. Inr \<lparr>
       ei_AccountHolder = er_AccountHolder e, ei_CurrencyUID = dc_UID cur, ei_ClassificationUID = dk_UID cls,
       ei_EntryType = er_EntryType e, ei_Amount = numericToDecimal E (er_Amount e)\<rparr>))"

definition journalMaterial ::
  "'d env \<Rightarrow> db \<Rightarrow> EntryRow list \<Rightarrow> JournalRow \<times> string \<times> string option \<Rightarrow> (int \<times> 'd JournalAuthMaterial) result" where
  "journalMaterial E s entryRows row =
     (case row of (j, journalTypeUID, reversalOf) \<Rightarrow>
        bindR (mapR (materialEntry E s) (filter (\<lambda>e. er_JournalID e = jr_ID j) entryRows)) (\<lambda>entryInputs.
          Inr (jr_ID j, \<lparr>am_Input = \<lparr>ji_JournalTypeUID = journalTypeUID, ji_IdempotencyKey = jr_IdempotencyKey j,
              ji_Entries = entryInputs, ji_Metadata = [], ji_ActorID = jr_ActorID j, ji_Source = jr_Source j,
              ji_ReversalOfUID = (case reversalOf of None \<Rightarrow> [] | Some u \<Rightarrow> u), ji_EventUID = [], ji_EffectiveAt = 0\<rparr>,
            am_EffectiveAt = jr_EffectiveAt j, am_AuthDigest = jr_AuthDigest j, am_AuthSignature = jr_AuthSignature j,
            am_AuthKeyID = jr_AuthKeyID j, am_AuthStatus = jr_AuthStatus j\<rparr>)))"

definition fetchJournalAuthMaterial :: "'d env \<Rightarrow> db \<Rightarrow> int list \<Rightarrow> (int \<times> 'd JournalAuthMaterial) list result" where
  "fetchJournalAuthMaterial E s journalIDs =
     (if journalIDs = [] then Inr []
      else mapR (journalMaterial E s (ListEntriesForJournals s journalIDs)) (ListJournalsForAuthCheck s journalIDs))"

definition verifyMaterial :: "'d env \<Rightarrow> AuthVerifier \<Rightarrow> 'd JournalAuthMaterial \<Rightarrow> unit result" where
  "verifyMaterial E ver m =
     VerifyJournalAuth (envD E) ver (am_Input m) (am_EffectiveAt m) (am_AuthDigest m) (am_AuthSignature m) (am_AuthKeyID m)"

section \<open>The balance\<close>

definition verifyJournalsNaively :: "'d env \<Rightarrow> AuthVerifier \<Rightarrow> db \<Rightarrow> int list \<Rightarrow> unit result" where
  "verifyJournalsNaively E ver s journalIDs =
     bindR (fetchJournalAuthMaterial E s journalIDs) (\<lambda>materials.
       forEach (\<lambda>i. case map_of materials i of
           None \<Rightarrow> Inl [ErrUnauthorizedJournal]
         | Some m \<Rightarrow> verifyMaterial E ver m) journalIDs)"

text \<open>The ids to check are collected in a Go map; they are taken here in order of first appearance.\<close>

definition VerifiedBalance :: "'d env \<Rightarrow> AuthVerifier option \<Rightarrow> db \<Rightarrow> int \<Rightarrow> string \<Rightarrow> string \<Rightarrow> 'd result" where
  "VerifiedBalance E verifier s holder currencyUID classificationUID =
     (if \<not> envPool E then invalid
      else bindR (currencyOfUID s currencyUID) (\<lambda>cur.
        bindR (classOfUID s classificationUID) (\<lambda>cls.
        let rows = ListContributingEntryVerdicts s holder (dc_ID cur) (dk_ID cls);
            needsLiveCheck = dedupe (map (\<lambda>(_, j, _). j) rows)
        in if \<exists>(_, _, verdict)\<in>set rows. verdict = JournalAuthVerdictUnauthorized
           then Inl [ErrUnauthorizedJournal]
           else andThen (if needsLiveCheck = [] then Inr ()
               else (case verifier of None \<Rightarrow> Inl [ErrUnauthorizedJournal]
                     | Some ver \<Rightarrow> verifyJournalsNaively E ver s needsLiveCheck))
             (RecomputeBalance E s holder currencyUID classificationUID))))"

section \<open>What the store can read back of a signed journal\<close>

lemma posting_auth:
  assumes "posting E input rs jtID eventID undo eff auth s row t"
  shows "jr_AuthDigest row = ja_digest auth" "jr_AuthSignature row = ja_signature auth" "jr_AuthKeyID row = ja_keyID auth"
proof -
  obtain s1 where "InsertJournal E jtID input (fst (Totals (envD E) input)) (snd (Totals (envD E) input)) undo eventID eff auth s = Inr (row, s1)"
    using assms by (auto simp: posting_def)
  from InsertJournal_Inr(2) [OF this]
  show "jr_AuthDigest row = ja_digest auth" "jr_AuthSignature row = ja_signature auth" "jr_AuthKeyID row = ja_keyID auth" by simp_all
qed

lemma filter_key_unique: "distinct (map f xs) \<Longrightarrow> x \<in> set xs \<Longrightarrow> filter (\<lambda>y. f y = f x) xs = [x]"
  by (induction xs) (auto simp: filter_empty_conv rev_image_eqI)

lemma find_map: "List.find P (map f xs) = map_option f (List.find (\<lambda>x. P (f x)) xs)"
  by (induction xs) auto

lemma truncate_twice: "canonicalTimestamp (timestamptz t) = canonicalTimestamp t"
  by (simp add: canonicalTimestamp_def timestamptz_def TruncateTime_def)

lemma materialEntry_row:
  assumes "store_env E" "dims_grow s u" "dims_unique u" "resolveEntry s e = Inr r"
    and "dval (envD E) (ei_Amount r) = unit_val (units (envD E) (ei_Amount r))"
  obtains m where "materialEntry E u (entryRowOf E j t i r) = Inr m" "entry_view (envD E) m = entry_view (envD E) e"
    "- 18 \<le> dExponent (envD E) (ei_Amount m)"
proof -
  have D: "decimal_lib (envD E)" using assms(1) by (simp add: store_env_def)
  obtain cur cls where c: "currencyOfUID s (ei_CurrencyUID e) = Inr cur" "classOfUID s (ei_ClassificationUID e) = Inr cls"
    and r: "r = \<lparr>ei_AccountHolder = ei_AccountHolder e, ei_CurrencyUID = ei_CurrencyUID e,
       ei_ClassificationUID = ei_ClassificationUID e, ei_EntryType = ei_EntryType e,
       ei_Amount = ei_Amount e, re_currencyID = dc_ID cur, re_classificationID = dk_ID cls,
       re_exponent = dc_Exponent cur, re_normalSide = dk_NormalSide cls\<rparr>"
    using assms(4) by (auto simp: resolveEntry_def)
  from currencyOfUID_Inr [OF lookups_grow(1) [OF assms(2,3) c(1)]] classOfUID_Inr [OF lookups_grow(2) [OF assms(2,3) c(2)]]
  have "currencyOfID u (dc_ID cur) = Inr cur" "classOfID u (dk_ID cls) = Inr cls"
    and uid: "dc_UID cur = ei_CurrencyUID e" "dk_UID cls = ei_ClassificationUID e"
    using dims_unique_find(2,4) [OF assms(3)] by auto
  then have "materialEntry E u (entryRowOf E j t i r) = Inr \<lparr>ei_AccountHolder = ei_AccountHolder e,
      ei_CurrencyUID = ei_CurrencyUID e, ei_ClassificationUID = ei_ClassificationUID e, ei_EntryType = ei_EntryType e,
      ei_Amount = numericToDecimal E (units (envD E) (ei_Amount e))\<rparr>"
    by (simp add: materialEntry_def entryRowOf_def r)
  from that [OF this] show thesis
    using assms(5) store_env.numericToDecimal_val [OF assms(1)] store_env.NumericExp [OF assms(1)]
    by (simp add: entry_view_def r numericToDecimal_def Let_def decimal_lib.Exponent_New [OF D])
qed

lemma materialEntries:
  assumes "store_env E" "dims_grow s u" "dims_unique u" "list_all2 (\<lambda>e r. resolveEntry s e = Inr r) es rs"
    and "\<forall>r\<in>set rs. dval (envD E) (ei_Amount r) = unit_val (units (envD E) (ei_Amount r))"
  shows "\<exists>ms. mapR (materialEntry E u) (entryRowsOf E j t n rs) = Inr ms
     \<and> map (entry_view (envD E)) ms = map (entry_view (envD E)) es
     \<and> (\<forall>m\<in>set ms. - 18 \<le> dExponent (envD E) (ei_Amount m))"
  using assms(4,5)
proof (induction arbitrary: n rule: list_all2_induct)
  case (Cons e es r rs)
  then obtain ms where "mapR (materialEntry E u) (entryRowsOf E j t (n + 1) rs) = Inr ms"
    "map (entry_view (envD E)) ms = map (entry_view (envD E)) es"
    "\<forall>m\<in>set ms. - 18 \<le> dExponent (envD E) (ei_Amount m)" by fastforce
  moreover obtain m where "materialEntry E u (entryRowOf E j t (n + 1) r) = Inr m" "entry_view (envD E) m = entry_view (envD E) e"
    "- 18 \<le> dExponent (envD E) (ei_Amount m)"
    using Cons by (auto intro: materialEntry_row [OF assms(1-3)])
  ultimately show ?case by auto
qed simp

text \<open>The material of a journal posted under a new key, in any later state of the books.\<close>

lemma posted_material:
  assumes "store_env E" "ledger_ok E s" "postJournalWithQueries E input eff auth s = Inr (j, t)"
    and "GetJournalByIdempotencyKey s (ji_IdempotencyKey input) = None" "ledger_extends t u" "ledger_ok E u"
  obtains row m orig where "dbJournals t = dbJournals s @ [row]" "JournalInput_Validate (envD E) (envJ E) (envNow E) input = Inr ()"
    "fetchJournalAuthMaterial E u [jr_ID row] = Inr [(jr_ID row, m)]"
    "am_AuthDigest m = ja_digest auth" "am_AuthSignature m = ja_signature auth" "am_AuthKeyID m = ja_keyID auth"
    "am_EffectiveAt m = timestamptz eff"
    "journal_intent (envD E) (am_Input m) (timestamptz eff) = journal_intent (envD E) (input\<lparr>ji_ReversalOfUID := orig\<rparr>) eff"
    "if ji_ReversalOfUID input = [] then orig = [] else envParseUID E (ji_ReversalOfUID input) = Some orig"
    "ji_ReversalOfUID (am_Input m) = orig"
    "map (entry_view (envD E)) (ji_Entries (am_Input m)) = map (entry_view (envD E)) (ji_Entries input)"
    "\<forall>e\<in>set (ji_Entries (am_Input m)). - 18 \<le> dExponent (envD E) (ei_Amount e)"
proof -
  let ?D = "envD E"
  have D: "decimal_lib ?D" using assms(1) by (simp add: store_env_def)
  obtain rs jt eventID undo row where
    v: "JournalInput_Validate ?D (envJ E) (envNow E) input = Inr ()"
    and r: "resolveEntries s (ji_Entries input) = Inr rs" and jt: "jtOfUID s (ji_JournalTypeUID input) = Inr jt"
    and un: "resolveReversalOf E s input rs = Inr undo"
    and p: "posting E input rs (dj_ID jt) eventID undo eff auth s row t"
    by (rule post_new [OF assms(3,4)], rule that)
  note q = posting_tables [OF p] and w = posting_row [OF p] and au = posting_auth [OF p]
  have ok: "ids_ok s" "\<forall>e\<in>set (dbEntries s). entry_ok s e" "dims_unique s" "ids_ok u" "dims_unique u"
    using assms(2,6) by (simp_all add: ledger_ok_def dims_ok_def)
  have ext: "dims_grow t u" "set (dbJournals t) \<subseteq> set (dbJournals u)" "ListJournalEntries u (jr_ID row) = ListJournalEntries t (jr_ID row)"
    using assms(5) q(2) by (simp_all add: ledger_extends_def)
  have row: "row \<in> set (dbJournals u)" using ext(2) q(2) by auto
  have grow: "dims_grow s u" using ext(1) same_config_lookups(4-6) [OF q(1)] by (simp add: dims_grow_def)
  have l2: "list_all2 (\<lambda>e r. resolveEntry s e = Inr r) (ji_Entries input) rs" using r by (simp add: resolveEntries_def mapR_Inr)
  have vals: "\<forall>r\<in>set rs. dval ?D (ei_Amount r) = unit_val (units ?D (ei_Amount r))"
    using resolveEntries_ok [OF r ok(3)] decimal_lib.valid_units(1) [OF D v]
    by (metis in_set_conv_nth list_all2_conv_all_nth resolved_ok_def)
  have rows: "ListJournalEntries u (jr_ID row) = entryRowsOf E (dbSeq s + 1) eff (dbSeq s + 1) rs"
    using posting_lists(1) [OF p ok(1,2)] ext(3) by (simp add: w(1))
  obtain ms where ms: "mapR (materialEntry E u) (ListJournalEntries u (jr_ID row)) = Inr ms"
    "map (entry_view ?D) ms = map (entry_view ?D) (ji_Entries input)" "\<forall>m\<in>set ms. - 18 \<le> dExponent ?D (ei_Amount m)"
    using materialEntries [OF assms(1) grow ok(5) l2 vals] unfolding rows by blast
  have entries: "filter (\<lambda>e. er_JournalID e = jr_ID row) (ListEntriesForJournals u [jr_ID row]) = ListJournalEntries u (jr_ID row)"
  proof -
    have "sorted_wrt (<) (map er_ID (ListJournalEntries u (jr_ID row)))" unfolding rows by (rule entryRowsOf_sorted)
    then have "sorted (map (\<lambda>e. (er_JournalID e, er_ID e)) (ListJournalEntries u (jr_ID row)))"
      by (auto simp: sorted_wrt_map ListJournalEntries_def elim!: sorted_wrt_mono_rel [rotated])
    then have "ListEntriesForJournals u [jr_ID row] = ListJournalEntries u (jr_ID row)"
      by (simp add: ListEntriesForJournals_def ListJournalEntries_def sort_key_id_if_sorted)
    then show ?thesis by (simp add: ListJournalEntries_def)
  qed
  obtain jr where jr: "List.find (\<lambda>t. jt_ID t = dj_ID jt) (dbJournalTypes u) = Some jr" "jt_UID jr = ji_JournalTypeUID input"
  proof -
    have "jtOfID s (dj_ID jt) = Inr jt" using jtOfUID_Inr [OF jt] dims_unique_find(6) [OF ok(3)] by blast
    from lookups_grow(3) [OF grow ok(5) this] show thesis
      using jtOfUID_Inr [OF jt]
      by (auto simp: jtOfID_def orErr_def ListJournalTypeDims_def find_map jtDim_def split: option.splits intro: that)
  qed
  define orig where "orig = (case Option.bind (jr_ReversalOf row) (GetJournalUIDByID u) of None \<Rightarrow> [] | Some x \<Rightarrow> x)"
  have orig: "if ji_ReversalOfUID input = [] then orig = [] else envParseUID E (ji_ReversalOfUID input) = Some orig"
  proof (cases "ji_ReversalOfUID input = []")
    case True
    then show ?thesis using resolveReversalOf_Inr [OF un] by (auto simp: orig_def w(4) zeroInt64ToNil_def)
  next
    case False
    then obtain pg old where o: "envParseUID E (ji_ReversalOfUID input) = Some pg" "GetJournalByUID s pg = Some old" "jr_ID old = undo"
      using resolveReversalOf_Inr [OF un] by blast
    then have m: "old \<in> set (dbJournals s)" "jr_UID old = pg" by (auto simp: GetJournalByUID_def dest!: find_Some_mem)
    then have "undo \<noteq> 0" using ok(1) o(3) by (auto simp: ids_ok_def)
    moreover have "GetJournalUIDByID u undo = Some pg"
      using find_image_unique [of jr_ID "dbJournals u" old undo] ok(4) ext(2) q(2) m o(3)
      by (auto simp: GetJournalUIDByID_def ids_ok_def)
    ultimately show ?thesis using False o(1) by (simp add: orig_def w(4) zeroInt64ToNil_def)
  qed
  have only: "filter (\<lambda>j. jr_ID j \<in> set [jr_ID row]) (dbJournals u) = [row]"
    using filter_key_unique [of jr_ID "dbJournals u" row] ok(4) row by (simp add: ids_ok_def)
  define m where "m = \<lparr>am_Input = \<lparr>ji_JournalTypeUID = ji_JournalTypeUID input, ji_IdempotencyKey = ji_IdempotencyKey input,
      ji_Entries = ms, ji_Metadata = [], ji_ActorID = ji_ActorID input, ji_Source = ji_Source input,
      ji_ReversalOfUID = orig, ji_EventUID = [], ji_EffectiveAt = 0\<rparr>,
    am_EffectiveAt = timestamptz eff, am_AuthDigest = ja_digest auth, am_AuthSignature = ja_signature auth,
    am_AuthKeyID = ja_keyID auth, am_AuthStatus = jr_AuthStatus row\<rparr>"
  have "fetchJournalAuthMaterial E u [jr_ID row] = Inr [(jr_ID row, m)]"
    unfolding fetchJournalAuthMaterial_def ListJournalsForAuthCheck_def only
    by (simp add: w(6) jr journalMaterial_def entries ms(1) m_def au w(2,9,11,12) orig_def)
  moreover have "journal_intent ?D (am_Input m) (timestamptz eff) = journal_intent ?D (input\<lparr>ji_ReversalOfUID := orig\<rparr>) eff"
    by (simp add: journal_intent_def m_def ms(2) truncate_twice)
  ultimately show thesis
    by (intro that [of row m orig]) (simp_all add: q(2) v m_def orig ms(2,3))
qed

lemma same_views_encodable:
  assumes "decimal_lib D" "map (entry_view D) ms = map (entry_view D) es"
    and "\<forall>m\<in>set ms. - 18 \<le> dExponent D (ei_Amount m)"
    and "\<forall>e\<in>set es. validateEntry D e = Inr ()"
  shows "\<forall>m\<in>set ms. ValidateAmountMagnitude D (ei_Amount m) = Inr ()"
proof
  fix m assume m: "m \<in> set ms"
  then have "entry_view D m \<in> set (map (entry_view D) ms)" by simp
  then obtain e where e: "e \<in> set es" "entry_view D m = entry_view D e" unfolding assms(2) by auto
  then have v: "dval D (ei_Amount m) = dval D (ei_Amount e)" "validateEntry D e = Inr ()"
    using assms(4) by (simp_all add: entry_view_def)
  then have "0 < dval D (ei_Amount e)" by (simp add: decimal_lib.validateEntry_Inr [OF assms(1)])
  moreover have "ValidateAmountMagnitude D (ei_Amount e) = Inr ()" using v(2) by (simp add: validateEntry_def)
  ultimately show "ValidateAmountMagnitude D (ei_Amount m) = Inr ()"
    using v(1) assms(3) m by (auto simp: ValidateAmountMagnitude_iff)
qed

lemma same_views_sized:
  assumes "map (entry_view D) (ji_Entries k) = map (entry_view D) (ji_Entries j)" "go_sized j" "fits32 (ji_ReversalOfUID k)"
    and "journal_intent D k t = journal_intent D (j\<lparr>ji_ReversalOfUID := r\<rparr>) t'"
  shows "go_sized k"
proof -
  have "length (ji_Entries k) = length (ji_Entries j)" using map_eq_imp_length_eq [OF assms(1)] .
  moreover have "list_all P (ji_Entries k) \<longleftrightarrow> list_all P (ji_Entries j)"
    if "\<And>x y. entry_view D x = entry_view D y \<Longrightarrow> P x = P y" for P
  proof -
    have "list_all2 (\<lambda>x y. P x = P y) (ji_Entries k) (ji_Entries j)"
      using assms(1) that unfolding list.rel_eq [symmetric] list.rel_map by (rule list.rel_mono_strong)
    then show ?thesis by (induction rule: list_all2_induct) auto
  qed
  ultimately show ?thesis
    using assms(2-4) by (auto simp: go_sized_def journal_intent_def entry_view_def)
qed

lemma verify_one:
  assumes "fetchJournalAuthMaterial E u [i] = Inr [(i, m)]"
  shows "verifyJournalsNaively E ver u [i] = verifyMaterial E ver m"
  using assms by (cases "verifyMaterial E ver m") (simp_all add: verifyJournalsNaively_def)

text \<open>C10. What was signed is what is verified: a journal posted with a signer under a new key verifies in
  every later state of the books exactly when the digest of its own content, with the uid of the journal
  it reverses spelled the way the database spells it, is the digest that was signed. A journal whose
  reversal uid was given in that spelling (or that reverses nothing) always verifies; for any other
  spelling the two digests are taken over different preimages.\<close>

theorem signed_posting_verifies:
  assumes "store_env E" "ledger_ok E s" "envPool E" "envAttestor E = Some sign"
    and "PostJournal E input s = Inr (j, t)" "GetJournalByIdempotencyKey s (ji_IdempotencyKey input) = None"
    and "\<And>d sg k. sign d = Inr (sg, k) \<Longrightarrow> sg \<noteq> [] \<and> k \<noteq> [] \<and> ver d sg k = Inr ()"
    and "go_sized input" "go_instant (resolveEffectiveAt E (ji_EffectiveAt input))"
    and "\<And>v. envParseUID E (ji_ReversalOfUID input) = Some v \<Longrightarrow> fits32 v"
    and "ledger_extends t u" "ledger_ok E u"
  shows "\<exists>row orig p q. dbJournals t = dbJournals s @ [row]
    \<and> (if ji_ReversalOfUID input = [] then orig = [] else envParseUID E (ji_ReversalOfUID input) = Some orig)
    \<and> journalPreimage (envD E) input (resolveEffectiveAt E (ji_EffectiveAt input)) = Inr p
    \<and> journalPreimage (envD E) (input\<lparr>ji_ReversalOfUID := orig\<rparr>) (resolveEffectiveAt E (ji_EffectiveAt input)) = Inr q
    \<and> (p = q \<longleftrightarrow> canonical_uid E (ji_ReversalOfUID input))
    \<and> (verifyJournalsNaively E ver u [jr_ID row] = Inr () \<longleftrightarrow> Sum256 q = Sum256 p)"
proof -
  let ?D = "envD E" and ?eff = "resolveEffectiveAt E (ji_EffectiveAt input)"
  have D: "decimal_lib ?D" using assms(1) by (simp add: store_env_def)
  obtain auth where a: "attestJournal E s input ?eff = Inr auth" "postJournalWithQueries E input ?eff auth s = Inr (j, t)"
    using assms(3,5) by (auto simp: PostJournal_def Let_def)
  obtain row m orig where m: "dbJournals t = dbJournals s @ [row]" "JournalInput_Validate ?D (envJ E) (envNow E) input = Inr ()"
      "fetchJournalAuthMaterial E u [jr_ID row] = Inr [(jr_ID row, m)]"
      "am_AuthDigest m = ja_digest auth" "am_AuthSignature m = ja_signature auth" "am_AuthKeyID m = ja_keyID auth"
      "am_EffectiveAt m = timestamptz ?eff"
      "journal_intent ?D (am_Input m) (timestamptz ?eff) = journal_intent ?D (input\<lparr>ji_ReversalOfUID := orig\<rparr>) ?eff"
      "if ji_ReversalOfUID input = [] then orig = [] else envParseUID E (ji_ReversalOfUID input) = Some orig"
      "ji_ReversalOfUID (am_Input m) = orig"
      "map (entry_view ?D) (ji_Entries (am_Input m)) = map (entry_view ?D) (ji_Entries input)"
      "\<forall>e\<in>set (ji_Entries (am_Input m)). - 18 \<le> dExponent ?D (ei_Amount e)"
    by (rule posted_material [OF assms(1,2) a(2) assms(6,11,12)], rule that)
  let ?canon = "input\<lparr>ji_ReversalOfUID := orig\<rparr>"
  have valid: "\<forall>e\<in>set (ji_Entries input). validateEntry ?D e = Inr ()"
    using m(2) by (simp add: decimal_lib.JournalInput_Validate_Inr [OF D] well_formed_def)
  note pre = decimal_lib.journalPreimage_amounts [OF D]
  have amts: "\<forall>e\<in>set (ji_Entries input). ValidateAmountMagnitude ?D (ei_Amount e) = Inr ()"
    using valid by (simp add: validateEntry_def)
  then obtain p where p: "journalPreimage ?D input ?eff = Inr p" using pre by blast
  obtain q where q: "journalPreimage ?D ?canon ?eff = Inr q" using pre [of ?canon] amts by auto
  obtain q' where q': "journalPreimage ?D (am_Input m) (timestamptz ?eff) = Inr q'"
    using pre [OF same_views_encodable [OF D m(11,12) valid]] by blast
  have f: "fits32 orig" using m(9) assms(10) by (auto simp: fits32_def split: if_splits)
  have sized: "go_sized ?canon" "go_sized (am_Input m)"
    using assms(8) f same_views_sized [OF m(11) assms(8) _ m(8)] m(10) by (simp_all add: go_sized_def)
  have inst: "go_instant (timestamptz ?eff)" using go_instant_canonical [OF assms(9)]
    by (simp add: timestamptz_def canonicalTimestamp_def microsecond_def)
  have qq: "q' = q" using decimal_lib.journalPreimage_eq [OF D q' q sized(2,1) inst assms(9)] m(8) by simp
  have "p = q \<longleftrightarrow> ji_ReversalOfUID input = orig"
    using decimal_lib.journalPreimage_eq [OF D p q assms(8) sized(1) assms(9,9)] by (auto simp: journal_intent_def)
  also have "\<dots> \<longleftrightarrow> canonical_uid E (ji_ReversalOfUID input)"
    using m(9) by (auto simp: canonical_uid_def split: if_splits)
  finally have eq: "p = q \<longleftrightarrow> canonical_uid E (ji_ReversalOfUID input)" .
  obtain sg k where sg: "sign (Sum256 p) = Inr (sg, k)" "ja_digest auth = Sum256 p" "ja_signature auth = sg" "ja_keyID auth = k"
    using a(1) assms(4,6) p by (auto simp: attestJournal_def CanonicalJournalDigest_def split: sum.splits)
  have "verifyJournalsNaively E ver u [jr_ID row] = Inr () \<longleftrightarrow> Sum256 q = Sum256 p"
    using assms(7) [OF sg(1)] q' qq
    by (auto simp: verify_one [OF m(3)] verifyMaterial_def VerifyJournalAuth_Inr CanonicalJournalDigest_def m(4-7) sg(2-4))
  with m(1,9) p q eq show ?thesis by blast
qed

definition signing_env :: "(int \<times> int) env" where
  "signing_env = ref_env\<lparr>envNow := 0, envAttestor := Some (\<lambda>d. if d = [] then invalid else Inr (d, ''kms'')), envPool := True\<rparr>"

definition sample_verifier :: AuthVerifier where
  "sample_verifier d sg k = (if sg = d \<and> k = ''kms'' then Inr () else Inl [ErrUnauthorizedJournal])"

lemma signing_env_sel [simp]:
  "envD signing_env = ref_decimal" "envJ signing_env = no_json" "envNow signing_env = 0" "envPool signing_env"
  "envAttestor signing_env = Some (\<lambda>d. if d = [] then invalid else Inr (d, ''kms''))"
  "envParseUID signing_env = envParseUID ref_env" "envNumeric signing_env = envNumeric ref_env"
  by (simp_all add: signing_env_def ref_env_def)

lemma signing_env_ok: "store_env signing_env" "ledger_ok signing_env posted_ledger"
proof -
  show "store_env signing_env" unfolding signing_env_def by (rule store_env_update [OF renv.store_env_axioms])
  show "ledger_ok signing_env posted_ledger" using ledger_ok_posted
    by (simp add: ledger_ok_def uids_ok_def signing_env_def ref_env_def)
qed

theorem signed_posting_verifies_witness:
  "\<exists>j t row. PostJournal signing_env (deposit ''d3'' 8 999) posted_ledger = Inr (j, t)
     \<and> dbJournals t = dbJournals posted_ledger @ [row]
     \<and> verifyJournalsNaively signing_env sample_verifier t [jr_ID row] = Inr ()"
proof -
  let ?in = "deposit ''d3'' 8 999"
  let ?eff = "resolveEffectiveAt signing_env (ji_EffectiveAt ?in)"
  have v: "JournalInput_Validate ref_decimal no_json 0 ?in = Inr ()" by code_simp
  have new: "GetJournalByIdempotencyKey posted_ledger (ji_IdempotencyKey ?in) = None"
    by (simp add: GetJournalByIdempotencyKey_def posted_ledger_def deposit_def base_ledger_def)
  obtain d where d: "CanonicalJournalDigest ref_decimal ?in ?eff = Inr d" "d \<noteq> []"
    using ref.journalPreimage_ok [OF v] by (fastforce simp: CanonicalJournalDigest_def)
  let ?auth = "\<lparr>ja_digest = d, ja_signature = d, ja_keyID = ''kms'', ja_status = AuthStatusSigned, ja_replay = False\<rparr>"
  have a: "attestJournal signing_env posted_ledger ?in ?eff = Inr ?auth" using d new by (simp add: attestJournal_def)
  have "\<exists>j t. postJournalWithQueries signing_env ?in ?eff ?auth posted_ledger = Inr (j, t)"
  proof (rule postJournalWithQueries_accepts [OF signing_env_ok _ new, where jt = "hd (dbJournalTypes base_ledger)"])
    show "JournalInput_Validate (envD signing_env) (envJ signing_env) (envNow signing_env) ?in = Inr ()" using v by simp
    show "list_all (entry_postable signing_env posted_ledger) (ji_Entries ?in)" by code_simp
    show "units (envD signing_env) (fst (Totals (envD signing_env) ?in)) < 10 ^ 30" by code_simp
  qed (simp_all add: posted_ledger_def deposit_def base_ledger_def GetActivePeriodClose_def)
  then obtain j t where post: "PostJournal signing_env ?in posted_ledger = Inr (j, t)"
    using a v by (auto simp: PostJournal_def Let_def)
  have ok: "ledger_ok signing_env t" by (rule PostJournal_ledger_ok [OF signing_env_ok post])
  have "\<exists>row orig p q. dbJournals t = dbJournals posted_ledger @ [row]
    \<and> (if ji_ReversalOfUID ?in = [] then orig = [] else envParseUID signing_env (ji_ReversalOfUID ?in) = Some orig)
    \<and> journalPreimage (envD signing_env) ?in ?eff = Inr p
    \<and> journalPreimage (envD signing_env) (?in\<lparr>ji_ReversalOfUID := orig\<rparr>) ?eff = Inr q
    \<and> (p = q \<longleftrightarrow> canonical_uid signing_env (ji_ReversalOfUID ?in))
    \<and> (verifyJournalsNaively signing_env sample_verifier t [jr_ID row] = Inr () \<longleftrightarrow> Sum256 q = Sum256 p)"
  proof (rule signed_posting_verifies [OF signing_env_ok _ _ post new _ _ _ _ ledger_extends_refl ok])
    show "go_sized ?in"
      by (simp add: go_sized_def deposit_def is_int64_def int64_min_def int64_max_def fits32_def EntryTypeDebit_def EntryTypeCredit_def)
    show "go_instant ?eff" by (simp add: resolveEffectiveAt_def deposit_def go_instant_def)
  qed (auto simp: sample_verifier_def deposit_def ref_env_def split: if_splits)
  with post show ?thesis by (auto simp: canonical_uid_def deposit_def)
qed

section \<open>What a verified balance says\<close>

lemma verify_each:
  assumes "ids_ok s" "verifyJournalsNaively E ver s js = Inr ()" "i \<in> set js"
  shows "verifyJournalsNaively E ver s [i] = Inr ()"
proof -
  let ?es = "\<lambda>js. filter (\<lambda>e. er_JournalID e = i) (ListEntriesForJournals s js)"
  obtain ms where ms: "fetchJournalAuthMaterial E s js = Inr ms"
    and all: "\<forall>k\<in>set js. (case map_of ms k of None \<Rightarrow> Inl [ErrUnauthorizedJournal] | Some m \<Rightarrow> verifyMaterial E ver m) = Inr ()"
    using assms(2) by (auto simp: verifyJournalsNaively_def)
  from all assms(3) obtain m where m: "map_of ms i = Some m" "verifyMaterial E ver m = Inr ()"
    by (auto split: option.splits)
  have l2: "list_all2 (\<lambda>x y. journalMaterial E s (ListEntriesForJournals s js) x = Inr y) (ListJournalsForAuthCheck s js) ms"
    using ms assms(3) by (auto simp: fetchJournalAuthMaterial_def mapR_Inr split: if_splits)
  obtain j jtUID orig where j: "(j, jtUID, orig) \<in> set (ListJournalsForAuthCheck s js)"
    "journalMaterial E s (ListEntriesForJournals s js) (j, jtUID, orig) = Inr (i, m)"
    using list_all2_right [OF l2 map_of_SomeD [OF m(1)]] by auto
  then have id: "jr_ID j = i" by (auto simp: journalMaterial_def)
  have "j \<in> set (dbJournals s)" and jt: "(case List.find (\<lambda>t. jt_ID t = jr_JournalTypeID j) (dbJournalTypes s) of
      None \<Rightarrow> [] | Some jt \<Rightarrow> [(j, jt_UID jt, Option.bind (jr_ReversalOf j) (GetJournalUIDByID s))]) = [(j, jtUID, orig)]"
    using j(1) by (auto simp: ListJournalsForAuthCheck_def split: option.splits dest: sym [of "Some _"])
  then have "filter (\<lambda>j. jr_ID j \<in> set [i]) (dbJournals s) = [j]"
    using filter_key_unique [of jr_ID "dbJournals s" j] assms(1) id by (simp add: ids_ok_def)
  then have rows: "ListJournalsForAuthCheck s [i] = [(j, jtUID, orig)]" using jt by (simp add: ListJournalsForAuthCheck_def)
  have "?es js = ?es [i]"
    using assms(3) by (auto simp: ListEntriesForJournals_def filter_sort intro!: arg_cong [where f = "sort_key _"] filter_cong)
  then have "journalMaterial E s (ListEntriesForJournals s [i]) (j, jtUID, orig) = Inr (i, m)"
    using j(2) by (simp add: journalMaterial_def id)
  then have "fetchJournalAuthMaterial E s [i] = Inr [(i, m)]" by (simp add: fetchJournalAuthMaterial_def rows)
  from verify_one [OF this] m(2) show ?thesis by simp
qed

lemma RecomputeBalance_value:
  assumes "store_env E" "ledger_ok E s" "cur \<in> set (dbCurrencies s)" "cls \<in> set (dbClassifications s)"
  shows "\<exists>b. RecomputeBalance E s h (cur_UID cur) (cls_UID cls) = Inr b
     \<and> dval (envD E) b = unit_val (ledger_balance s h (cur_ID cur) (cls_ID cls))"
proof -
  have ok: "dims_ok s" "dims_unique s" "\<forall>e\<in>set (dbEntries s). entry_ok s e"
    using assms(2) by (simp_all add: ledger_ok_def dims_ok_def)
  have "currencyOfUID s (cur_UID cur) = Inr (currencyDim cur)" "classOfUID s (cls_UID cls) = Inr (classDim cls)"
    using dims_unique_find(1) [OF ok(2), of "currencyDim cur"] dims_unique_find(3) [OF ok(2), of "classDim cls"] assms(3,4)
    by (simp_all add: ListCurrencyDims_def ListClassificationDims_def currencyDim_def classDim_def)
  then show ?thesis
    using Recompute_eq [OF ok(1,3) assms(4)] store_env.numericToDecimal_val [OF assms(1)]
    by (simp add: RecomputeBalance_def Let_def currencyDim_def classDim_def)
qed

lemma VerifiedBalance_ignores_checkpoints:
  "VerifiedBalance E verifier (s\<lparr>dbCheckpoints := cps\<rparr>) = VerifiedBalance E verifier s"
proof -
  let ?t = "s\<lparr>dbCheckpoints := cps\<rparr>"
  have dims: "currencyOfUID ?t = currencyOfUID s" "classOfUID ?t = classOfUID s" "currencyOfID ?t = currencyOfID s" "classOfID ?t = classOfID s"
    "GetJournalUIDByID ?t = GetJournalUIDByID s" "RecomputeCheckpointFromEntries ?t = RecomputeCheckpointFromEntries s"
    by (simp_all add: fun_eq_iff currencyOfUID_def classOfUID_def currencyOfID_def classOfID_def ListCurrencyDims_def
        ListClassificationDims_def GetJournalUIDByID_def RecomputeCheckpointFromEntries_def GetClassification_def cong: option.case_cong)
  have me: "materialEntry E ?t = materialEntry E s" by (intro ext) (simp add: materialEntry_def dims)
  have jm: "journalMaterial E ?t = journalMaterial E s" by (intro ext) (simp add: journalMaterial_def me)
  have q: "ListJournalsForAuthCheck ?t = ListJournalsForAuthCheck s" "ListEntriesForJournals ?t = ListEntriesForJournals s"
    "ListContributingEntryVerdicts ?t = ListContributingEntryVerdicts s"
    by (intro ext, simp add: ListJournalsForAuthCheck_def ListEntriesForJournals_def ListContributingEntryVerdicts_def dims cong: option.case_cong)+
  have v: "verifyJournalsNaively E ver ?t = verifyJournalsNaively E ver s" for ver
    by (intro ext) (simp add: verifyJournalsNaively_def fetchJournalAuthMaterial_def q jm)
  have r: "RecomputeBalance E ?t = RecomputeBalance E s" by (intro ext) (simp add: RecomputeBalance_def dims)
  show ?thesis by (intro ext) (simp only: VerifiedBalance_def q v r dims)
qed


text \<open>The posted sample journal, carrying a digest and the sample signature over it.\<close>

definition signed_ledger :: "bytes \<Rightarrow> db" where
  "signed_ledger d = posted_ledger\<lparr>dbJournals := [(hd (dbJournals posted_ledger))\<lparr>
     jr_AuthDigest := d, jr_AuthSignature := d, jr_AuthKeyID := ''kms'', jr_AuthStatus := AuthStatusSigned\<rparr>]\<rparr>"

definition signed_material :: "bytes \<Rightarrow> (int \<times> int) JournalAuthMaterial" where
  "signed_material d = \<lparr>am_Input = (deposit ''d1'' 7 1050)\<lparr>ji_Entries := map (\<lambda>e. e\<lparr>ei_Amount := (10500000000000000000, - 18)\<rparr>)
       (ji_Entries (deposit ''d1'' 7 1050))\<rparr>,
     am_EffectiveAt = 0, am_AuthDigest = d, am_AuthSignature = d, am_AuthKeyID = ''kms'', am_AuthStatus = AuthStatusSigned\<rparr>"

lemma signed_run:
  "map_sum (\<lambda>e. e) snd (postJournalWithQueries signing_env (deposit ''d1'' 7 1050) 0
     \<lparr>ja_digest = d, ja_signature = d, ja_keyID = ''kms'', ja_status = AuthStatusSigned, ja_replay = False\<rparr> base_ledger)
   = Inr (signed_ledger d)"
  by code_simp

lemma signed_ledger_ok: "ledger_ok signing_env (signed_ledger d)"
proof -
  obtain j where "postJournalWithQueries signing_env (deposit ''d1'' 7 1050) 0
     \<lparr>ja_digest = d, ja_signature = d, ja_keyID = ''kms'', ja_status = AuthStatusSigned, ja_replay = False\<rparr> base_ledger
     = Inr (j, signed_ledger d)"
    using signed_run [of d] by (auto simp: map_sum_def split: sum.splits)
  from posting_ledger_ok [OF signing_env_ok(1) ledger_ok_base this] show ?thesis .
qed

lemma signed_ledger_material: "fetchJournalAuthMaterial signing_env (signed_ledger d) [5] = Inr [(5, signed_material d)]"
  by code_simp

lemma signed_digest:
  obtains d where "verifyJournalsNaively signing_env sample_verifier (signed_ledger d) [5] = Inr ()"
proof -
  have "\<forall>e\<in>set (ji_Entries (am_Input (signed_material []))). ValidateAmountMagnitude ref_decimal (ei_Amount e) = Inr ()"
    by code_simp
  from ref.journalPreimage_amounts [OF this] obtain p where
    "journalPreimage ref_decimal (am_Input (signed_material [])) 0 = Inr p" by blast
  then have "verifyJournalsNaively signing_env sample_verifier (signed_ledger (Sum256 p)) [5] = Inr ()"
    by (simp add: verify_one [OF signed_ledger_material] verifyMaterial_def VerifyJournalAuth_Inr CanonicalJournalDigest_def
        signed_material_def sample_verifier_def)
  with that show thesis .
qed


end
