(* ===== verification/Spec2Isabelle.thy ===== *)
theory Spec2Isabelle
  imports Error_Codes Inputs Merkle Posting_Accepts Lock_Order Reversal_Fraction Verified_Balance
begin

text \<open>
  A double-entry ledger engine in Go. The package \<^verbatim>\<open>core/\<close> holds the domain: amounts, journals, templates,
  lifecycles, conversions, reservations, digests and Merkle trees, all without I/O. The package
  \<^verbatim>\<open>postgres/\<close> keeps the books: it turns a journal into rows under locks and inside one transaction,
  with the gates that protect the books, and answers balance queries. Servers and background services
  call the two.

  \<^bold>\<open>Conventions.\<close> A Go function that may fail returns \<open>goerr + 'a\<close>; an error is the list of the sentinels
  its chain wraps. Structs are records, enumerations the strings the code uses, Go maps association
  lists, times integers of nanoseconds, machine integers \<open>int\<close> where their range is enforced by the
  code and words where it is not. Third-party code is an argument: the decimal package
  (\<open>decimal_ops\<close>, laws in the locale \<open>decimal_lib\<close> of theory \<open>Decimal\<close>, which also interprets it on
  pairs of coefficient and exponent), the quote codec, the signer, and what a store finds around it
  (\<open>env\<close> of \<open>Ledger_DB\<close>, laws in the locale \<open>store_env\<close> of \<open>Store_Lemmas\<close>, interpreted there on
  \<open>ref_env\<close>). Database operations take the tables and return them changed; an error is a rollback.
  Transactions are serial in the store theories; theory \<open>Lock_Order\<close> treats the locks that make them so.

  \<^bold>\<open>The domain.\<close>
  \<^item> \<open>Ledger_Prelude\<close>: results, loops, sorting by a comparison; \<open>Decimal\<close>: the decimal interface.
  \<^item> \<open>Amount_Limits\<close> (\<^verbatim>\<open>core/limits.go\<close>, \<^verbatim>\<open>core/currency_code.go\<close>) and \<open>Money\<close> (\<^verbatim>\<open>core/money.go\<close>): bounds,
    rounding, conversion and allocation. The shares of an allocation add up to the total, each within
    one unit of its part, and the accepted inputs are characterised.
  \<^item> \<open>Lifecycle\<close>, \<open>Core_Types\<close> (\<^verbatim>\<open>core/types.go\<close>, \<^verbatim>\<open>core/account_policy.go\<close>, \<^verbatim>\<open>core/system_account.go\<close>):
    validation of state machines is exact, and runs stay inside them.
  \<^item> \<open>Conversion\<close> (\<^verbatim>\<open>core/fixed_rate.go\<close>, \<^verbatim>\<open>core/conversion.go\<close>), \<open>Journal\<close> (\<^verbatim>\<open>core/journal.go\<close>,
    \<^verbatim>\<open>core/template.go\<close>): quotes validate and reproduce their arithmetic; a journal is accepted exactly
    when it is well formed and balances per currency; rendering a template gives such a journal.
  \<^item> \<open>Error_Codes\<close> (\<^verbatim>\<open>core/errors.go\<close>, \<^verbatim>\<open>pkg/bizcode\<close>, \<^verbatim>\<open>pkg/httpx\<close>, \<^verbatim>\<open>postgres/errors.go\<close>): retry verdicts
    and wire errors. \<open>Inputs\<close>: the inputs of the stores and their validators.
  \<^item> \<open>Encoding\<close>, \<open>Digests\<close> (\<^verbatim>\<open>core/auth.go\<close>, \<^verbatim>\<open>core/attestation.go\<close>, \<^verbatim>\<open>core/reservation_auth.go\<close>): canonical
    bytes are injective on accepted journals, and a stored digest pins one intent. \<open>Merkle\<close>
    (\<^verbatim>\<open>core/merkle.go\<close>): trees, inclusion proofs and localization, on 64-bit words; the loop that may not
    end is a partial function and the sizes for which it ends are characterised.

  \<^bold>\<open>The books.\<close>
  \<^item> \<open>Ledger_DB\<close> (\<^verbatim>\<open>postgres/sqlcgen\<close>, \<^verbatim>\<open>postgres/convert.go\<close>): rows, tables, queries. \<open>Dims\<close>
    (\<^verbatim>\<open>postgres/dims.go\<close>): the dimension cache answers as the tables do.
  \<^item> \<open>Ledger_Store\<close> (\<^verbatim>\<open>postgres/ledger_store.go\<close> and the gates of \<^verbatim>\<open>precision.go\<close>,
    \<^verbatim>\<open>account_policy_enforce.go\<close>, \<^verbatim>\<open>idempotency_match.go\<close>, \<^verbatim>\<open>reversal_fraction_store.go\<close>): authorizing and posting.
  \<^item> \<open>Store_Lemmas\<close>, \<open>Ledger_Invariant\<close>: what a posting does to the tables, and the invariant
    \<open>ledger_ok\<close> (ids and uids unique, dimensions known, journals balanced, reversals within their
    originals, links mutual, checkpoints equal to a prefix of the entries) that it keeps.
  \<^item> \<open>Posting\<close>: the effect of a posting on every balance, idempotence, and that a key keeps its payload.
    \<open>Posting_Gates\<close>: what an accepted journal has passed. \<open>Posting_Accepts\<close>: what is accepted.
  \<^item> \<open>Balances\<close>: single, batch and role balances agree with the books.
  \<^item> \<open>Reversal_Store\<close>, \<open>Reversal_Fraction\<close> (\<^verbatim>\<open>postgres/reversal_fraction_store.go\<close>): full and fractional
    reversals. A completing reversal clears its original exactly, a fraction moves its share within the
    rounding, and retries are settled.
  \<^item> \<open>Checkpoints\<close> (\<^verbatim>\<open>service/rollup.go\<close>, \<^verbatim>\<open>postgres/rollup_adapter.go\<close>, \<^verbatim>\<open>postgres/checkpoint_integrity_store.go\<close>):
    the rollup keeps the books and catches up, and a repair restores a checkpoint from the entries.
  \<^item> \<open>Verified_Balance\<close> (\<^verbatim>\<open>postgres/verified_balance_store.go\<close>, \<^verbatim>\<open>postgres/auth_material.go\<close>): what was signed is
    what is verified later, and a verified balance consists of verified journals only.
  \<^item> \<open>Lock_Order\<close>: the requests of concurrent postings and the absence of circular waits.

  \<^bold>\<open>Bounds.\<close> Amount columns are integers of \<open>10^-18\<close> units below \<open>10^30\<close>, as the column type has it.
  No theorem of the store bounds the number of rows or entries. Recursions are structural or carry a
  termination proof; there is no fuel.

  \<^bold>\<open>Not modelled.\<close> The network, the HTTP layer beyond its error mapping, the command line, migrations,
  metrics and tracing are I/O. The background services (reconciliation, attestation runs, on-chain
  ingestion, delivery, snapshots) are loops over store calls and remote services. The stores of
  reservations, bookings, pending deposits, periods and configuration are represented by their inputs,
  state machines and rows. Driver failures and timeouts are not modelled.
\<close>

end
